(* ===== verification/Prelude.thy ===== *)
theory Prelude
  imports Main "HOL-Library.Word" "HOL-Library.List_Lexorder" "HOL-Library.Char_ord"
begin

text \<open>
  What every component of the driver shares: the effect type of calls that talk to the
  appliance, the parts of Go's \<^verbatim>\<open>strings\<close>, \<^verbatim>\<open>strconv\<close>, \<^verbatim>\<open>path\<close> and
  \<^verbatim>\<open>unicode/utf8\<close> packages the driver uses, 64-bit signed arithmetic with its wrap-around
  written out, and the lemmas about them.

  A Go string is its sequence of bytes, a \<^typ>\<open>string\<close>. A Go map is an association list
  where the code iterates over it and a partial function where it only looks keys up.
\<close>

named_theorems effect_simps \<open>unfolding the sequencing of effectful calls\<close>
named_theorems go_strings \<open>facts about the modelled string functions\<close>

section \<open>Calls with state and errors\<close>

text \<open>
  A call that reads and changes the state \<^typ>\<open>'s\<close> of the outside world and returns either
  an error or a result. \<open>bindE\<close> is Go's \<^verbatim>\<open>if err != nil { return err }\<close> after a call,
  \<open>tryE\<close> hands both outcomes to the caller, which is what code that inspects or ignores the
  error does.
\<close>

type_synonym ('s, 'e, 'a) op = "'s \<Rightarrow> ('e + 'a) \<times> 's"

definition retE :: "'a \<Rightarrow> ('s, 'e, 'a) op" where
  "retE x s = (Inr x, s)"

definition failE :: "'e \<Rightarrow> ('s, 'e, 'a) op" where
  "failE e s = (Inl e, s)"

definition bindE :: "('s, 'e, 'a) op \<Rightarrow> ('a \<Rightarrow> ('s, 'e, 'b) op) \<Rightarrow> ('s, 'e, 'b) op" where
  "bindE m k s = (case m s of (Inl e, s') \<Rightarrow> (Inl e, s') | (Inr x, s') \<Rightarrow> k x s')"

definition tryE :: "('s, 'e, 'a) op \<Rightarrow> ('e + 'a \<Rightarrow> ('s, 'f, 'b) op) \<Rightarrow> ('s, 'f, 'b) op" where
  "tryE m k s = (case m s of (r, s') \<Rightarrow> k r s')"

definition liftE :: "'e + 'a \<Rightarrow> ('s, 'e, 'a) op" where
  "liftE r s = (r, s)"

lemma retE_run [effect_simps]: "retE x s = (Inr x, s)"
  by (simp add: retE_def)

lemma failE_run [effect_simps]: "failE e s = (Inl e, s)"
  by (simp add: failE_def)

lemma liftE_run [effect_simps]: "liftE r s = (r, s)"
  by (simp add: liftE_def)

lemma bindE_run [effect_simps]:
  "m s = (Inl e, s') \<Longrightarrow> bindE m k s = (Inl e, s')"
  "m s = (Inr x, s') \<Longrightarrow> bindE m k s = k x s'"
  by (simp_all add: bindE_def)

lemma tryE_run [effect_simps]: "m s = (r, s') \<Longrightarrow> tryE m k s = k r s'"
  by (simp add: tryE_def)

lemma bindE_InrE:
  assumes "bindE m k s = (Inr y, t)"
  obtains x s' where "m s = (Inr x, s')" and "k x s' = (Inr y, t)"
  using assms by (auto simp: bindE_def split: prod.splits sum.splits)

lemma bindE_lift [simp]:
  "bindE (liftE (Inl e)) k = failE e"
  "bindE (liftE (Inr x)) k = k x"
  by (auto simp: bindE_def liftE_def failE_def)

lemma bindE_ret_fail [simp]:
  "bindE (retE x) k = k x"
  "bindE (failE e) k = failE e"
  by (auto simp: bindE_def retE_def failE_def)

text \<open>
  \<open>wp f s Q\<close>: running \<open>f\<close> from \<open>s\<close> ends with an outcome and a state that satisfy \<open>Q\<close>. The rules
  push it through the sequencing of calls.
\<close>

definition wp :: "('s, 'e, 'a) op \<Rightarrow> 's \<Rightarrow> ('e + 'a \<Rightarrow> 's \<Rightarrow> bool) \<Rightarrow> bool" where
  "wp f s Q = (case f s of (r, s') \<Rightarrow> Q r s')"

named_theorems wp_rules \<open>computing wp\<close>

lemma wp_basic [wp_rules]:
  "wp (retE x) s Q = Q (Inr x) s" "wp (failE e) s Q = Q (Inl e) s" "wp (liftE v) s Q = Q v s"
  by (simp_all add: wp_def retE_def failE_def liftE_def)

lemma wp_bindE [wp_rules]:
  "wp (bindE m k) s Q = wp m s (\<lambda>r s'. case r of Inl e \<Rightarrow> Q (Inl e) s' | Inr x \<Rightarrow> wp (k x) s' Q)"
  by (simp add: wp_def bindE_def split: prod.splits sum.splits)

lemma wp_tryE [wp_rules]: "wp (tryE m k) s Q = wp m s (\<lambda>r s'. wp (k r) s' Q)"
  by (simp add: wp_def tryE_def split: prod.splits)

lemma wp_if [wp_rules]: "wp (if c then f else g) s Q = (if c then wp f s Q else wp g s Q)"
  by simp

lemma wp_mono: "wp f s Q \<Longrightarrow> (\<And>r s'. f s = (r, s') \<Longrightarrow> Q r s' \<Longrightarrow> R r s') \<Longrightarrow> wp f s R"
  by (simp add: wp_def split: prod.splits)

lemma wpI: "(\<And>r s'. f s = (r, s') \<Longrightarrow> Q r s') \<Longrightarrow> wp f s Q"
  by (simp add: wp_def split: prod.splits)

lemma wpD: "wp f s Q \<Longrightarrow> f s = (r, s') \<Longrightarrow> Q r s'"
  by (simp add: wp_def)

section \<open>64-bit signed integers\<close>

text \<open>Go's \<^verbatim>\<open>int64\<close>: a mathematical integer kept in range by every operation.\<close>

definition min_int64 :: int where "min_int64 = - 9223372036854775808"
definition max_int64 :: int where "max_int64 = 9223372036854775807"

definition in_int64 :: "int \<Rightarrow> bool" where
  "in_int64 x \<longleftrightarrow> min_int64 \<le> x \<and> x \<le> max_int64"

definition wrap64 :: "int \<Rightarrow> int" where
  "wrap64 x = (x + 9223372036854775808) mod 18446744073709551616 - 9223372036854775808"

definition add64 :: "int \<Rightarrow> int \<Rightarrow> int" where
  "add64 a b = wrap64 (a + b)"

definition sub64 :: "int \<Rightarrow> int \<Rightarrow> int" where
  "sub64 a b = wrap64 (a - b)"

lemma wrap64_in_range: "in_int64 (wrap64 x)"
proof -
  let ?r = "(x + 9223372036854775808) mod 18446744073709551616"
  have "0 \<le> ?r" and "?r < 18446744073709551616" by simp_all
  then show ?thesis by (simp add: in_int64_def wrap64_def min_int64_def max_int64_def)
qed

lemma wrap64_id [simp]: "in_int64 x \<Longrightarrow> wrap64 x = x"
  by (simp add: in_int64_def wrap64_def min_int64_def max_int64_def)

lemma wrap64_is_signed_word: "wrap64 x = sint (word_of_int x :: 64 word)"
  by (simp add: wrap64_def sint_sbintrunc' signed_take_bit_eq_take_bit_shift take_bit_eq_mod)

lemma add64_in_range [simp]: "in_int64 (add64 a b)"
  by (simp add: add64_def wrap64_in_range)

lemma sub64_in_range [simp]: "in_int64 (sub64 a b)"
  by (simp add: sub64_def wrap64_in_range)

lemma add64_exact [simp]: "in_int64 (a + b) \<Longrightarrow> add64 a b = a + b"
  by (simp add: add64_def)

lemma sub64_exact [simp]: "in_int64 (a - b) \<Longrightarrow> sub64 a b = a - b"
  by (simp add: sub64_def)

lemma sub64_nonneg:
  assumes "0 \<le> a" "in_int64 a" "0 \<le> b" "in_int64 b"
  shows "sub64 a b = a - b"
  using assms by (intro sub64_exact) (simp add: in_int64_def min_int64_def max_int64_def)

section \<open>Go maps\<close>

text \<open>
  Assignment to and deletion from a Go map whose keys the code enumerates: an association list
  with one entry per key.
\<close>

fun put :: "'k \<Rightarrow> 'v \<Rightarrow> ('k \<times> 'v) list \<Rightarrow> ('k \<times> 'v) list" where
  "put k v [] = [(k, v)]"
| "put k v ((k', v') # m) = (if k' = k then (k, v) # m else (k', v') # put k v m)"

definition del :: "'k \<Rightarrow> ('k \<times> 'v) list \<Rightarrow> ('k \<times> 'v) list" where
  "del k m = filter (\<lambda>(k', _). k' \<noteq> k) m"

lemma map_of_put [simp]: "map_of (put k v m) = (map_of m)(k \<mapsto> v)"
  by (induction k v m rule: put.induct) auto

lemma map_of_del [simp]: "map_of (del k m) = (map_of m)(k := None)"
  by (induction m) (auto simp: del_def)

lemma keys_put [simp]: "fst ` set (put k v m) = insert k (fst ` set m)"
  by (induction k v m rule: put.induct) auto

lemma keys_del [simp]: "fst ` set (del k m) = fst ` set m - {k}"
  by (auto simp: del_def image_iff)

lemma put_Nil [simp]: "put k v m \<noteq> []"
  by (cases m) (auto split: if_splits)

lemma distinct_put [simp]: "distinct (map fst (put k v m)) = distinct (map fst m)"
proof (induction k v m rule: put.induct)
  case (2 k v k' v' m)
  have "set (map fst (put k v m)) = insert k (set (map fst m))" by simp
  with 2 show ?case by auto
qed simp

lemma distinct_del [simp]: "distinct (map fst m) \<Longrightarrow> distinct (map fst (del k m))"
  by (induction m) (auto simp: del_def)

end
