(* ===== verification/GoStrings.thy ===== *)
theory GoStrings
  imports Prelude
begin

text \<open>
  The parts of Go's \<^verbatim>\<open>strings\<close>, \<^verbatim>\<open>strconv\<close>, \<^verbatim>\<open>sort\<close>, \<^verbatim>\<open>path\<close> and
  \<^verbatim>\<open>unicode/utf8\<close> packages that the driver calls, on byte strings, with the lemmas the
  components use: splitting and joining are inverse, a prefix test is a decomposition,
  decimal printing and parsing are inverse, and a clean path is its own normal form.
\<close>

section \<open>strings\<close>

text \<open>\<^verbatim>\<open>strings.Split(s, c)\<close> for a one-byte separator, and \<^verbatim>\<open>strings.Join\<close>.\<close>

fun split_on :: "char \<Rightarrow> string \<Rightarrow> string list" where
  "split_on c [] = [[]]"
| "split_on c (x # xs) =
     (if x = c then [] # split_on c xs
      else (case split_on c xs of [] \<Rightarrow> [[x]] | y # ys \<Rightarrow> (x # y) # ys))"

fun join_with :: "string \<Rightarrow> string list \<Rightarrow> string" where
  "join_with sep [] = []"
| "join_with sep [x] = x"
| "join_with sep (x # y # zs) = x @ sep @ join_with sep (y # zs)"

definition has_prefix :: "string \<Rightarrow> string \<Rightarrow> bool" where
  "has_prefix p s \<longleftrightarrow> take (length p) s = p"

text \<open>\<^verbatim>\<open>strings.CutPrefix\<close> and \<^verbatim>\<open>strings.TrimPrefix\<close>.\<close>

definition cut_prefix :: "string \<Rightarrow> string \<Rightarrow> string option" where
  "cut_prefix p s = (if has_prefix p s then Some (drop (length p) s) else None)"

definition trim_prefix :: "string \<Rightarrow> string \<Rightarrow> string" where
  "trim_prefix p s = (case cut_prefix p s of Some r \<Rightarrow> r | None \<Rightarrow> s)"

fun contains_str :: "string \<Rightarrow> string \<Rightarrow> bool" where
  "contains_str sub [] = (sub = [])"
| "contains_str sub (x # xs) = (has_prefix sub (x # xs) \<or> contains_str sub xs)"

text \<open>\<^verbatim>\<open>strings.ContainsAny\<close> with a set of one-byte characters.\<close>

definition contains_any :: "string \<Rightarrow> string \<Rightarrow> bool" where
  "contains_any cs s = list_ex (\<lambda>x. x \<in> set cs) s"

text \<open>
  \<^verbatim>\<open>strings.Cut(s, c)\<close> for a one-byte separator: the text before and after its first
  occurrence, and whether there is one. \<open>cut_last\<close> cuts at the last occurrence, the shape of
  every \<^verbatim>\<open>strings.LastIndex\<close> in the driver.
\<close>

definition cut_on :: "char \<Rightarrow> string \<Rightarrow> string \<times> string \<times> bool" where
  "cut_on c s =
     (if c \<in> set s then (takeWhile (\<lambda>x. x \<noteq> c) s, tl (dropWhile (\<lambda>x. x \<noteq> c) s), True)
      else (s, [], False))"

definition cut_last :: "char \<Rightarrow> string \<Rightarrow> (string \<times> string) option" where
  "cut_last c s =
     (if c \<in> set s
      then Some (rev (tl (dropWhile (\<lambda>x. x \<noteq> c) (rev s))), rev (takeWhile (\<lambda>x. x \<noteq> c) (rev s)))
      else None)"

definition trim_char :: "char \<Rightarrow> string \<Rightarrow> string" where
  "trim_char c s = rev (dropWhile (\<lambda>x. x = c) (rev (dropWhile (\<lambda>x. x = c) s)))"

text \<open>\<^verbatim>\<open>sort.Strings\<close>: the lexicographic order on bytes.\<close>

definition sort_strings :: "string list \<Rightarrow> string list" where
  "sort_strings xs = sort xs"

subsection \<open>Splitting and joining\<close>

lemma split_on_not_Nil [simp]: "split_on c s \<noteq> []"
  by (induction s) (auto split: list.splits)

lemma join_split [simp, go_strings]: "join_with [c] (split_on c s) = s"
proof (induction s)
  case Nil
  then show ?case by simp
next
  case (Cons x xs)
  obtain y ys where "split_on c xs = y # ys"
    by (cases "split_on c xs") auto
  with Cons show ?case by (cases ys) auto
qed

lemma split_no_sep: "c \<notin> set s \<Longrightarrow> split_on c s = [s]"
  by (induction s) auto

lemma split_append_sep:
  "c \<notin> set a \<Longrightarrow> split_on c (a @ c # r) = a # split_on c r"
  by (induction a) auto

lemma split_join [go_strings]:
  "xs \<noteq> [] \<Longrightarrow> \<forall>x \<in> set xs. c \<notin> set x \<Longrightarrow> split_on c (join_with [c] xs) = xs"
  by (induction "[c]" xs rule: join_with.induct) (auto simp: split_no_sep split_append_sep)

lemma split_parts_no_sep: "x \<in> set (split_on c s) \<Longrightarrow> c \<notin> set x"
  by (induction s arbitrary: x) (fastforce split: if_splits list.splits)+

lemma join_inject:
  assumes "xs \<noteq> []" "ys \<noteq> []" "\<forall>x \<in> set xs. c \<notin> set x" "\<forall>y \<in> set ys. c \<notin> set y"
  shows "join_with [c] xs = join_with [c] ys \<longleftrightarrow> xs = ys"
  using assms split_join by metis

lemma join_append:
  "xs \<noteq> [] \<Longrightarrow> ys \<noteq> [] \<Longrightarrow> join_with sep (xs @ ys) = join_with sep xs @ sep @ join_with sep ys"
proof (induction sep xs rule: join_with.induct)
  case (2 sep x)
  then show ?case by (cases ys) auto
qed auto

subsection \<open>Prefixes\<close>

lemma has_prefix_iff [go_strings]: "has_prefix p s \<longleftrightarrow> (\<exists>r. s = p @ r)"
  unfolding has_prefix_def by (metis append_eq_conv_conj)

lemma has_prefix_append [simp]: "has_prefix p (p @ r)"
  by (simp add: has_prefix_iff)

lemma cut_prefix_Some [simp]: "cut_prefix p s = Some r \<longleftrightarrow> s = p @ r"
  by (auto simp: cut_prefix_def has_prefix_iff)

lemma cut_prefix_None: "cut_prefix p s = None \<longleftrightarrow> \<not> has_prefix p s"
  by (simp add: cut_prefix_def)

lemma trim_prefix_append [simp]: "trim_prefix p (p @ r) = r"
  by (simp add: trim_prefix_def cut_prefix_def has_prefix_iff)

lemma contains_char [simp]: "contains_str [c] s \<longleftrightarrow> c \<in> set s"
  by (induction s) (auto simp: has_prefix_def)

lemma contains_any_iff: "contains_any cs s \<longleftrightarrow> (\<exists>x \<in> set s. x \<in> set cs)"
  by (auto simp: contains_any_def list_ex_iff)

subsection \<open>Cutting\<close>

lemma while_neq_append:
  assumes "c \<notin> set a"
  shows "takeWhile (\<lambda>x. x \<noteq> c) (a @ c # r) = a" "dropWhile (\<lambda>x. x \<noteq> c) (a @ c # r) = c # r"
  using assms by (induction a) auto

lemma cut_on_append [simp]: "c \<notin> set a \<Longrightarrow> cut_on c (a @ c # r) = (a, r, True)"
  by (simp add: cut_on_def while_neq_append)

lemma cut_on_no_sep: "c \<notin> set s \<Longrightarrow> cut_on c s = (s, [], False)"
  by (simp add: cut_on_def)

lemma cut_last_append [simp]: "c \<notin> set r \<Longrightarrow> cut_last c (a @ c # r) = Some (a, r)"
  using while_neq_append [of c "rev r" "rev a"] by (simp add: cut_last_def)

lemma cut_last_None [simp]: "cut_last c s = None \<longleftrightarrow> c \<notin> set s"
  by (simp add: cut_last_def)

lemma cut_last_SomeD:
  assumes "cut_last c s = Some (a, r)"
  shows "s = a @ c # r \<and> c \<notin> set r"
proof -
  have c: "c \<in> set s" using assms by (auto simp: cut_last_def split: if_splits)
  then obtain p q where s: "s = p @ c # q" and q: "c \<notin> set q"
    by (metis split_list_last)
  with assms show ?thesis by auto
qed

section \<open>sort\<close>

lemma sort_strings_set [simp]: "set (sort_strings xs) = set xs"
  by (simp add: sort_strings_def)

lemma sort_strings_distinct [simp]: "distinct (sort_strings xs) = distinct xs"
  by (simp add: sort_strings_def)

lemma sort_strings_sorted [simp]: "sorted (sort_strings xs)"
  by (simp add: sort_strings_def)

lemma sort_strings_length [simp]: "length (sort_strings xs) = length xs"
  by (simp add: sort_strings_def)

section \<open>strconv\<close>

text \<open>Decimal digits, \<^verbatim>\<open>strconv.FormatInt(n, 10)\<close> and \<^verbatim>\<open>strconv.ParseInt(s, 10, 64)\<close>.\<close>

definition digit_char :: "nat \<Rightarrow> char" where
  "digit_char d = char_of (48 + d)"

definition is_digit :: "char \<Rightarrow> bool" where
  "is_digit c \<longleftrightarrow> 48 \<le> (of_char c :: nat) \<and> (of_char c :: nat) \<le> 57"

definition digit_val :: "char \<Rightarrow> nat" where
  "digit_val c = of_char c - 48"

fun nat_str :: "nat \<Rightarrow> string" where
  "nat_str n = (if n < 10 then [digit_char n] else nat_str (n div 10) @ [digit_char (n mod 10)])"

declare nat_str.simps [simp del]

definition FormatInt :: "int \<Rightarrow> string" where
  "FormatInt n = (if n < 0 then CHR ''-'' # nat_str (nat (- n)) else nat_str (nat n))"

definition digits_val :: "string \<Rightarrow> nat" where
  "digits_val s = foldl (\<lambda>a c. a * 10 + digit_val c) 0 s"

definition parse_digits :: "string \<Rightarrow> nat option" where
  "parse_digits s = (if s \<noteq> [] \<and> list_all is_digit s then Some (digits_val s) else None)"

definition ParseInt64 :: "string \<Rightarrow> int option" where
  "ParseInt64 s =
     (case s of
        [] \<Rightarrow> None
      | c # r \<Rightarrow>
          (let neg = (c = CHR ''-'');
               body = (if c = CHR ''-'' \<or> c = CHR ''+'' then r else s)
           in case parse_digits body of
                None \<Rightarrow> None
              | Some n \<Rightarrow>
                  (let v = (if neg then - int n else int n)
                   in if in_int64 v then Some v else None)))"

lemma char_of_literals [simp]:
  "char_of (45 :: nat) = CHR ''-''"
  "char_of (46 :: nat) = CHR ''.''"
  "char_of (95 :: nat) = CHR ''_''"
  "char_of (48 :: nat) = CHR ''0''"
  "char_of (49 :: nat) = CHR ''1''"
  "char_of (50 :: nat) = CHR ''2''"
  "char_of (51 :: nat) = CHR ''3''"
  "char_of (52 :: nat) = CHR ''4''"
  "char_of (53 :: nat) = CHR ''5''"
  "char_of (54 :: nat) = CHR ''6''"
  "char_of (55 :: nat) = CHR ''7''"
  "char_of (56 :: nat) = CHR ''8''"
  "char_of (57 :: nat) = CHR ''9''"
  by code_simp+

lemma of_char_digit_char: "d < 10 \<Longrightarrow> (of_char (digit_char d) :: nat) = 48 + d"
  by (simp add: digit_char_def)

lemma digit_char_digit [simp]: "d < 10 \<Longrightarrow> is_digit (digit_char d)"
  by (simp add: is_digit_def of_char_digit_char)

lemma digit_val_char [simp]: "d < 10 \<Longrightarrow> digit_val (digit_char d) = d"
  by (simp add: digit_val_def of_char_digit_char)

lemma nat_str_digits: "list_all is_digit (nat_str n) \<and> nat_str n \<noteq> []"
proof (induction n rule: nat_str.induct)
  case (1 n)
  then show ?case by (subst (1 2) nat_str.simps) auto
qed

lemma digits_val_snoc: "digits_val (s @ [c]) = digits_val s * 10 + digit_val c"
  by (simp add: digits_val_def)

lemma digits_val_nat_str: "digits_val (nat_str n) = n"
proof (induction n rule: nat_str.induct)
  case (1 n)
  show ?case
  proof (cases "n < 10")
    case True
    then show ?thesis by (subst nat_str.simps) (simp add: digits_val_def)
  next
    case False
    with "1.IH" show ?thesis by (subst nat_str.simps) (simp add: digits_val_snoc)
  qed
qed

lemma parse_nat_str [simp]: "parse_digits (nat_str n) = Some n"
  by (simp add: parse_digits_def nat_str_digits digits_val_nat_str)

lemma nat_str_head_digit: "nat_str n = c # r \<Longrightarrow> is_digit c"
  using nat_str_digits [of n] by auto

lemma sign_not_digit [simp]: "\<not> is_digit (CHR ''-'')" "\<not> is_digit (CHR ''+'')"
  by (simp_all add: is_digit_def)

lemma ParseInt64_FormatInt [simp]:
  assumes "in_int64 n"
  shows "ParseInt64 (FormatInt n) = Some n"
proof (cases "n < 0")
  case True
  with assms show ?thesis by (simp add: ParseInt64_def FormatInt_def)
next
  case False
  obtain c r where cr: "nat_str (nat n) = c # r"
    using nat_str_digits [of "nat n"] by (cases "nat_str (nat n)") auto
  have "c \<noteq> CHR ''-''" "c \<noteq> CHR ''+''"
    using nat_str_head_digit [OF cr] sign_not_digit by metis+
  moreover have "parse_digits (c # r) = Some (nat n)"
    using parse_nat_str [of "nat n"] cr by simp
  ultimately show ?thesis
    using False assms cr by (simp add: ParseInt64_def FormatInt_def)
qed

section \<open>unicode/utf8\<close>

text \<open>
  \<^verbatim>\<open>utf8.DecodeRuneInString\<close>: the code point a byte string starts with and its width in
  bytes. A byte that starts no valid encoding is U+FFFD of width one, which is what
  \<^verbatim>\<open>range\<close> over a string yields for it.
\<close>

definition cont_byte :: "nat \<Rightarrow> nat \<Rightarrow> nat \<Rightarrow> bool" where
  "cont_byte lo hi b \<longleftrightarrow> lo \<le> b \<and> b \<le> hi"

definition decode_rune :: "nat list \<Rightarrow> nat \<times> nat" where
  "decode_rune bs =
     (case bs of
        [] \<Rightarrow> (65533, 0)
      | b0 # r1 \<Rightarrow>
          if b0 < 128 then (b0, 1)
          else if 194 \<le> b0 \<and> b0 \<le> 223 then
            (case r1 of
               b1 # _ \<Rightarrow> if cont_byte 128 191 b1 then ((b0 mod 32) * 64 + b1 mod 64, 2) else (65533, 1)
             | [] \<Rightarrow> (65533, 1))
          else if 224 \<le> b0 \<and> b0 \<le> 239 then
            (let lo = (if b0 = 224 then 160 else 128); hi = (if b0 = 237 then 159 else 191)
             in case r1 of
               b1 # b2 # _ \<Rightarrow>
                 if cont_byte lo hi b1 \<and> cont_byte 128 191 b2
                 then ((b0 mod 16) * 4096 + (b1 mod 64) * 64 + b2 mod 64, 3) else (65533, 1)
             | _ \<Rightarrow> (65533, 1))
          else if 240 \<le> b0 \<and> b0 \<le> 244 then
            (let lo = (if b0 = 240 then 144 else 128); hi = (if b0 = 244 then 143 else 191)
             in case r1 of
               b1 # b2 # b3 # _ \<Rightarrow>
                 if cont_byte lo hi b1 \<and> cont_byte 128 191 b2 \<and> cont_byte 128 191 b3
                 then ((b0 mod 8) * 262144 + (b1 mod 64) * 4096 + (b2 mod 64) * 64 + b3 mod 64, 4)
                 else (65533, 1)
             | _ \<Rightarrow> (65533, 1))
          else (65533, 1))"

text \<open>The code points of a string, each with its bytes, in the order \<^verbatim>\<open>range\<close> visits them.\<close>

function rune_chunks :: "string \<Rightarrow> (nat \<times> string) list" where
  "rune_chunks s =
     (if s = [] then []
      else let (r, w) = decode_rune (map of_char s); n = max 1 w
           in (r, take n s) # rune_chunks (drop n s))"
  by pat_completeness auto
termination
  by (relation "measure length") (auto simp: max_def)

declare rune_chunks.simps [simp del]

definition runes :: "string \<Rightarrow> nat list" where
  "runes s = map fst (rune_chunks s)"

definition is_space_rune :: "nat \<Rightarrow> bool" where
  "is_space_rune r \<longleftrightarrow>
     r \<in> {9, 10, 11, 12, 13, 32, 133, 160, 5760, 8232, 8233, 8239, 8287, 12288}
     \<or> (8192 \<le> r \<and> r \<le> 8202)"

text \<open>Evaluated on integers, whose numerals are binary.\<close>

lemma is_space_rune_code [code]:
  "is_space_rune r \<longleftrightarrow>
     (let i = int r in i \<in> {9, 10, 11, 12, 13, 32, 133, 160, 5760, 8232, 8233, 8239, 8287, 12288}
       \<or> (8192 \<le> i \<and> i \<le> 8202))"
  by (simp add: is_space_rune_def Let_def int_eq_iff_numeral)

definition TrimSpace :: "string \<Rightarrow> string" where
  "TrimSpace s =
     concat (map snd (rev (dropWhile (\<lambda>(r, _). is_space_rune r)
       (rev (dropWhile (\<lambda>(r, _). is_space_rune r) (rune_chunks s))))))"

definition ascii :: "string \<Rightarrow> bool" where
  "ascii s \<longleftrightarrow> list_all (\<lambda>c. (of_char c :: nat) < 128) s"

lemma mod_in_block:
  fixes b :: nat
  assumes "q * m \<le> b" "b < q * m + m"
  shows "b mod m = b - q * m"
proof -
  have "b = (b - q * m) + q * m" "b - q * m < m" using assms by auto
  then show ?thesis by (metis mod_less mod_mult_self1)
qed

lemma decode_rune_ascii:
  assumes "decode_rune (b0 # rest) = (r, w)" "r < 128"
  shows "b0 = r \<and> w = 1"
proof -
  have "b0 < 128"
  proof (rule ccontr)
    assume ge: "\<not> b0 < 128"
    consider "194 \<le> b0 \<and> b0 \<le> 223" | "224 \<le> b0 \<and> b0 \<le> 239" | "240 \<le> b0 \<and> b0 \<le> 244"
      | "\<not> (194 \<le> b0 \<and> b0 \<le> 223)" "\<not> (224 \<le> b0 \<and> b0 \<le> 239)" "\<not> (240 \<le> b0 \<and> b0 \<le> 244)"
      by blast
    then show False
    proof cases
      case 1
      then have "b0 mod 32 = b0 - 192" using mod_in_block [of 6 32 b0] by simp
      then show False using 1 ge assms by (auto simp: decode_rune_def split: if_splits list.splits)
    next
      case 2
      then have m: "b0 mod 16 = b0 - 224" using mod_in_block [of 14 16 b0] by simp
      have n: "128 \<le> b1 \<Longrightarrow> b1 \<le> 191 \<Longrightarrow> b1 mod 64 = b1 - 128" for b1 :: nat
        using mod_in_block [of 2 64 b1] by simp
      obtain b1 b2 where c: "cont_byte (if b0 = 224 then 160 else 128) (if b0 = 237 then 159 else 191) b1"
        and r: "r = (b0 mod 16) * 4096 + (b1 mod 64) * 64 + b2 mod 64"
        using 2 assms by (auto simp: decode_rune_def Let_def split: if_split_asm list.split_asm)
      then show False using m n [of b1] assms(2) 2 by (auto simp: cont_byte_def split: if_splits)
    next
      case 3
      then have m: "b0 mod 8 = b0 - 240" using mod_in_block [of 30 8 b0] by simp
      have n: "128 \<le> b1 \<Longrightarrow> b1 \<le> 191 \<Longrightarrow> b1 mod 64 = b1 - 128" for b1 :: nat
        using mod_in_block [of 2 64 b1] by simp
      obtain b1 b2 b3 where c: "cont_byte (if b0 = 240 then 144 else 128) (if b0 = 244 then 143 else 191) b1"
        and r: "r = (b0 mod 8) * 262144 + (b1 mod 64) * 4096 + (b2 mod 64) * 64 + b3 mod 64"
        using 3 assms by (auto simp: decode_rune_def Let_def split: if_split_asm list.split_asm)
      then show False using m n [of b1] assms(2) 3 by (auto simp: cont_byte_def split: if_splits)
    next
      case 4
      then show False using ge assms by (auto simp: decode_rune_def)
    qed
  qed
  with assms show ?thesis by (simp add: decode_rune_def)
qed

lemma rune_chunks_Nil [simp]: "rune_chunks [] = []"
  by (subst rune_chunks.simps) simp

lemma rune_chunks_ascii [simp]:
  "ascii s \<Longrightarrow> rune_chunks s = map (\<lambda>c. (of_char c, [c])) s"
proof (induction s)
  case Nil
  then show ?case by simp
next
  case (Cons c s)
  then have "(of_char c :: nat) < 128" "ascii s" by (simp_all add: ascii_def)
  with Cons.IH show ?case
    by (subst rune_chunks.simps) (simp add: decode_rune_def)
qed

lemma concat_rune_chunks: "concat (map snd (rune_chunks s)) = s"
proof (induction s rule: rune_chunks.induct)
  case (1 s)
  show ?case
  proof (cases "s = []")
    case False
    obtain r w where rw: "decode_rune (map of_char s) = (r, w)" by fastforce
    have "concat (map snd (rune_chunks (drop (max 1 w) s))) = drop (max 1 w) s"
      using "1.IH" [OF False rw [symmetric]] by simp
    with False rw show ?thesis
      by (subst rune_chunks.simps) (simp add: Let_def)
  qed simp
qed

lemma runes_ascii [simp]: "ascii s \<Longrightarrow> runes s = map of_char s"
  by (simp add: runes_def comp_def)

lemma TrimSpace_Nil [simp]: "TrimSpace [] = []"
  by (simp add: TrimSpace_def)

lemma TrimSpace_id:
  assumes "ascii s" "list_all (\<lambda>c. \<not> is_space_rune (of_char c)) s"
  shows "TrimSpace s = s"
proof -
  let ?P = "\<lambda>(r, _). is_space_rune r"
  have none: "dropWhile ?P xs = xs" if "\<forall>x \<in> set xs. \<not> ?P x" for xs :: "(nat \<times> string) list"
    using that by (cases xs) auto
  have "\<forall>x \<in> set (rune_chunks s). \<not> ?P x"
    using assms by (auto simp: list_all_iff)
  then have "TrimSpace s = concat (map snd (rune_chunks s))"
    by (simp add: TrimSpace_def none)
  then show ?thesis by (simp add: concat_rune_chunks)
qed

section \<open>path\<close>

text \<open>
  \<^verbatim>\<open>path.Clean\<close> on the segments of a path: empty segments and \<open>.\<close> vanish, \<open>..\<close>
  removes the segment before it unless there is none, in which case a rooted path drops it
  and a relative one keeps it. \<open>clean_segs\<close> keeps the result reversed.
\<close>

fun clean_segs :: "bool \<Rightarrow> string list \<Rightarrow> string list \<Rightarrow> string list" where
  "clean_segs rooted acc [] = rev acc"
| "clean_segs rooted acc (x # xs) =
     (if x = [] \<or> x = ''.'' then clean_segs rooted acc xs
      else if x = ''..'' then
        (case acc of
           [] \<Rightarrow> clean_segs rooted (if rooted then [] else [''..'']) xs
         | y # ys \<Rightarrow> if y = ''..'' then clean_segs rooted (''..'' # acc) xs
                    else clean_segs rooted ys xs)
      else clean_segs rooted (x # acc) xs)"

definition path_Clean :: "string \<Rightarrow> string" where
  "path_Clean p =
     (let rooted = has_prefix ''/'' p;
          segs = clean_segs rooted [] (split_on (CHR ''/'') p)
      in if rooted then ''/'' @ join_with ''/'' segs
         else if segs = [] then ''.'' else join_with ''/'' segs)"

text \<open>\<^verbatim>\<open>path.Dir\<close>: everything up to the last slash, cleaned.\<close>

definition path_Dir :: "string \<Rightarrow> string" where
  "path_Dir p = path_Clean (case cut_last (CHR ''/'') p of Some (d, _) \<Rightarrow> d @ ''/'' | None \<Rightarrow> [])"

definition plain_seg :: "string \<Rightarrow> bool" where
  "plain_seg x \<longleftrightarrow> x \<noteq> [] \<and> x \<noteq> ''.'' \<and> x \<noteq> ''..'' \<and> CHR ''/'' \<notin> set x"

lemma clean_segs_plain:
  "list_all plain_seg xs \<Longrightarrow> clean_segs rooted acc xs = rev acc @ xs"
  by (induction xs arbitrary: acc) (auto simp: plain_seg_def)

lemma clean_segs_append_Nil: "clean_segs rooted acc (xs @ [[]]) = clean_segs rooted acc xs"
  by (induction rooted acc xs rule: clean_segs.induct) (auto split: list.splits)

lemma join_plain_not_rooted:
  assumes "xs \<noteq> []" "list_all plain_seg xs"
  shows "\<not> has_prefix ''/'' (join_with ''/'' xs)"
proof -
  obtain x r where xs: "xs = x # r" using assms(1) by (cases xs) auto
  with assms(2) obtain c t where x: "x = c # t" and c: "c \<noteq> CHR ''/''"
    by (cases x) (auto simp: plain_seg_def)
  show ?thesis using xs x c by (cases r) (auto simp: has_prefix_def)
qed

lemma path_Clean_join:
  assumes "xs \<noteq> []" "list_all plain_seg xs"
  shows "path_Clean (join_with ''/'' xs) = join_with ''/'' xs"
proof -
  have "split_on (CHR ''/'') (join_with ''/'' xs) = xs"
    using assms by (intro split_join) (auto simp: list_all_iff plain_seg_def)
  with assms show ?thesis
    by (simp add: path_Clean_def Let_def join_plain_not_rooted clean_segs_plain)
qed

lemma join_plain_not_Nil:
  assumes "xs \<noteq> []" "list_all plain_seg xs"
  shows "join_with ''/'' xs \<noteq> []"
  using assms by (cases "(''/'', xs)" rule: join_with.cases) (auto simp: plain_seg_def)

lemma path_Clean_join_slash:
  assumes "xs \<noteq> []" "list_all plain_seg xs"
  shows "path_Clean (join_with ''/'' xs @ ''/'') = join_with ''/'' xs"
proof -
  have *: "join_with ''/'' xs @ ''/'' = join_with ''/'' (xs @ [[]])"
    using assms(1) by (simp add: join_append)
  have "split_on (CHR ''/'') (join_with ''/'' (xs @ [[]])) = xs @ [[]]"
    using assms by (intro split_join) (auto simp: list_all_iff plain_seg_def)
  moreover have "\<not> has_prefix ''/'' (join_with ''/'' (xs @ [[]]))"
    using join_plain_not_rooted [OF assms] join_plain_not_Nil [OF assms]
    by (cases "join_with ''/'' xs") (auto simp: * [symmetric] has_prefix_def)
  ultimately show ?thesis
    using assms by (simp add: * path_Clean_def Let_def clean_segs_append_Nil clean_segs_plain)
qed

lemma path_Dir_join:
  assumes "xs \<noteq> []" "list_all plain_seg xs" "plain_seg x"
  shows "path_Dir (join_with ''/'' (xs @ [x])) = join_with ''/'' xs"
proof -
  have "cut_last (CHR ''/'') (join_with ''/'' (xs @ [x])) = Some (join_with ''/'' xs, x)"
    using assms by (simp add: join_append plain_seg_def)
  with assms show ?thesis by (simp add: path_Dir_def path_Clean_join_slash)
qed

end
