(* ===== verification/GoNum.thy ===== *)
theory GoNum
  imports GoStrings "HOL-Library.Log_Nat"
begin

text \<open>
  Two pieces of Go's standard library the configuration rests on: the rounding of \<^verbatim>\<open>float64\<close>
  arithmetic and \<^verbatim>\<open>time.ParseDuration\<close>. A \<^verbatim>\<open>float64\<close> is the rational number it stands for; the values
  met here are finite and far from the limits of the exponent.
\<close>

section \<open>Rounding to 53 bits\<close>

definition round_half_even :: "rat \<Rightarrow> int" where
  "round_half_even q =
     (let f = \<lfloor>q\<rfloor>; r = q - of_int f
      in if r < 1 / 2 then f else if 1 / 2 < r then f + 1 else if even f then f else f + 1)"

definition pow2 :: "int \<Rightarrow> rat" where
  "pow2 e = (if 0 \<le> e then 2 ^ nat e else 1 / 2 ^ nat (- e))"

text \<open>The exponent \<open>k\<close> with \<open>2\<^sup>k \<le> q < 2\<^sup>k\<^sup>+\<^sup>1\<close>.\<close>

definition exponent_of :: "rat \<Rightarrow> int" where
  "exponent_of q =
     (case quotient_of q of (n, d) \<Rightarrow>
        let k = bitlen n - bitlen d in if pow2 k \<le> q then k else k - 1)"

definition float64 :: "rat \<Rightarrow> rat" where
  "float64 q =
     (if q = 0 then 0
      else let u = pow2 (52 - exponent_of \<bar>q\<bar>)
           in sgn q * of_int (round_half_even (\<bar>q\<bar> * u)) / u)"

definition trunc64 :: "rat \<Rightarrow> int" where
  "trunc64 q = (if 0 \<le> q then \<lfloor>q\<rfloor> else \<lceil>q\<rceil>)"

lemma pow2_pos [simp]: "0 < pow2 e"
  by (simp add: pow2_def)

lemma round_half_even_nonneg: "0 \<le> q \<Longrightarrow> 0 \<le> round_half_even q"
  by (auto simp: round_half_even_def Let_def)

lemma round_half_even_int [simp]: "round_half_even (of_int n) = n"
  by (simp add: round_half_even_def)

lemma float64_nonneg: "0 \<le> q \<Longrightarrow> 0 \<le> float64 q"
proof -
  assume "0 \<le> q"
  then have "0 \<le> round_half_even (\<bar>q\<bar> * u)" if "0 < u" for u
    using that by (intro round_half_even_nonneg) simp
  then show ?thesis
    using \<open>0 \<le> q\<close> pow2_pos [of "52 - exponent_of \<bar>q\<bar>"]
    by (auto simp: float64_def Let_def sgn_if less_imp_le intro!: divide_nonneg_pos)
qed

section \<open>Durations\<close>

text \<open>A duration is a number of nanoseconds that fits in 64 bits, signed.\<close>

fun leadingInt :: "int \<Rightarrow> string \<Rightarrow> (int \<times> string) option" where
  "leadingInt x [] = Some (x, [])"
| "leadingInt x (c # cs) =
     (if \<not> is_digit c then Some (x, c # cs)
      else if 922337203685477580 < x then None
      else let x' = x * 10 + int (digit_val c)
           in if 9223372036854775808 < x' then None else leadingInt x' cs)"

fun leadingFraction :: "bool \<Rightarrow> int \<Rightarrow> int \<Rightarrow> string \<Rightarrow> int \<times> int \<times> string" where
  "leadingFraction overflow x scale [] = (x, scale, [])"
| "leadingFraction overflow x scale (c # cs) =
     (if \<not> is_digit c then (x, scale, c # cs)
      else if overflow \<or> 922337203685477580 < x then leadingFraction True x scale cs
      else let y = x * 10 + int (digit_val c)
           in if 9223372036854775808 < y then leadingFraction True x scale cs
              else leadingFraction False y (scale * 10) cs)"

definition duration_unit :: "string \<Rightarrow> int option" where
  "duration_unit u =
     map_of [(''ns'', 1), (''us'', 1000), ([CHR 0xC2, CHR 0xB5, CHR ''s''], 1000), ([CHR 0xCE, CHR 0xBC, CHR ''s''], 1000),
       (''ms'', 1000000), (''s'', 1000000000), (''m'', 60000000000), (''h'', 3600000000000)] u"

definition unit_char :: "char \<Rightarrow> bool" where
  "unit_char c \<longleftrightarrow> c \<noteq> CHR ''.'' \<and> \<not> is_digit c"

text \<open>One number with its unit: the nanoseconds and the rest of the text.\<close>

definition duration_term :: "string \<Rightarrow> (int \<times> string) option" where
  "duration_term s =
     (case leadingInt 0 s of
        None \<Rightarrow> None
      | Some (v, s1) \<Rightarrow>
          let (f, scale, s2) = (case s1 of CHR ''.'' # r \<Rightarrow> leadingFraction False 0 1 r | _ \<Rightarrow> (0, 1, s1));
              post = (case s1 of CHR ''.'' # r \<Rightarrow> length s2 < length r | _ \<Rightarrow> False);
              u = takeWhile unit_char s2; s3 = dropWhile unit_char s2
          in if length s1 = length s \<and> \<not> post \<or> u = [] then None
             else case duration_unit u of
                    None \<Rightarrow> None
                  | Some unit \<Rightarrow>
                      if 9223372036854775808 div unit < v then None
                      else let v' = v * unit
                             + (if 0 < f then trunc64 (float64 (float64 (of_int f) * float64 (of_int unit / of_int scale))) else 0)
                           in if 9223372036854775808 < v' then None else Some (v', s3))"

lemma leadingInt_bounds:
  "leadingInt x s = Some (v, r) \<Longrightarrow> 0 \<le> x \<Longrightarrow> x \<le> 9223372036854775808 \<Longrightarrow>
     0 \<le> v \<and> v \<le> 9223372036854775808 \<and> length r \<le> length s"
  by (induction x s rule: leadingInt.induct) (auto simp: Let_def split: if_splits)

lemma leadingFraction_bounds:
  "leadingFraction ov x sc s = (f, sc', r) \<Longrightarrow> 0 \<le> x \<Longrightarrow> 0 < sc \<Longrightarrow> 0 \<le> f \<and> 0 < sc' \<and> length r \<le> length s"
  by (induction ov x sc s rule: leadingFraction.induct) (auto simp: Let_def split: if_splits)

lemma duration_term_shorter:
  assumes "duration_term s = Some (v, r)"
  shows "length r < length s" "0 \<le> v" "v \<le> 9223372036854775808"
proof -
  obtain n s1 where 1: "leadingInt 0 s = Some (n, s1)"
    using assms by (auto simp: duration_term_def split: option.splits)
  obtain f scale s2 where 2: "(case s1 of CHR ''.'' # r \<Rightarrow> leadingFraction False 0 1 r | _ \<Rightarrow> (0, 1, s1)) = (f, scale, s2)"
    by (rule prod_cases3)
  have n: "0 \<le> n" "length s1 \<le> length s" using leadingInt_bounds [OF 1] by auto
  have f: "0 \<le> f" "0 < scale" "length s2 \<le> length s1"
    using 2 by (auto split: list.splits char.splits bool.splits if_splits dest: leadingFraction_bounds)
  obtain unit where u: "takeWhile unit_char s2 \<noteq> []" "duration_unit (takeWhile unit_char s2) = Some unit"
    and v: "v = n * unit + (if 0 < f then trunc64 (float64 (float64 (of_int f) * float64 (of_int unit / of_int scale))) else 0)"
    and r: "r = dropWhile unit_char s2" "v \<le> 9223372036854775808"
    using assms 1 2 by (auto simp: duration_term_def Let_def split: if_splits option.splits)
  have "length r < length s2"
    using u(1) r(1) by (metis length_greater_0_conv takeWhile_dropWhile_id length_append less_add_same_cancel2)
  then show "length r < length s" using n f by simp
  have "0 < unit" using u(2) by (auto simp: duration_unit_def split: if_splits)
  then show "0 \<le> v" "v \<le> 9223372036854775808"
    using n(1) f r(2) by (auto simp: v trunc64_def intro!: add_nonneg_nonneg mult_nonneg_nonneg float64_nonneg)
qed

function duration_terms :: "int \<Rightarrow> string \<Rightarrow> int option" where
  "duration_terms d s =
     (if s = [] then Some d
      else if \<not> (hd s = CHR ''.'' \<or> is_digit (hd s)) then None
      else case duration_term s of
             None \<Rightarrow> None
           | Some (v, r) \<Rightarrow>
               let d' = (d + v) mod 18446744073709551616
               in if 9223372036854775808 < d' then None else duration_terms d' r)"
  by pat_completeness auto
termination
  by (relation "measure (length \<circ> snd)") (auto dest: duration_term_shorter(1))

definition ParseDuration :: "string \<Rightarrow> int option" where
  "ParseDuration s =
     (let neg = (s \<noteq> [] \<and> hd s = CHR ''-'');
          body = (if s \<noteq> [] \<and> (hd s = CHR ''-'' \<or> hd s = CHR ''+'') then tl s else s)
      in if body = ''0'' then Some 0
         else if body = [] then None
         else case duration_terms 0 body of
                None \<Rightarrow> None
              | Some d \<Rightarrow> if neg then Some (- d) else if 9223372036854775807 < d then None else Some d)"

declare duration_terms.simps [simp del]

lemma duration_terms_bounds:
  "duration_terms d s = Some v \<Longrightarrow> 0 \<le> d \<Longrightarrow> d \<le> 9223372036854775808 \<Longrightarrow> 0 \<le> v \<and> v \<le> 9223372036854775808"
proof (induction d s rule: duration_terms.induct)
  case (1 d s)
  show ?case
    using 1(2-) 1(1)
    by (subst (asm) duration_terms.simps) (auto simp: Let_def split: if_splits option.splits prod.splits)
qed

lemma ParseDuration_int64: "ParseDuration s = Some d \<Longrightarrow> in_int64 d"
  using duration_terms_bounds [of 0]
  by (fastforce simp: ParseDuration_def Let_def in_int64_def min_int64_def max_int64_def split: if_splits option.splits)

end
