(* ===== verification/GoErrors.thy ===== *)
theory GoErrors
  imports GoStrings
begin

text \<open>
  Error values of the driver. Go code branches on an error in three ways: \<^verbatim>\<open>errors.Is\<close>
  against a sentinel, \<^verbatim>\<open>errors.As\<close> for a \<^verbatim>\<open>truenas.CallError\<close>, and the gRPC code the
  error carries or wraps. An error value keeps exactly what those three read; the text of a
  message is kept only where it comes from the appliance, because that text is inspected.
  The classifiers are those of \<^verbatim>\<open>internal/truenas/errors.go\<close>.
\<close>

datatype sentinel =
    ErrMalformedID | ErrOutsideParent | ErrInvalidNamespace | ErrNotManaged | ErrGrantsTooLarge
  | ErrOutsideGraveyard | ErrNotReapable | ErrStillInGrace
  | ErrNamespaceDatasetConflict | ErrUnknownBackend | ErrUnsupportedProtocol
  | ErrNodeNotFound | ErrNotFenceable | ErrVolumeGone | ErrShrinkNotAllowed
  | ErrAuthFailed | ErrConnClosed | ErrTooManyConcurrent
  | ErrInsecureTransport | ErrUnknownFlavour | ErrRestartRequired | ErrVolumeNotFound | ErrRDMAUnavailable
  | ErrFailoverIncomplete | ErrDiverged | ErrWrongPhase | ErrTestFailoverActive | ErrNoReplicatedSnapshot
  | ErrForbiddenCall | ErrIncompatible | ErrUnsupportedPath | ErrCircuitOpen | ErrInvalidRequest
  | ErrNotEligible | ErrVerification | ErrMutatingCall

datatype code =
    InvalidArgument | NotFound | AlreadyExists | ResourceExhausted | FailedPrecondition
  | Aborted | OutOfRange | Unimplemented | Internal | Unavailable | Unknown

record call_error =
  ce_Method :: string
  ce_Code :: int
  ce_ErrName :: string
  ce_Reason :: string

datatype go_error =
    Sentinel sentinel
  | CallErr call_error
  | Status code
  | WithStatus code go_error
  | Wrapped "go_error list"
  | Plain string

text \<open>
  The errors reached by unwrapping, in the depth-first order of \<^verbatim>\<open>errors.Is\<close> and
  \<^verbatim>\<open>errors.As\<close>.
\<close>

fun err_chain :: "go_error \<Rightarrow> go_error list" where
  "err_chain (WithStatus c e) = WithStatus c e # err_chain e"
| "err_chain (Wrapped es) = Wrapped es # concat (map err_chain es)"
| "err_chain e = [e]"

definition errors_Is :: "go_error \<Rightarrow> sentinel \<Rightarrow> bool" where
  "errors_Is e s \<longleftrightarrow> Sentinel s \<in> set (err_chain e)"

fun as_call_error :: "go_error list \<Rightarrow> call_error option" where
  "as_call_error [] = None"
| "as_call_error (CallErr ce # es) = Some ce"
| "as_call_error (_ # es) = as_call_error es"

definition errors_As :: "go_error \<Rightarrow> call_error option" where
  "errors_As e = as_call_error (err_chain e)"

fun first_code :: "go_error list \<Rightarrow> code option" where
  "first_code [] = None"
| "first_code (Status c # es) = Some c"
| "first_code (WithStatus c e # es) = Some c"
| "first_code (_ # es) = first_code es"

definition status_Code :: "go_error \<Rightarrow> code" where
  "status_Code e = (case first_code (err_chain e) of Some c \<Rightarrow> c | None \<Rightarrow> Unknown)"

definition CallError_Error :: "call_error \<Rightarrow> string" where
  "CallError_Error e =
     ce_Method e @ '': jsonrpc '' @ FormatInt (ce_Code e) @ '' '' @ ce_ErrName e @ '': '' @ ce_Reason e"

text \<open>The text of an error, as far as it originates at the appliance.\<close>

fun err_text :: "go_error \<Rightarrow> string" where
  "err_text (CallErr ce) = CallError_Error ce"
| "err_text (Plain m) = m"
| "err_text (Wrapped es) = join_with '': '' (map err_text es)"
| "err_text _ = []"

definition IsNotFound :: "go_error \<Rightarrow> bool" where
  "IsNotFound e =
     (case errors_As e of
        None \<Rightarrow> False
      | Some ce \<Rightarrow> 8 \<le> length (ce_Reason ce) \<and> take 8 (ce_Reason ce) = ''[ENOENT]'')"

definition IsParentMissing :: "go_error \<Rightarrow> bool" where
  "IsParentMissing e =
     (case errors_As e of
        None \<Rightarrow> False
      | Some ce \<Rightarrow> contains_str ''Parent dataset'' (ce_Reason ce)
                 \<and> contains_str ''does not exist'' (ce_Reason ce))"

definition IsHasDependentClones :: "go_error \<Rightarrow> bool" where
  "IsHasDependentClones e =
     (case errors_As e of None \<Rightarrow> False | Some ce \<Rightarrow> contains_str ''dependent clones'' (ce_Reason ce))"

definition IsBusy :: "go_error \<Rightarrow> bool" where
  "IsBusy e =
     ((case errors_As e of
         None \<Rightarrow> False
       | Some ce \<Rightarrow> ce_ErrName ce = ''EBUSY'' \<or> contains_str ''dataset is busy'' (ce_Reason ce))
      \<or> contains_str ''EBUSY'' (err_text e)
      \<or> contains_str ''dataset is busy'' (err_text e))"

lemma err_chain_self [simp]: "e \<in> set (err_chain e)"
  by (cases e) auto

lemma errors_Is_Wrapped [simp]:
  "errors_Is (Wrapped es) s \<longleftrightarrow> (\<exists>e \<in> set es. errors_Is e s)"
  by (auto simp: errors_Is_def)

lemma errors_Is_base [simp]:
  "errors_Is (Sentinel t) s \<longleftrightarrow> t = s"
  "\<not> errors_Is (Plain m) s"
  "\<not> errors_Is (Status c) s"
  "\<not> errors_Is (CallErr ce) s"
  "errors_Is (WithStatus c e) s \<longleftrightarrow> errors_Is e s"
  by (auto simp: errors_Is_def)

lemma withStatus_keeps_cause:
  "errors_As (WithStatus c e) = errors_As e"
  "status_Code (WithStatus c e) = c"
  by (simp_all add: errors_As_def status_Code_def)

end
