(* ===== verification/VolumeID.thy ===== *)
theory VolumeID
  imports GoErrors
begin

text \<open>
  \<^verbatim>\<open>internal/volume\<close>: the volume handle (\<^verbatim>\<open>id.go\<close>), its confinement to the configured
  parent dataset (\<^verbatim>\<open>confine.go\<close>), Kubernetes namespaces as path components and the quota
  recorded on a namespace dataset (\<^verbatim>\<open>namespace.go\<close>), and the recorded identity of the
  claim (\<^verbatim>\<open>identity.go\<close>).
\<close>

section \<open>Handles\<close>

record vol_id =
  id_Backend :: string
  id_Protocol :: string
  id_Pool :: string
  id_Parent :: string
  id_Namespace :: string
  id_Name :: string

definition components :: "vol_id \<Rightarrow> string list" where
  "components i =
     (if id_Namespace i = [] then [id_Backend i, id_Protocol i, id_Pool i, id_Parent i, id_Name i]
      else [id_Backend i, id_Protocol i, id_Pool i, id_Parent i, id_Namespace i, id_Name i])"

definition ID_String :: "vol_id \<Rightarrow> string" where
  "ID_String i = join_with ''/'' (components i)"

definition DatasetPath :: "vol_id \<Rightarrow> string" where
  "DatasetPath i =
     (if id_Namespace i = [] then join_with ''/'' [id_Pool i, id_Parent i, id_Name i]
      else join_with ''/'' [id_Pool i, id_Parent i, id_Namespace i, id_Name i])"

definition NamespaceDatasetPath :: "vol_id \<Rightarrow> string" where
  "NamespaceDatasetPath i =
     (if id_Namespace i = [] then [] else join_with ''/'' [id_Pool i, id_Parent i, id_Namespace i])"

definition validComponent :: "string \<Rightarrow> go_error + unit" where
  "validComponent p =
     (if p = [] then Inl (Plain ''empty component'')
      else if p = ''.'' \<or> p = ''..'' then Inl (Plain ''relative component'')
      else if contains_any [CHR ''/'', CHR 0x5C] p
           then Inl (Plain ''component contains a path separator'')
      else Inr ())"

fun validate_all :: "string list \<Rightarrow> go_error + unit" where
  "validate_all [] = Inr ()"
| "validate_all (p # ps) = (case validComponent p of Inl e \<Rightarrow> Inl e | Inr _ \<Rightarrow> validate_all ps)"

definition ParseID :: "string \<Rightarrow> go_error + vol_id" where
  "ParseID s =
     (let parts = split_on (CHR ''/'') s
      in if length parts \<noteq> 5 \<and> length parts \<noteq> 6 then Inl (Wrapped [Sentinel ErrMalformedID])
         else case validate_all parts of
                Inl e \<Rightarrow> Inl (Wrapped [Sentinel ErrMalformedID, e])
              | Inr _ \<Rightarrow>
                  Inr \<lparr>id_Backend = parts ! 0, id_Protocol = parts ! 1, id_Pool = parts ! 2,
                       id_Parent = parts ! 3,
                       id_Namespace = (if length parts = 6 then parts ! 4 else []),
                       id_Name = parts ! (length parts - 1)\<rparr>)"

definition IDFromLeaf :: "string \<Rightarrow> string \<Rightarrow> string \<Rightarrow> string \<Rightarrow> string \<Rightarrow> go_error + vol_id" where
  "IDFromLeaf backend protocol pool parent leaf =
     (let parts = split_on (CHR ''/'') leaf;
          i = \<lparr>id_Backend = backend, id_Protocol = protocol, id_Pool = pool, id_Parent = parent,
               id_Namespace = [], id_Name = []\<rparr>
      in case validate_all parts of
           Inl e \<Rightarrow> Inl (Wrapped [Sentinel ErrMalformedID, e])
         | Inr _ \<Rightarrow>
             (case parts of
                [n] \<Rightarrow> Inr (i\<lparr>id_Name := n\<rparr>)
              | [ns, n] \<Rightarrow> Inr (i\<lparr>id_Namespace := ns, id_Name := n\<rparr>)
              | _ \<Rightarrow> Inl (Wrapped [Sentinel ErrMalformedID])))"

section \<open>Confinement\<close>

definition Confine :: "vol_id \<Rightarrow> string \<Rightarrow> string \<Rightarrow> go_error + unit" where
  "Confine i allowedPool allowedParent =
     (case validComponent allowedPool of
        Inl e \<Rightarrow> Inl (Wrapped [e])
      | Inr _ \<Rightarrow>
     (case validComponent allowedParent of
        Inl e \<Rightarrow> Inl (Wrapped [e])
      | Inr _ \<Rightarrow>
     (case validate_all ([id_Pool i, id_Parent i, id_Name i]
             @ (if id_Namespace i \<noteq> [] then [id_Namespace i] else [])) of
        Inl e \<Rightarrow> Inl (Wrapped [Sentinel ErrOutsideParent, e])
      | Inr _ \<Rightarrow>
          if id_Pool i \<noteq> allowedPool then Inl (Wrapped [Sentinel ErrOutsideParent])
          else if id_Parent i \<noteq> allowedParent then Inl (Wrapped [Sentinel ErrOutsideParent])
          else (let pre = path_Clean (allowedPool @ ''/'' @ allowedParent) @ ''/'';
                    resolved = path_Clean (DatasetPath i)
                in if \<not> has_prefix pre resolved then Inl (Wrapped [Sentinel ErrOutsideParent])
                   else Inr ()))))"

section \<open>Namespaces\<close>

definition OwnerProperty :: string where "OwnerProperty = ''io.truenas.csi:managed''"
definition OwnerValue :: string where "OwnerValue = ''truenas-csi''"
definition NamespaceProperty :: string where "NamespaceProperty = ''io.truenas.csi:namespace''"
definition NamespaceQuotaProperty :: string where
  "NamespaceQuotaProperty = ''io.truenas.csi:nsquota''"

definition lower_or_digit :: "nat \<Rightarrow> bool" where
  "lower_or_digit r \<longleftrightarrow> (97 \<le> r \<and> r \<le> 122) \<or> (48 \<le> r \<and> r \<le> 57)"

text \<open>The loop of \<^verbatim>\<open>ValidateNamespace\<close>: \<open>i\<close> is the byte offset \<^verbatim>\<open>range\<close> reports.\<close>

fun label_runes :: "nat \<Rightarrow> nat \<Rightarrow> (nat \<times> string) list \<Rightarrow> bool" where
  "label_runes len i [] = True"
| "label_runes len i ((r, bs) # rs) =
     ((lower_or_digit r \<or> (r = 45 \<and> 0 < i \<and> i < len - 1)) \<and> label_runes len (i + length bs) rs)"

definition ValidateNamespace :: "string \<Rightarrow> go_error + unit" where
  "ValidateNamespace ns =
     (if ns = [] then Inl (Wrapped [Sentinel ErrInvalidNamespace])
      else if length ns > 63 then Inl (Wrapped [Sentinel ErrInvalidNamespace])
      else if \<not> label_runes (length ns) 0 (rune_chunks ns)
           then Inl (Wrapped [Sentinel ErrInvalidNamespace])
      else Inr ())"

definition NamespaceProperties :: "string \<Rightarrow> (string \<times> string) list" where
  "NamespaceProperties ns = [(OwnerProperty, OwnerValue), (NamespaceProperty, ns)]"

definition IsNamespaceDataset :: "string \<Rightarrow> bool" where
  "IsNamespaceDataset localNamespaceProperty \<longleftrightarrow> localNamespaceProperty \<noteq> []"

definition AppliedQuota :: "string \<Rightarrow> int \<times> bool" where
  "AppliedQuota recorded =
     (let s = TrimSpace recorded
      in if s = [] then (0, False)
         else case ParseInt64 s of
                None \<Rightarrow> (0, False)
              | Some n \<Rightarrow> if n < 0 then (0, False) else (n, True))"

definition FormatQuota :: "int \<Rightarrow> string" where
  "FormatQuota bytes = FormatInt bytes"

section \<open>The identity of the claim\<close>

definition ParamPVCName :: string where "ParamPVCName = ''csi.storage.k8s.io/pvc/name''"
definition ParamPVCNamespace :: string where
  "ParamPVCNamespace = ''csi.storage.k8s.io/pvc/namespace''"
definition ParamPVName :: string where "ParamPVName = ''csi.storage.k8s.io/pv/name''"
definition PVCNameProperty :: string where "PVCNameProperty = ''io.truenas.csi:pvcname''"
definition PVCNamespaceProperty :: string where
  "PVCNamespaceProperty = ''io.truenas.csi:pvcnamespace''"
definition PVNameProperty :: string where "PVNameProperty = ''io.truenas.csi:pvname''"

record identity =
  PVCName :: string
  PVCNamespace :: string
  PVName :: string

definition truncate_str :: "string \<Rightarrow> nat \<Rightarrow> string" where
  "truncate_str s n = (if length s \<le> n then s else take n s)"

definition ascii_letter :: "nat \<Rightarrow> bool" where
  "ascii_letter r \<longleftrightarrow> (97 \<le> r \<and> r \<le> 122) \<or> (65 \<le> r \<and> r \<le> 90)"

definition ascii_digit :: "nat \<Rightarrow> bool" where
  "ascii_digit r \<longleftrightarrow> 48 \<le> r \<and> r \<le> 57"

text \<open>
  One step of the loop in \<^verbatim>\<open>sanitiseIdentityValue\<close>. The second case of the switch is
  taken for every rune above \<^verbatim>\<open>unicode.MaxASCII\<close>, so letters and digits are the ASCII ones.
\<close>

definition sanitise_rune :: "nat \<Rightarrow> char" where
  "sanitise_rune r =
     (if r = 45 \<or> r = 46 \<or> r = 95 then char_of r
      else if r > 127 \<or> (\<not> ascii_letter r \<and> \<not> ascii_digit r) then CHR ''_''
      else char_of r)"

definition sanitiseIdentityValue :: "string \<Rightarrow> string" where
  "sanitiseIdentityValue v =
     (let t = TrimSpace v
      in if t = [] then [] else truncate_str (map sanitise_rune (runes t)) 255)"

definition param :: "(string \<rightharpoonup> string) \<Rightarrow> string \<Rightarrow> string" where
  "param m k = (case m k of Some v \<Rightarrow> v | None \<Rightarrow> [])"

definition IdentityFrom :: "(string \<rightharpoonup> string) \<Rightarrow> identity" where
  "IdentityFrom params =
     \<lparr>PVCName = sanitiseIdentityValue (param params ParamPVCName),
      PVCNamespace = sanitiseIdentityValue (param params ParamPVCNamespace),
      PVName = sanitiseIdentityValue (param params ParamPVName)\<rparr>"

definition Identity_Empty :: "identity \<Rightarrow> bool" where
  "Identity_Empty i \<longleftrightarrow> PVCName i = [] \<and> PVCNamespace i = [] \<and> PVName i = []"

definition Identity_Properties :: "identity \<Rightarrow> (string \<times> string) list" where
  "Identity_Properties i =
     filter (\<lambda>(k, v). v \<noteq> [])
       [(PVCNameProperty, PVCName i), (PVCNamespaceProperty, PVCNamespace i), (PVNameProperty, PVName i)]"

definition PropertyKeys :: "identity \<Rightarrow> string list" where
  "PropertyKeys i = sort_strings (map fst (Identity_Properties i))"

definition Description :: "identity \<Rightarrow> string" where
  "Description i =
     (if Identity_Empty i then []
      else let ns = (if PVCNamespace i = [] then ''<unknown>'' else PVCNamespace i);
               name = (if PVCName i = [] then ''<unknown>'' else PVCName i);
               out = ''Kubernetes PVC '' @ ns @ ''/'' @ name;
               out = (if PVName i \<noteq> [] then out @ '' ('' @ PVName i @ '')'' else out)
           in truncate_str out 512)"

section \<open>Valid components\<close>

definition valid_comp :: "string \<Rightarrow> bool" where
  "valid_comp p \<longleftrightarrow> p \<noteq> [] \<and> p \<noteq> ''.'' \<and> p \<noteq> ''..'' \<and> CHR ''/'' \<notin> set p \<and> CHR 0x5C \<notin> set p"

definition valid_id :: "vol_id \<Rightarrow> bool" where
  "valid_id i \<longleftrightarrow> list_all valid_comp [id_Backend i, id_Protocol i, id_Pool i, id_Parent i, id_Name i]
     \<and> (id_Namespace i = [] \<or> valid_comp (id_Namespace i))"

lemma validComponent_ok [simp]: "validComponent p = Inr u \<longleftrightarrow> valid_comp p"
  by (auto simp: validComponent_def valid_comp_def contains_any_iff)

lemma validComponent_valid [simp]: "valid_comp p \<Longrightarrow> validComponent p = Inr ()"
  by simp

lemma validComponent_invalid: "\<not> valid_comp p \<Longrightarrow> \<exists>e. validComponent p = Inl e"
  by (metis validComponent_ok sumE)

lemma validate_all_ok [simp]: "validate_all ps = Inr u \<longleftrightarrow> list_all valid_comp ps"
proof (induction ps)
  case (Cons p ps)
  then show ?case
    using validComponent_invalid [of p] by (cases "valid_comp p") auto
qed simp

lemma validate_all_valid [simp]: "list_all valid_comp ps \<Longrightarrow> validate_all ps = Inr ()"
  by simp

lemma valid_comp_no_slash: "valid_comp p \<Longrightarrow> CHR ''/'' \<notin> set p"
  by (simp add: valid_comp_def)

lemma valid_comp_plain: "valid_comp p \<Longrightarrow> plain_seg p"
  by (simp add: valid_comp_def plain_seg_def)

lemma valid_comps_plain: "list_all valid_comp ps \<Longrightarrow> list_all plain_seg ps"
  by (auto simp: list_all_iff valid_comp_plain)

lemma split_join_valid:
  "ps \<noteq> [] \<Longrightarrow> list_all valid_comp ps \<Longrightarrow> split_on (CHR ''/'') (join_with ''/'' ps) = ps"
  by (rule split_join) (auto simp: list_all_iff valid_comp_def)

lemma valid_id_components: "valid_id i \<longleftrightarrow> list_all valid_comp (components i)"
  by (auto simp: valid_id_def components_def valid_comp_def)

lemma components_length: "length (components i) = 5 \<or> length (components i) = 6"
  by (simp add: components_def)

section \<open>Handles and datasets\<close>

lemma six_or_five_cases:
  assumes "length (ps :: 'a list) = 5 \<or> length ps = 6"
  obtains a b c d n where "ps = [a, b, c, d, n]" | a b c d m n where "ps = [a, b, c, d, m, n]"
  using assms by (auto simp: length_Suc_conv eval_nat_numeral)

lemma ParseID_SomeD:
  assumes "ParseID s = Inr i"
  shows "valid_id i \<and> s = ID_String i"
proof -
  let ?ps = "split_on (CHR ''/'') s"
  have s: "s = join_with ''/'' ?ps" by simp
  have len: "length ?ps = 5 \<or> length ?ps = 6"
    using assms by (auto simp: ParseID_def Let_def split: if_splits)
  have val: "list_all valid_comp ?ps"
    using assms len by (auto simp: ParseID_def Let_def split: sum.splits)
  from len show ?thesis
  proof (cases rule: six_or_five_cases)
    case (1 a b c d n)
    with assms val have "components i = ?ps" "valid_id i"
      by (auto simp: ParseID_def components_def valid_id_def split: sum.splits)
    with s show ?thesis by (simp add: ID_String_def)
  next
    case (2 a b c d m n)
    with val have "m \<noteq> []" by (simp add: valid_comp_def)
    with 2 assms val have "components i = ?ps" "valid_id i"
      by (auto simp: ParseID_def components_def valid_id_def split: sum.splits)
    with s show ?thesis by (simp add: ID_String_def)
  qed
qed

lemma ParseID_String:
  assumes "valid_id i"
  shows "ParseID (ID_String i) = Inr i"
proof -
  have v: "list_all valid_comp (components i)"
    using assms by (simp add: valid_id_components)
  have "components i \<noteq> []" by (simp add: components_def)
  then have sp: "split_on (CHR ''/'') (ID_String i) = components i"
    using v by (simp add: ID_String_def split_join_valid)
  show ?thesis
    unfolding ParseID_def Let_def sp using v by (auto simp: components_def)
qed

text \<open>
  C1. The handle codec is exact: \<^verbatim>\<open>ParseID\<close> accepts a string precisely when it is the rendering
  of an ID all of whose components are non-empty, not relative and free of both separators
  (the namespace may be absent), and it then returns that ID. So every handle the driver
  prints is read back unchanged, and no other spelling of it is accepted.
\<close>

theorem ParseID_iff: "ParseID s = Inr i \<longleftrightarrow> valid_id i \<and> s = ID_String i"
  using ParseID_SomeD ParseID_String by blast

lemma DatasetPath_segments:
  assumes "valid_id i"
  shows "split_on (CHR ''/'') (DatasetPath i) =
    [id_Pool i, id_Parent i] @ (if id_Namespace i = [] then [] else [id_Namespace i]) @ [id_Name i]"
proof (cases "id_Namespace i = []")
  case True
  then have "DatasetPath i = join_with ''/'' [id_Pool i, id_Parent i, id_Name i]"
    by (simp add: DatasetPath_def)
  with True assms show ?thesis
    using split_join_valid [of "[id_Pool i, id_Parent i, id_Name i]"] by (simp add: valid_id_def)
next
  case False
  then have "DatasetPath i = join_with ''/'' [id_Pool i, id_Parent i, id_Namespace i, id_Name i]"
    by (simp add: DatasetPath_def)
  with False assms show ?thesis
    using split_join_valid [of "[id_Pool i, id_Parent i, id_Namespace i, id_Name i]"]
    by (simp add: valid_id_def)
qed

lemma DatasetPath_inject:
  assumes "valid_id i" "valid_id j" "DatasetPath i = DatasetPath j"
  shows "id_Pool i = id_Pool j \<and> id_Parent i = id_Parent j
    \<and> id_Namespace i = id_Namespace j \<and> id_Name i = id_Name j"
  using DatasetPath_segments [OF assms(1)] DatasetPath_segments [OF assms(2)] assms(3)
  by (auto split: if_splits)

text \<open>
  C2. On one appliance and protocol, two accepted handles that resolve to the same dataset are
  the same string: neither layout (flat or namespaced) can spell the other's dataset.
\<close>

theorem one_handle_per_dataset:
  assumes "ParseID s = Inr i" "ParseID t = Inr j"
    and "id_Backend i = id_Backend j" "id_Protocol i = id_Protocol j"
    and "DatasetPath i = DatasetPath j"
  shows "s = t"
proof -
  have v: "valid_id i" "s = ID_String i" "valid_id j" "t = ID_String j"
    using assms(1,2) ParseID_SomeD by blast+
  from DatasetPath_inject [OF v(1) v(3) assms(5)] assms(3,4) have "i = j" by simp
  with v show ?thesis by simp
qed

theorem one_handle_per_dataset_witness:
  "ParseID ''nas/nfs/tank/k8s/team/pvc-1'' =
     Inr \<lparr>id_Backend = ''nas'', id_Protocol = ''nfs'', id_Pool = ''tank'', id_Parent = ''k8s'',
          id_Namespace = ''team'', id_Name = ''pvc-1''\<rparr>
   \<and> (''nas/nfs/tank/k8s/team/pvc-1'' :: string) = ''nas/nfs/tank/k8s/team/pvc-1''"
proof -
  let ?i = "\<lparr>id_Backend = ''nas'', id_Protocol = ''nfs'', id_Pool = ''tank'', id_Parent = ''k8s'',
          id_Namespace = ''team'', id_Name = ''pvc-1''\<rparr>"
  have p: "ParseID ''nas/nfs/tank/k8s/team/pvc-1'' = Inr ?i"
    by (simp add: ParseID_def validComponent_def contains_any_def)
  show ?thesis using p one_handle_per_dataset [OF p p refl refl refl] by simp
qed

section \<open>Confinement\<close>

lemma Clean_parent:
  assumes "valid_comp pool" "valid_comp parent"
  shows "path_Clean (pool @ ''/'' @ parent) = pool @ ''/'' @ parent"
  using path_Clean_join [of "[pool, parent]"] assms by (simp add: valid_comp_plain)

lemma Clean_DatasetPath:
  assumes "list_all valid_comp [id_Pool i, id_Parent i, id_Name i]"
    and "id_Namespace i = [] \<or> valid_comp (id_Namespace i)"
  shows "path_Clean (DatasetPath i) = DatasetPath i"
proof (cases "id_Namespace i = []")
  case True
  with assms show ?thesis
    using path_Clean_join [of "[id_Pool i, id_Parent i, id_Name i]"]
    by (simp add: DatasetPath_def valid_comp_plain)
next
  case False
  with assms show ?thesis
    using path_Clean_join [of "[id_Pool i, id_Parent i, id_Namespace i, id_Name i]"]
    by (simp add: DatasetPath_def valid_comp_plain)
qed

lemma DatasetPath_prefix:
  "DatasetPath i = (id_Pool i @ ''/'' @ id_Parent i @ ''/'')
     @ (if id_Namespace i = [] then id_Name i else id_Namespace i @ ''/'' @ id_Name i)"
  by (simp add: DatasetPath_def)

lemma Confine_ok_iff:
  "Confine i pool parent = Inr () \<longleftrightarrow>
     valid_comp pool \<and> valid_comp parent \<and> id_Pool i = pool \<and> id_Parent i = parent
     \<and> valid_comp (id_Name i) \<and> (id_Namespace i = [] \<or> valid_comp (id_Namespace i))"
  (is "?l \<longleftrightarrow> ?r")
proof
  assume ?l
  then show ?r
    by (auto simp: Confine_def Let_def split: sum.splits if_splits)
next
  assume r: ?r
  have "has_prefix (path_Clean (pool @ ''/'' @ parent) @ ''/'') (path_Clean (DatasetPath i))"
    using r Clean_DatasetPath [of i] DatasetPath_prefix [of i] Clean_parent [of pool parent]
    by (simp add: has_prefix_iff)
  with r show ?l
    by (cases "id_Namespace i = []") (simp_all add: Confine_def Let_def)
qed

text \<open>
  C3. \<^verbatim>\<open>Confine\<close> accepts an ID exactly when the configured location is a pair of valid
  components, the ID names that location, and its remaining components are valid. In
  particular the final comparison of cleaned paths never refuses what the component checks
  admitted, and no component check can be bypassed by it.
\<close>

theorem Confine_iff:
  "Confine i pool parent = Inr () \<longleftrightarrow>
     valid_comp pool \<and> valid_comp parent \<and> id_Pool i = pool \<and> id_Parent i = parent
     \<and> valid_comp (id_Name i) \<and> (id_Namespace i = [] \<or> valid_comp (id_Namespace i))"
  by (rule Confine_ok_iff)

lemma Confine_path:
  assumes "Confine i pool parent = Inr ()"
  shows "path_Clean (DatasetPath i) = DatasetPath i"
  using assms Clean_DatasetPath [of i] by (simp add: Confine_ok_iff)

text \<open>
  C4. A dataset path the guard admits is already in normal form and lies strictly inside the
  configured parent: below \<open>pool/parent\<close> come one or two further components, none of them
  empty, relative or containing a separator, so no later path handling can leave the parent.
\<close>

theorem Confine_inside_parent:
  assumes "Confine i pool parent = Inr ()"
  shows "path_Clean (DatasetPath i) = DatasetPath i
    \<and> (\<exists>rest. split_on (CHR ''/'') (DatasetPath i) = [pool, parent] @ rest
        \<and> (length rest = 1 \<or> length rest = 2) \<and> list_all valid_comp rest)"
proof -
  have c: "valid_comp (id_Pool i)" "valid_comp (id_Parent i)" "id_Pool i = pool" "id_Parent i = parent"
    "valid_comp (id_Name i)" "id_Namespace i = [] \<or> valid_comp (id_Namespace i)"
    using assms by (auto simp: Confine_ok_iff)
  let ?j = "i\<lparr>id_Backend := ''b'', id_Protocol := ''p''\<rparr>"
  have "valid_id ?j" using c by (simp add: valid_id_def valid_comp_def)
  moreover have "DatasetPath ?j = DatasetPath i" by (simp add: DatasetPath_def)
  ultimately have "split_on (CHR ''/'') (DatasetPath i) =
    [pool, parent] @ (if id_Namespace i = [] then [] else [id_Namespace i]) @ [id_Name i]"
    using DatasetPath_segments [of ?j] c by simp
  with c Confine_path [OF assms] show ?thesis
    by (intro conjI exI [of _ "(if id_Namespace i = [] then [] else [id_Namespace i]) @ [id_Name i]"])
      auto
qed

theorem Confine_inside_parent_witness:
  "path_Clean ''tank/k8s/team/pvc-1'' = ''tank/k8s/team/pvc-1''"
proof -
  let ?i = "\<lparr>id_Backend = ''nas'', id_Protocol = ''nfs'', id_Pool = ''tank'', id_Parent = ''k8s'',
          id_Namespace = ''team'', id_Name = ''pvc-1''\<rparr>"
  have c: "Confine ?i ''tank'' ''k8s'' = Inr ()"
    by (simp add: Confine_ok_iff valid_comp_def)
  show ?thesis
    using Confine_inside_parent [OF c] by (simp add: DatasetPath_def)
qed

section \<open>Handles rebuilt from dataset paths\<close>

lemma IDFromLeaf_ok_path:
  assumes "IDFromLeaf b p pool parent leaf = Inr i"
  shows "DatasetPath i = pool @ ''/'' @ parent @ ''/'' @ leaf
    \<and> id_Backend i = b \<and> id_Protocol i = p \<and> id_Pool i = pool \<and> id_Parent i = parent"
proof -
  let ?ps = "split_on (CHR ''/'') leaf"
  have v: "list_all valid_comp ?ps"
    using assms by (auto simp: IDFromLeaf_def Let_def split: sum.splits)
  have leaf: "leaf = join_with ''/'' ?ps" by simp
  consider n where "?ps = [n]" | ns n where "?ps = [ns, n]"
    using assms by (auto simp: IDFromLeaf_def Let_def split: sum.splits list.splits)
  then show ?thesis
  proof cases
    case (1 n)
    with leaf have "leaf = n" by simp
    with assms v 1 show ?thesis by (auto simp: IDFromLeaf_def DatasetPath_def)
  next
    case (2 ns n)
    with leaf have "leaf = ns @ ''/'' @ n" by simp
    moreover from v 2 have "ns \<noteq> []" by (simp add: valid_comp_def)
    ultimately show ?thesis using assms v 2 by (auto simp: IDFromLeaf_def DatasetPath_def)
  qed
qed

lemma IDFromLeaf_complete:
  assumes "valid_id i"
  shows "IDFromLeaf (id_Backend i) (id_Protocol i) (id_Pool i) (id_Parent i)
    (if id_Namespace i = [] then id_Name i else id_Namespace i @ ''/'' @ id_Name i) = Inr i"
proof (cases "id_Namespace i = []")
  case True
  with assms have "split_on (CHR ''/'') (id_Name i) = [id_Name i]"
    by (simp add: valid_id_def valid_comp_def split_no_sep)
  with True assms show ?thesis by (simp add: IDFromLeaf_def valid_id_def)
next
  case False
  with assms have "split_on (CHR ''/'') (id_Namespace i @ ''/'' @ id_Name i)
      = [id_Namespace i, id_Name i]"
    by (simp add: valid_id_def valid_comp_def split_no_sep split_append_sep)
  with False assms show ?thesis by (simp add: IDFromLeaf_def valid_id_def)
qed

text \<open>
  C5. Listing inverts provisioning: cutting the configured prefix off a volume's dataset path
  and rebuilding the handle from the remaining leaf gives back the volume's own ID, for both
  layouts; and whatever handle a leaf yields names the very dataset the leaf was cut from.
\<close>

theorem IDFromLeaf_inverts_DatasetPath:
  "(valid_id i \<longrightarrow>
      IDFromLeaf (id_Backend i) (id_Protocol i) (id_Pool i) (id_Parent i)
        (trim_prefix (id_Pool i @ ''/'' @ id_Parent i @ ''/'') (DatasetPath i)) = Inr i)
   \<and> (IDFromLeaf b p pool parent leaf = Inr j \<longrightarrow> DatasetPath j = pool @ ''/'' @ parent @ ''/'' @ leaf)"
proof (intro conjI impI)
  assume v: "valid_id i"
  have "trim_prefix (id_Pool i @ ''/'' @ id_Parent i @ ''/'') (DatasetPath i) =
      (if id_Namespace i = [] then id_Name i else id_Namespace i @ ''/'' @ id_Name i)"
    by (subst DatasetPath_prefix) (rule trim_prefix_append)
  with v show "IDFromLeaf (id_Backend i) (id_Protocol i) (id_Pool i) (id_Parent i)
      (trim_prefix (id_Pool i @ ''/'' @ id_Parent i @ ''/'') (DatasetPath i)) = Inr i"
    by (simp only: IDFromLeaf_complete)
next
  assume "IDFromLeaf b p pool parent leaf = Inr j"
  then show "DatasetPath j = pool @ ''/'' @ parent @ ''/'' @ leaf"
    using IDFromLeaf_ok_path by blast
qed

theorem IDFromLeaf_inverts_DatasetPath_witness:
  "IDFromLeaf ''nas'' ''nfs'' ''tank'' ''k8s'' ''team/pvc-1'' =
     Inr \<lparr>id_Backend = ''nas'', id_Protocol = ''nfs'', id_Pool = ''tank'', id_Parent = ''k8s'',
          id_Namespace = ''team'', id_Name = ''pvc-1''\<rparr>"
proof -
  let ?i = "\<lparr>id_Backend = ''nas'', id_Protocol = ''nfs'', id_Pool = ''tank'', id_Parent = ''k8s'',
          id_Namespace = ''team'', id_Name = ''pvc-1''\<rparr>"
  have v: "valid_id ?i" by (simp add: valid_id_def valid_comp_def)
  have "trim_prefix ''tank/k8s/'' (DatasetPath ?i) = ''team/pvc-1''"
    by (simp add: DatasetPath_def trim_prefix_def cut_prefix_def has_prefix_def)
  with v IDFromLeaf_inverts_DatasetPath [of ?i "''nas''" "''nfs''" "''tank''" "''k8s''" "''team/pvc-1''" ?i]
  show ?thesis by simp
qed

section \<open>Namespaces\<close>

definition dns_label_char :: "char \<Rightarrow> bool" where
  "dns_label_char c \<longleftrightarrow> lower_or_digit (of_char c) \<or> c = CHR ''-''"

definition dns_label :: "string \<Rightarrow> bool" where
  "dns_label s \<longleftrightarrow> s \<noteq> [] \<and> length s \<le> 63 \<and> list_all dns_label_char s
     \<and> hd s \<noteq> CHR ''-'' \<and> last s \<noteq> CHR ''-''"

lemma label_runes_ascii: "label_runes len i (rune_chunks s) \<Longrightarrow> ascii s"
proof (induction s arbitrary: i rule: rune_chunks.induct)
  case (1 s)
  show ?case
  proof (cases s)
    case Nil
    then show ?thesis by (simp add: ascii_def)
  next
    case (Cons c t)
    obtain r w where rw: "decode_rune (map of_char s) = (r, w)" by fastforce
    from Cons have ne: "s \<noteq> []" by simp
    have lr: "label_runes len i ((r, take (max 1 w) s) # rune_chunks (drop (max 1 w) s))"
      using "1.prems" ne rw by (subst (asm) rune_chunks.simps) (simp add: Let_def)
    then have "r < 128" by (auto simp: lower_or_digit_def)
    then have w: "of_char c = r" "w = 1"
      using decode_rune_ascii [of "of_char c" "map of_char t" r w] rw Cons by auto
    with lr have "label_runes len (i + length (take (max 1 w) s)) (rune_chunks (drop (max 1 w) s))"
      by simp
    then have "ascii (drop (max 1 w) s)" using "1.IH" [OF ne rw [symmetric] refl] by blast
    with w \<open>r < 128\<close> Cons show ?thesis by (simp add: ascii_def)
  qed
qed

lemma label_runes_nth:
  "label_runes len i (map (\<lambda>c. (of_char c, [c])) s) \<longleftrightarrow>
     (\<forall>j < length s. lower_or_digit (of_char (s ! j))
        \<or> (s ! j = CHR ''-'' \<and> 0 < i + j \<and> i + j < len - 1))"
proof (induction s arbitrary: i)
  case (Cons c s)
  have "(45 :: nat) = of_char (CHR ''-'')" by simp
  then have "of_char c = (45 :: nat) \<longleftrightarrow> c = CHR ''-''"
    by (simp only: of_char_eq_iff)
  then show ?case
    unfolding list.map label_runes.simps Cons.IH
    by (auto simp: All_less_Suc2)
qed simp

lemma all_nth_last:
  assumes "s \<noteq> []"
  shows "(\<forall>j < length s. P (s ! j) \<or> (s ! j = d \<and> 0 < j \<and> j < length s - 1)) \<longleftrightarrow>
    list_all (\<lambda>c. P c \<or> c = d) s \<and> (hd s = d \<longrightarrow> P d) \<and> (last s = d \<longrightarrow> P d)"
proof -
  have h: "hd s = s ! 0" "last s = s ! (length s - 1)"
    using assms by (simp_all add: hd_conv_nth last_conv_nth)
  show ?thesis
  proof
    assume a: "\<forall>j < length s. P (s ! j) \<or> (s ! j = d \<and> 0 < j \<and> j < length s - 1)"
    have "0 < length s" "length s - 1 < length s" using assms by simp_all
    with a have "P (s ! 0)" "P (s ! (length s - 1))" by blast+
    with a h show "list_all (\<lambda>c. P c \<or> c = d) s \<and> (hd s = d \<longrightarrow> P d) \<and> (last s = d \<longrightarrow> P d)"
      by (auto simp: list_all_length)
  next
    assume a: "list_all (\<lambda>c. P c \<or> c = d) s \<and> (hd s = d \<longrightarrow> P d) \<and> (last s = d \<longrightarrow> P d)"
    show "\<forall>j < length s. P (s ! j) \<or> (s ! j = d \<and> 0 < j \<and> j < length s - 1)"
    proof (intro allI impI)
      fix j assume "j < length s"
      with a h show "P (s ! j) \<or> (s ! j = d \<and> 0 < j \<and> j < length s - 1)"
        by (cases "j = 0"; cases "j = length s - 1") (auto simp: list_all_length)
    qed
  qed
qed

lemma dns_label_ascii: "list_all dns_label_char s \<Longrightarrow> ascii s"
  by (auto simp: ascii_def list_all_iff dns_label_char_def lower_or_digit_def)

lemma label_runes_dns:
  assumes "ascii s" "s \<noteq> []"
  shows "label_runes (length s) 0 (rune_chunks s) \<longleftrightarrow>
    list_all dns_label_char s \<and> hd s \<noteq> CHR ''-'' \<and> last s \<noteq> CHR ''-''"
proof -
  have "label_runes (length s) 0 (rune_chunks s) \<longleftrightarrow>
    (\<forall>j < length s. lower_or_digit (of_char (s ! j))
        \<or> (s ! j = CHR ''-'' \<and> 0 < j \<and> j < length s - 1))"
    using assms(1) by (simp add: label_runes_nth)
  also have "\<dots> \<longleftrightarrow> list_all (\<lambda>c. lower_or_digit (of_char c) \<or> c = CHR ''-'') s
      \<and> (hd s = CHR ''-'' \<longrightarrow> lower_or_digit (of_char (CHR ''-'')))
      \<and> (last s = CHR ''-'' \<longrightarrow> lower_or_digit (of_char (CHR ''-'')))"
    by (rule all_nth_last [OF assms(2), where P = "\<lambda>c. lower_or_digit (of_char c)"])
  finally show ?thesis
    by (simp add: lower_or_digit_def dns_label_char_def [abs_def])
qed

lemma ValidateNamespace_ok: "ValidateNamespace ns = Inr () \<longleftrightarrow> dns_label ns"
proof (cases "ns = [] \<or> 63 < length ns")
  case True
  then show ?thesis by (auto simp: ValidateNamespace_def dns_label_def)
next
  case False
  then have "ValidateNamespace ns = Inr () \<longleftrightarrow> label_runes (length ns) 0 (rune_chunks ns)"
    by (simp add: ValidateNamespace_def)
  also have "\<dots> \<longleftrightarrow> dns_label ns"
    using False label_runes_ascii [of "length ns" 0 ns] label_runes_dns [of ns]
      dns_label_ascii [of ns]
    unfolding dns_label_def by (metis linorder_not_less)
  finally show ?thesis .
qed

lemma dns_label_valid_comp:
  assumes d: "dns_label ns"
  shows "valid_comp ns"
proof -
  have all: "\<forall>c \<in> set ns. lower_or_digit (of_char c) \<or> c = CHR ''-''"
    using d by (simp add: dns_label_def list_all_iff dns_label_char_def)
  have "\<not> lower_or_digit (of_char (CHR ''/''))" "\<not> lower_or_digit (of_char (CHR 0x5C))"
    "\<not> lower_or_digit (of_char (CHR ''.''))"
    by (simp_all add: lower_or_digit_def)
  with all have "CHR ''/'' \<notin> set ns" "CHR 0x5C \<notin> set ns" "CHR ''.'' \<notin> set ns"
    by fastforce+
  then show ?thesis using d by (auto simp: valid_comp_def dns_label_def)
qed

text \<open>
  C6. \<^verbatim>\<open>ValidateNamespace\<close> accepts exactly the DNS-1123 labels: one to 63 bytes, each a lowercase
  letter, a digit or an inner hyphen. The loop runs over decoded code points while the hyphen
  rule compares byte offsets; the equivalence shows that multi-byte and invalid encodings are
  all refused, so a namespace is always a valid path component of the handle.
\<close>

theorem ValidateNamespace_iff:
  "(ValidateNamespace ns = Inr () \<longleftrightarrow> dns_label ns) \<and> (dns_label ns \<longrightarrow> valid_comp ns)"
  using ValidateNamespace_ok dns_label_valid_comp by blast

theorem ValidateNamespace_iff_witness: "valid_comp ''team-a''"
proof -
  have "dns_label ''team-a''"
    by (simp add: dns_label_def dns_label_char_def lower_or_digit_def)
  with ValidateNamespace_iff [of "''team-a''"] show ?thesis by simp
qed

section \<open>Recorded quotas\<close>

lemma digit_not_space: "is_digit c \<Longrightarrow> \<not> is_space_rune (of_char c) \<and> (of_char c :: nat) < 128"
  by (auto simp: is_digit_def is_space_rune_def)

lemma FormatInt_visible:
  "ascii (FormatInt n) \<and> list_all (\<lambda>c. \<not> is_space_rune (of_char c)) (FormatInt n) \<and> FormatInt n \<noteq> []"
  using nat_str_digits [of "nat n"] nat_str_digits [of "nat (- n)"] digit_not_space
  by (auto simp: FormatInt_def ascii_def list_all_iff is_space_rune_def)

text \<open>
  The texts that denote a quota: an optional sign and decimal digits, with blanks around them,
  whose value is not negative and fits in 64 bits.
\<close>

definition quota_text :: "string \<Rightarrow> int \<Rightarrow> bool" where
  "quota_text s n \<longleftrightarrow>
     (\<exists>sign ds. TrimSpace s = sign @ ds \<and> sign \<in> {[], ''+'', ''-''} \<and> ds \<noteq> [] \<and> list_all is_digit ds
        \<and> n = (if sign = ''-'' then - int (digits_val ds) else int (digits_val ds)) \<and> 0 \<le> n \<and> n \<le> 9223372036854775807)"

lemma ParseInt64_iff:
  "ParseInt64 t = Some n \<longleftrightarrow>
     (\<exists>sign ds. t = sign @ ds \<and> sign \<in> {[], ''+'', ''-''} \<and> ds \<noteq> [] \<and> list_all is_digit ds
        \<and> n = (if sign = ''-'' then - int (digits_val ds) else int (digits_val ds)) \<and> in_int64 n)"
  (is "_ \<longleftrightarrow> ?R")
proof
  assume "ParseInt64 t = Some n"
  then obtain c r where t: "t = c # r" by (cases t) (auto simp: ParseInt64_def)
  let ?body = "if c = CHR ''-'' \<or> c = CHR ''+'' then r else c # r"
  let ?sign = "if c = CHR ''-'' then ''-'' else if c = CHR ''+'' then ''+'' else []"
  from \<open>ParseInt64 t = Some n\<close> have "?body \<noteq> []" "list_all is_digit ?body" "in_int64 n"
    "n = (if ?sign = ''-'' then - int (digits_val ?body) else int (digits_val ?body))"
    unfolding t by (auto simp: ParseInt64_def parse_digits_def Let_def split: if_splits)
  moreover have "t = ?sign @ ?body" "?sign \<in> {[], ''+'', ''-''}" by (simp_all add: t)
  ultimately show ?R by blast
next
  assume ?R
  then obtain sign ds where t: "t = sign @ ds" "sign \<in> {[], ''+'', ''-''}" "ds \<noteq> []" "list_all is_digit ds"
    and n: "n = (if sign = ''-'' then - int (digits_val ds) else int (digits_val ds))" "in_int64 n" by blast
  obtain d r where ds: "ds = d # r" using t(3) by (cases ds) auto
  with t(4) have "d \<noteq> CHR ''-''" "d \<noteq> CHR ''+''" by (auto simp: is_digit_def)
  with t n ds show "ParseInt64 t = Some n" by (auto simp: ParseInt64_def parse_digits_def Let_def)
qed

lemma AppliedQuota_iff: "AppliedQuota s = (n, True) \<longleftrightarrow> quota_text s n"
proof -
  have nil: "ParseInt64 [] = None" by (simp add: ParseInt64_def)
  have "AppliedQuota s = (n, True) \<longleftrightarrow> ParseInt64 (TrimSpace s) = Some n \<and> 0 \<le> n"
    using nil by (cases "TrimSpace s = []"; cases "ParseInt64 (TrimSpace s)") (auto simp: AppliedQuota_def)
  moreover have "in_int64 n \<and> 0 \<le> n \<longleftrightarrow> 0 \<le> n \<and> n \<le> 9223372036854775807"
    by (auto simp: in_int64_def min_int64_def max_int64_def)
  ultimately show ?thesis unfolding ParseInt64_iff quota_text_def by blast
qed

text \<open>
  C7. The quota recorded on a namespace dataset reads back as written, for every quota the
  64-bit configuration field can hold. A recorded text reads as the quota \<open>n\<close> exactly when it is a
  decimal number denoting \<open>n\<close>, not negative and within 64 bits; every other text (nothing, words, a
  negative number, a number out of range) reads as never recorded.
\<close>

theorem AppliedQuota_roundtrip:
  "(AppliedQuota (FormatQuota q) = (q, True) \<longleftrightarrow> in_int64 q \<and> 0 \<le> q)
   \<and> (AppliedQuota s = (n, True) \<longleftrightarrow> quota_text s n)
   \<and> ((\<nexists>m. quota_text s m) \<longrightarrow> AppliedQuota s = (0, False))"
proof (intro conjI)
  have t: "TrimSpace (FormatInt q) = FormatInt q" "FormatInt q \<noteq> []"
    using FormatInt_visible [of q] TrimSpace_id by blast+
  have rng: "ParseInt64 s = Some v \<Longrightarrow> in_int64 v" for s v
    by (auto simp: ParseInt64_def Let_def split: list.splits option.splits if_splits)
  show "AppliedQuota (FormatQuota q) = (q, True) \<longleftrightarrow> in_int64 q \<and> 0 \<le> q"
    using t rng [of "FormatInt q" q]
    by (auto simp: AppliedQuota_def FormatQuota_def Let_def split: option.splits if_splits)
  show "AppliedQuota s = (n, True) \<longleftrightarrow> quota_text s n" by (rule AppliedQuota_iff)
  show "(\<nexists>m. quota_text s m) \<longrightarrow> AppliedQuota s = (0, False)"
    unfolding AppliedQuota_iff [symmetric]
    by (auto simp: AppliedQuota_def Let_def split: option.splits if_splits)
qed

theorem AppliedQuota_roundtrip_witness:
  "AppliedQuota ''10737418240'' = (10737418240, True) \<and> AppliedQuota ''10 GiB'' = (0, False)"
proof
  have "in_int64 10737418240 \<and> (0 :: int) \<le> 10737418240"
    by (simp add: in_int64_def min_int64_def max_int64_def)
  moreover have "FormatQuota 10737418240 = ''10737418240''"
    by (simp add: FormatQuota_def FormatInt_def nat_str.simps digit_char_def)
  ultimately show "AppliedQuota ''10737418240'' = (10737418240, True)"
    using AppliedQuota_roundtrip [of 10737418240 "[]" 0] by metis
  have "AppliedQuota ''10 GiB'' \<noteq> (m, True)" for m
  proof -
    have "\<not> snd (AppliedQuota ''10 GiB'')" by code_simp
    then show ?thesis by (metis snd_conv)
  qed
  then have "\<nexists>m. quota_text ''10 GiB'' m" unfolding AppliedQuota_iff by blast
  with AppliedQuota_roundtrip [of 0 "''10 GiB''" 0] show "AppliedQuota ''10 GiB'' = (0, False)" by blast
qed

section \<open>Sanitised names\<close>

definition safe_char :: "char \<Rightarrow> bool" where
  "safe_char c \<longleftrightarrow> ascii_letter (of_char c) \<or> ascii_digit (of_char c) \<or> c \<in> set ''-._''"

lemma sanitise_rune_safe: "safe_char (sanitise_rune r)"
  by (auto simp: safe_char_def sanitise_rune_def ascii_letter_def ascii_digit_def)

lemma safe_char_props: "safe_char c \<Longrightarrow> (of_char c :: nat) < 128 \<and> \<not> is_space_rune (of_char c)"
  by (auto simp: safe_char_def ascii_letter_def ascii_digit_def is_space_rune_def)

lemma sanitise_rune_id: "safe_char c \<Longrightarrow> sanitise_rune (of_char c) = c"
  by (auto simp: safe_char_def sanitise_rune_def ascii_letter_def ascii_digit_def)

lemma sanitise_id:
  assumes "list_all safe_char s" "length s \<le> 255"
  shows "sanitiseIdentityValue s = s"
proof (cases "s = []")
  case False
  have "ascii s" "TrimSpace s = s"
    using assms safe_char_props TrimSpace_id [of s]
    by (auto simp: list_all_iff ascii_def)
  moreover have "map sanitise_rune (map of_char s) = s"
    using assms(1) by (auto simp: list_all_iff sanitise_rune_id intro: map_idI)
  ultimately show ?thesis
    using False assms(2) by (simp add: sanitiseIdentityValue_def truncate_str_def)
qed (simp add: sanitiseIdentityValue_def)

text \<open>
  C8. Whatever bytes a StorageClass author supplies, the recorded claim name is at most 255
  bytes of ASCII letters, digits, hyphens, dots and underscores; a name that already has that
  form is recorded unchanged, so sanitising twice is sanitising once.
\<close>

theorem sanitiseIdentityValue_safe:
  "list_all safe_char (sanitiseIdentityValue v) \<and> length (sanitiseIdentityValue v) \<le> 255
   \<and> sanitiseIdentityValue (sanitiseIdentityValue v) = sanitiseIdentityValue v
   \<and> (list_all safe_char v \<and> length v \<le> 255 \<longrightarrow> sanitiseIdentityValue v = v)"
proof -
  have a: "list_all safe_char (sanitiseIdentityValue v)" "length (sanitiseIdentityValue v) \<le> 255"
    using sanitise_rune_safe
    by (auto simp: sanitiseIdentityValue_def truncate_str_def Let_def list_all_iff
        dest!: in_set_takeD)
  then show ?thesis using sanitise_id by blast
qed

theorem sanitiseIdentityValue_safe_witness: "sanitiseIdentityValue ''data-0.web'' = ''data-0.web''"
proof -
  have "list_all safe_char ''data-0.web'' \<and> length ''data-0.web'' \<le> 255"
    by (simp add: safe_char_def ascii_letter_def ascii_digit_def)
  then show ?thesis using sanitiseIdentityValue_safe [of "''data-0.web''"] by blast
qed

end
