(* ===== verification/GoTime.thy ===== *)
theory GoTime
  imports GoErrors
begin

text \<open>
  The parts of Go's \<^verbatim>\<open>time\<close> package delete protection and snapshots rely on. An instant is a
  number of nanoseconds since 1970-01-01T00:00:00Z, a duration a 64-bit number of nanoseconds.
  Calendar dates follow the cycle arithmetic of \<^verbatim>\<open>time.Time\<close> (400, 100, 4 and 1 year
  cycles counted from 0001-01-01); \<open>time_Format\<close> and \<open>time_Parse\<close> work on a layout as a
  sequence of tokens, the way \<^verbatim>\<open>Format\<close> and \<^verbatim>\<open>Parse\<close> consume a layout string.
\<close>

section \<open>Dates\<close>

definition isLeap :: "int \<Rightarrow> bool" where
  "isLeap y \<longleftrightarrow> y mod 4 = 0 \<and> (y mod 100 \<noteq> 0 \<or> y mod 400 = 0)"

text \<open>Days of a common year before each month, January first, with the year's length last.\<close>

definition daysBefore :: "int list" where
  "daysBefore = [0, 31, 59, 90, 120, 151, 181, 212, 243, 273, 304, 334, 365]"

definition daysIn :: "int \<Rightarrow> int \<Rightarrow> int" where
  "daysIn m y =
     (if m = 2 \<and> isLeap y then 29 else daysBefore ! nat m - daysBefore ! nat (m - 1))"

text \<open>The month and the day of the month of day \<open>yd\<close> (from 0) of a year.\<close>

definition month_day :: "bool \<Rightarrow> int \<Rightarrow> int \<times> int" where
  "month_day leap yd =
     (if leap \<and> yd = 59 then (2, 29)
      else let day = (if leap \<and> yd > 59 then yd - 1 else yd);
               m = day div 31
           in if day \<ge> daysBefore ! nat (m + 1) then (m + 2, day - daysBefore ! nat (m + 1) + 1)
              else (m + 1, day - daysBefore ! nat m + 1))"

text \<open>Year, month and day of the day \<open>n\<close> days after 0001-01-01.\<close>

definition civil :: "int \<Rightarrow> int \<times> int \<times> int" where
  "civil n =
     (let n400 = n div 146097; r400 = n mod 146097;
          n100 = min 3 (r400 div 36524); r100 = r400 - 36524 * n100;
          n4 = r100 div 1461; r4 = r100 mod 1461;
          n1 = min 3 (r4 div 365);
          year = 400 * n400 + 100 * n100 + 4 * n4 + n1 + 1;
          (m, d) = month_day (isLeap year) (r4 - 365 * n1)
      in (year, m, d))"

text \<open>Days from 0001-01-01 to a date.\<close>

definition days_of :: "int \<Rightarrow> int \<Rightarrow> int \<Rightarrow> int" where
  "days_of y m d =
     365 * (y - 1) + (y - 1) div 4 - (y - 1) div 100 + (y - 1) div 400
     + daysBefore ! nat (m - 1) + (if m > 2 \<and> isLeap y then 1 else 0) + d - 1"

definition unix_epoch_days :: int where "unix_epoch_days = 719162"

definition nanos :: int where "nanos = 1000000000"

section \<open>Layouts\<close>

datatype layout_tok = LongYear | ZeroMonth | ZeroDay | Hour | ZeroMinute | ZeroSecond | ColonTZ | Lit char

definition RFC3339 :: "layout_tok list" where
  "RFC3339 = [LongYear, Lit (CHR ''-''), ZeroMonth, Lit (CHR ''-''), ZeroDay, Lit (CHR ''T''),
     Hour, Lit (CHR '':''), ZeroMinute, Lit (CHR '':''), ZeroSecond, ColonTZ]"

text \<open>The layout \<^verbatim>\<open>20060102T150405Z\<close>; its \<^verbatim>\<open>Z\<close> is a literal.\<close>

definition entry_layout :: "layout_tok list" where
  "entry_layout = [LongYear, ZeroMonth, ZeroDay, Lit (CHR ''T''),
     Hour, ZeroMinute, ZeroSecond, Lit (CHR ''Z'')]"

definition appendInt :: "int \<Rightarrow> nat \<Rightarrow> string" where
  "appendInt x width =
     (let s = nat_str (nat \<bar>x\<bar>)
      in (if x < 0 then ''-'' else []) @ replicate (width - length s) (CHR ''0'') @ s)"

definition format_tok :: "int \<Rightarrow> layout_tok \<Rightarrow> string" where
  "format_tok t k =
     (let secs = t div nanos;
          (y, m, d) = civil (secs div 86400 + unix_epoch_days);
          sod = secs mod 86400
      in case k of
           LongYear \<Rightarrow> appendInt y 4
         | ZeroMonth \<Rightarrow> appendInt m 2
         | ZeroDay \<Rightarrow> appendInt d 2
         | Hour \<Rightarrow> appendInt (sod div 3600) 2
         | ZeroMinute \<Rightarrow> appendInt (sod mod 3600 div 60) 2
         | ZeroSecond \<Rightarrow> appendInt (sod mod 60) 2
         | ColonTZ \<Rightarrow> ''Z''
         | Lit c \<Rightarrow> [c])"

text \<open>The instant is in UTC, as every formatted instant of the driver is.\<close>

definition time_Format :: "layout_tok list \<Rightarrow> int \<Rightarrow> string" where
  "time_Format layout t = concat (map (format_tok t) layout)"

section \<open>Parsing\<close>

record parsed_time =
  p_year :: int
  p_month :: int
  p_day :: int
  p_hour :: int
  p_min :: int
  p_sec :: int
  p_nsec :: int
  p_offset :: int

definition parsed_zero :: parsed_time where
  "parsed_zero = \<lparr>p_year = 0, p_month = 1, p_day = 1, p_hour = 0, p_min = 0, p_sec = 0, p_nsec = 0,
     p_offset = 0\<rparr>"

text \<open>\<^verbatim>\<open>getnum\<close>: one or two digits, two when \<open>fixed\<close>.\<close>

definition getnum :: "bool \<Rightarrow> string \<Rightarrow> (int \<times> string) option" where
  "getnum fixed s =
     (case s of
        [] \<Rightarrow> None
      | a # r \<Rightarrow>
          if \<not> is_digit a then None
          else (case r of
                  b # r' \<Rightarrow>
                    if is_digit b then Some (int (digit_val a * 10 + digit_val b), r')
                    else if fixed then None else Some (int (digit_val a), r)
                | [] \<Rightarrow> if fixed then None else Some (int (digit_val a), r)))"

definition get_year :: "string \<Rightarrow> (int \<times> string) option" where
  "get_year s =
     (if length s < 4 \<or> \<not> list_all is_digit (take 4 s) then None
      else Some (int (digits_val (take 4 s)), drop 4 s))"

text \<open>
  Fractional seconds the layout does not mention: a separator followed by digits, of which the
  first nine count.
\<close>

definition get_fraction :: "string \<Rightarrow> int \<times> string" where
  "get_fraction s =
     (case s of
        p # d # r \<Rightarrow>
          if (p = CHR ''.'' \<or> p = CHR '','') \<and> is_digit d
          then let ds = takeWhile is_digit (d # r);
                   n = take 9 ds
               in (int (digits_val n * 10 ^ (9 - length n)), dropWhile is_digit (d # r))
          else (0, s)
      | _ \<Rightarrow> (0, s))"

definition get_zone :: "string \<Rightarrow> (int \<times> string) option" where
  "get_zone s =
     (case s of
        CHR ''Z'' # r \<Rightarrow> Some (0, r)
      | sg # a # b # CHR '':'' # c # d # r \<Rightarrow>
          (case (getnum True [a, b], getnum True [c, d]) of
             (Some (hr, _), Some (mm, _)) \<Rightarrow>
               if hr > 24 \<or> mm > 60 then None
               else if sg = CHR ''+'' then Some ((hr * 60 + mm) * 60, r)
               else if sg = CHR ''-'' then Some (- ((hr * 60 + mm) * 60), r)
               else None
           | _ \<Rightarrow> None)
      | _ \<Rightarrow> None)"

definition parse_tok :: "layout_tok \<Rightarrow> parsed_time \<times> string \<Rightarrow> (parsed_time \<times> string) option" where
  "parse_tok k ps =
     (case ps of (p, s) \<Rightarrow>
        (case k of
           Lit c \<Rightarrow> (case s of x # r \<Rightarrow> if x = c then Some (p, r) else None | [] \<Rightarrow> None)
         | LongYear \<Rightarrow> map_option (\<lambda>(n, r). (p\<lparr>p_year := n\<rparr>, r)) (get_year s)
         | ZeroMonth \<Rightarrow> (case getnum True s of
             Some (n, r) \<Rightarrow> if n \<le> 0 \<or> 12 < n then None else Some (p\<lparr>p_month := n\<rparr>, r)
           | None \<Rightarrow> None)
         | ZeroDay \<Rightarrow> map_option (\<lambda>(n, r). (p\<lparr>p_day := n\<rparr>, r)) (getnum True s)
         | Hour \<Rightarrow> (case getnum False s of
             Some (n, r) \<Rightarrow> if 24 \<le> n then None else Some (p\<lparr>p_hour := n\<rparr>, r) | None \<Rightarrow> None)
         | ZeroMinute \<Rightarrow> (case getnum True s of
             Some (n, r) \<Rightarrow> if 60 \<le> n then None else Some (p\<lparr>p_min := n\<rparr>, r) | None \<Rightarrow> None)
         | ZeroSecond \<Rightarrow> (case getnum True s of
             Some (n, r) \<Rightarrow>
               if 60 \<le> n then None
               else (case get_fraction r of (f, r') \<Rightarrow> Some (p\<lparr>p_sec := n, p_nsec := f\<rparr>, r'))
           | None \<Rightarrow> None)
         | ColonTZ \<Rightarrow> map_option (\<lambda>(n, r). (p\<lparr>p_offset := n\<rparr>, r)) (get_zone s)))"

fun parse_toks :: "layout_tok list \<Rightarrow> parsed_time \<times> string \<Rightarrow> (parsed_time \<times> string) option" where
  "parse_toks [] ps = Some ps"
| "parse_toks (k # ks) ps = (case parse_tok k ps of None \<Rightarrow> None | Some ps' \<Rightarrow> parse_toks ks ps')"

definition time_Date :: "parsed_time \<Rightarrow> int" where
  "time_Date p =
     ((days_of (p_year p) (p_month p) (p_day p) - unix_epoch_days) * 86400
      + p_hour p * 3600 + p_min p * 60 + p_sec p - p_offset p) * nanos + p_nsec p"

definition time_Parse :: "layout_tok list \<Rightarrow> string \<Rightarrow> int option" where
  "time_Parse layout s =
     (case parse_toks layout (parsed_zero, s) of
        Some (p, []) \<Rightarrow>
          if p_day p < 1 \<or> p_day p > daysIn (p_month p) (p_year p) then None else Some (time_Date p)
      | _ \<Rightarrow> None)"

text \<open>\<^verbatim>\<open>Time.Sub\<close>: a difference outside the range of a duration saturates.\<close>

definition time_Sub :: "int \<Rightarrow> int \<Rightarrow> int" where
  "time_Sub t u = (let d = t - u in if d > max_int64 then max_int64 else if d < min_int64 then min_int64 else d)"

section \<open>Dates and day numbers\<close>

definition month_day_check :: "bool \<Rightarrow> int \<Rightarrow> bool" where
  "month_day_check leap yd =
     (case month_day leap yd of (m, d) \<Rightarrow>
       1 \<le> m \<and> m \<le> 12 \<and> 1 \<le> d
     \<and> d \<le> (if m = 2 \<and> leap then 29 else daysBefore ! nat m - daysBefore ! nat (m - 1))
     \<and> daysBefore ! nat (m - 1) + (if m > 2 \<and> leap then 1 else 0) + d - 1 = yd)"

lemma month_day_table:
  "list_all (month_day_check True) [0..365]" "list_all (month_day_check False) [0..364]"
  by code_simp+

lemma month_day_ok:
  assumes "0 \<le> yd" "yd < (if leap then 366 else 365)" "month_day leap yd = (m, d)"
  shows "1 \<le> m \<and> m \<le> 12 \<and> 1 \<le> d
     \<and> d \<le> (if m = 2 \<and> leap then 29 else daysBefore ! nat m - daysBefore ! nat (m - 1))
     \<and> daysBefore ! nat (m - 1) + (if m > 2 \<and> leap then 1 else 0) + d - 1 = yd"
proof -
  have "yd \<in> set (if leap then [0..365] else [0..364])" using assms(1,2) by (cases leap) auto
  then have "month_day_check leap yd"
    using month_day_table by (cases leap) (auto simp only: list_all_iff if_True if_False)
  with assms(3) show ?thesis by (simp add: month_day_check_def)
qed

text \<open>The decomposition of a day number into the four cycles.\<close>

lemma cycles:
  fixes n :: int
  assumes "a = n div 146097" "r = n mod 146097" "b = min 3 (r div 36524)" "r1 = r - 36524 * b"
    "c = r1 div 1461" "r4 = r1 mod 1461" "e = min 3 (r4 div 365)"
  shows "n = 146097 * a + 36524 * b + 1461 * c + r4"
    and "0 \<le> b" "b \<le> 3" "0 \<le> c" "c \<le> 24" "0 \<le> e" "e \<le> 3"
    and "0 \<le> r4 - 365 * e" "r4 - 365 * e \<le> 365"
    and "r4 - 365 * e = 365 \<Longrightarrow> e = 3 \<and> (c \<noteq> 24 \<or> b = 3)"
proof -
  have r: "0 \<le> r" "r < 146097" "n = 146097 * a + r" by (simp_all add: assms)
  show b: "0 \<le> b" "b \<le> 3" using r by (simp_all add: assms(3))
  have "r1 = r mod 36524 \<or> b = 3 \<and> 109572 \<le> r1 + 109572"
  proof (cases "r div 36524 \<le> 3")
    case True
    then show ?thesis using minus_mult_div_eq_mod [of r 36524] by (simp add: assms(3,4))
  next
    case False
    then show ?thesis by (simp add: assms(3,4)) linarith
  qed
  then have r1: "0 \<le> r1" "r1 \<le> 36524" "r1 = 36524 \<Longrightarrow> b = 3"
    using r pos_mod_bound [of 36524 r] pos_mod_sign [of 36524 r] assms(4) by auto
  have r4: "0 \<le> r4" "r4 < 1461" "r1 = 1461 * c + r4" by (simp_all add: assms(5,6))
  show c: "0 \<le> c" "c \<le> 24" using r1 r4 by linarith+
  show e: "0 \<le> e" "e \<le> 3" using r4 by (simp_all add: assms(7))
  show "n = 146097 * a + 36524 * b + 1461 * c + r4"
    using r(3) r4(3) by (simp add: assms(4))
  show "0 \<le> r4 - 365 * e" "r4 - 365 * e \<le> 365"
    using r4 unfolding assms(7) by (auto simp: min_def; linarith)+
  show "r4 - 365 * e = 365 \<Longrightarrow> e = 3 \<and> (c \<noteq> 24 \<or> b = 3)"
    using r4 r1 unfolding assms(7) by (auto simp: min_def split: if_splits)
qed

lemma mod_zero_block:
  fixes y :: int
  assumes "y = m * q + k" "1 \<le> k" "k \<le> m"
  shows "y mod m = 0 \<longleftrightarrow> k = m"
proof -
  have "y mod m = k mod m" using assms(1) by simp
  then show ?thesis using assms(2,3) by (cases "k = m") auto
qed

lemma year_cycles:
  fixes a b c e y :: int
  assumes "0 \<le> b" "b \<le> 3" "0 \<le> c" "c \<le> 24" "0 \<le> e" "e \<le> 3"
    and y: "y = 400 * a + 100 * b + 4 * c + e + 1"
  shows "(y - 1) div 4 = 100 * a + 25 * b + c" "(y - 1) div 100 = 4 * a + b" "(y - 1) div 400 = a"
    and "isLeap y \<longleftrightarrow> e = 3 \<and> (c \<noteq> 24 \<or> b = 3)"
proof -
  show "(y - 1) div 4 = 100 * a + 25 * b + c" "(y - 1) div 100 = 4 * a + b" "(y - 1) div 400 = a"
    using assms by linarith+
  have "y mod 4 = 0 \<longleftrightarrow> e + 1 = 4"
    by (rule mod_zero_block [of _ _ "100 * a + 25 * b + c"]) (use assms in auto)
  moreover have "y mod 100 = 0 \<longleftrightarrow> 4 * c + e + 1 = 100"
    by (rule mod_zero_block [of _ _ "4 * a + b"]) (use assms in auto)
  moreover have "y mod 400 = 0 \<longleftrightarrow> 100 * b + 4 * c + e + 1 = 400"
    by (rule mod_zero_block [of _ _ "a"]) (use assms in auto)
  moreover have "4 * c + e + 1 = 100 \<longleftrightarrow> c = 24 \<and> e = 3"
    "100 * b + 4 * c + e + 1 = 400 \<longleftrightarrow> b = 3 \<and> c = 24 \<and> e = 3"
    using assms(1-6) by (safe; linarith)+
  ultimately
  show "isLeap y \<longleftrightarrow> e = 3 \<and> (c \<noteq> 24 \<or> b = 3)"
    by (auto simp: isLeap_def)
qed

lemma civil_cycles:
  assumes "a = n div 146097" "r = n mod 146097" "b = min 3 (r div 36524)" "r1 = r - 36524 * b"
    "c = r1 div 1461" "r4 = r1 mod 1461" "e = min 3 (r4 div 365)"
    and "civil n = (y, m, d)"
  shows "y = 400 * a + 100 * b + 4 * c + e + 1" "month_day (isLeap y) (r4 - 365 * e) = (m, d)"
proof -
  have "civil n = (case month_day (isLeap (400 * a + 100 * b + 4 * c + e + 1)) (r4 - 365 * e) of
      (m, d) \<Rightarrow> (400 * a + 100 * b + 4 * c + e + 1, m, d))"
    unfolding civil_def Let_def assms(1-7) ..
  with assms(8) show "y = 400 * a + 100 * b + 4 * c + e + 1"
    "month_day (isLeap y) (r4 - 365 * e) = (m, d)"
    by (metis (no_types, lifting) case_prod_unfold prod.inject prod.collapse)+
qed

lemma civil_ok:
  assumes "civil n = (y, m, d)"
  shows "days_of y m d = n \<and> 1 \<le> m \<and> m \<le> 12 \<and> 1 \<le> d \<and> d \<le> daysIn m y"
proof -
  define a r where ar: "a = n div 146097" "r = n mod 146097"
  define b r1 where br: "b = min 3 (r div 36524)" "r1 = r - 36524 * b"
  define c r4 where cr: "c = r1 div 1461" "r4 = r1 mod 1461"
  define e where e: "e = min 3 (r4 div 365)"
  define yd where yd: "yd = r4 - 365 * e"
  note cyc = cycles [OF ar br cr e, folded yd]
  note y = civil_cycles(1) [OF ar br cr e assms]
  note md = civil_cycles(2) [OF ar br cr e assms, folded yd]
  note yc = year_cycles [OF cyc(2-7) y]
  have "0 \<le> yd" "yd < (if isLeap y then 366 else 365)"
    using cyc(8-10) yc(4) by auto
  note ok = month_day_ok [OF this md]
  have "days_of y m d = 365 * (y - 1) + (y - 1) div 4 - (y - 1) div 100 + (y - 1) div 400 + yd"
    using ok by (simp add: days_of_def)
  also have "\<dots> = n" using cyc(1) unfolding yc(1-3) by (simp add: y yd)
  finally show ?thesis using ok by (simp add: daysIn_def)
qed
text \<open>The instants of the years 1 to 9999, which are written with four digits.\<close>

definition in_calendar :: "int \<Rightarrow> bool" where
  "in_calendar t \<longleftrightarrow> - 62135596800 * nanos \<le> t \<and> t < 253402300800 * nanos"

lemma civil_year:
  assumes "civil n = (y, m, d)" "0 \<le> n" "n < 3652059"
  shows "1 \<le> y \<and> y \<le> 9999"
proof -
  define a r where ar: "a = n div 146097" "r = n mod 146097"
  define b r1 where br: "b = min 3 (r div 36524)" "r1 = r - 36524 * b"
  define c r4 where cr: "c = r1 div 1461" "r4 = r1 mod 1461"
  define e where e: "e = min 3 (r4 div 365)"
  note cyc = cycles [OF ar br cr e]
  note y = civil_cycles(1) [OF ar br cr e assms(1)]
  have "0 \<le> a" using assms(2) by (simp add: ar)
  moreover have "y \<le> 9999"
  proof (rule ccontr)
    assume "\<not> y \<le> 9999"
    then show False using cyc assms(3) y by (cases "a \<le> 24") linarith+
  qed
  ultimately show ?thesis using y cyc by linarith
qed

section \<open>Formatting and parsing are inverse\<close>

lemma digits_pad: "digits_val (replicate n (CHR ''0'') @ s) = digits_val s"
  by (induction n) (simp_all add: digits_val_def digit_val_def)

lemma nat_str_length: "n < 10 ^ w \<Longrightarrow> 0 < w \<Longrightarrow> length (nat_str n) \<le> w"
proof (induction w arbitrary: n)
  case (Suc w)
  show ?case
  proof (cases "n < 10")
    case True
    then show ?thesis by (simp add: nat_str.simps [of n])
  next
    case False
    then have "0 < w" using Suc.prems by (cases w) auto
    moreover have "n div 10 < 10 ^ w" using Suc.prems by auto
    ultimately show ?thesis using Suc.IH [of "n div 10"] False by (simp add: nat_str.simps [of n])
  qed
qed simp

lemma appendInt_nonneg:
  assumes "0 \<le> x" "x < 10 ^ w" "0 < w"
  shows "length (appendInt x w) = w" "list_all is_digit (appendInt x w)"
    "int (digits_val (appendInt x w)) = x"
proof -
  have "nat x < 10 ^ w" using assms by (simp add: nat_less_iff)
  then have "length (nat_str (nat x)) \<le> w" using nat_str_length assms(3) by blast
  then show "length (appendInt x w) = w" using assms(1) by (simp add: appendInt_def Let_def)
  have "is_digit (CHR ''0'')" by (simp add: is_digit_def)
  then show "list_all is_digit (appendInt x w)"
    using nat_str_digits [of "nat x"] assms(1) by (auto simp: appendInt_def Let_def list_all_iff)
  show "int (digits_val (appendInt x w)) = x"
    using assms(1) by (simp add: appendInt_def Let_def digits_pad digits_val_nat_str)
qed

lemma getnum_appendInt:
  assumes "0 \<le> x" "x < 100"
  shows "getnum fixed (appendInt x 2 @ r) = Some (x, r)"
proof -
  obtain a b where ab: "appendInt x 2 = [a, b]"
    using appendInt_nonneg(1) [of x 2] assms by (auto simp: eval_nat_numeral length_Suc_conv)
  with appendInt_nonneg(2,3) [of x 2] assms show ?thesis
    by (simp add: getnum_def digits_val_def)
qed

lemma get_year_appendInt:
  assumes "0 \<le> y" "y \<le> 9999"
  shows "get_year (appendInt y 4 @ r) = Some (y, r)"
  using appendInt_nonneg [of y 4] assms by (simp add: get_year_def)

lemma get_fraction_none:
  "r = [] \<or> hd r \<noteq> CHR ''.'' \<and> hd r \<noteq> CHR '','' \<Longrightarrow> get_fraction r = (0, r)"
  by (auto simp: get_fraction_def split: list.splits)

lemmas parse_appendInt = getnum_appendInt get_year_appendInt get_fraction_none

lemma second_of_day:
  fixes s :: int
  shows "s = s div 3600 * 3600 + s mod 3600 div 60 * 60 + s mod 60"
proof -
  have "s mod 60 = s mod 3600 mod 60" by (simp add: mod_mod_cancel)
  then show ?thesis using div_mult_mod_eq [of s 3600] div_mult_mod_eq [of "s mod 3600" 60] by linarith
qed

text \<open>The fields every layout of the driver prints for an instant, and what they denote.\<close>

lemma time_fields:
  assumes "in_calendar t"
  obtains y m d h mi s where
    "civil (t div nanos div 86400 + unix_epoch_days) = (y, m, d)"
    "h = t div nanos mod 86400 div 3600" "mi = t div nanos mod 86400 mod 3600 div 60"
    "s = t div nanos mod 86400 mod 60"
    "1 \<le> y" "y \<le> 9999" "1 \<le> m" "m \<le> 12" "1 \<le> d" "d \<le> daysIn m y" "d < 100"
    "0 \<le> h" "h < 24" "0 \<le> mi" "mi < 60" "0 \<le> s" "s < 60"
    "((days_of y m d - unix_epoch_days) * 86400 + h * 3600 + mi * 60 + s) * nanos = t - t mod nanos"
proof -
  let ?secs = "t div nanos"
  let ?n = "?secs div 86400 + unix_epoch_days"
  obtain y m d where c: "civil ?n = (y, m, d)" by (cases "civil ?n")
  have secs: "- 62135596800 \<le> ?secs" "?secs < 253402300800"
    using assms by (auto simp: in_calendar_def nanos_def)
  then have "0 \<le> ?n" "?n < 3652059" by (simp_all add: unix_epoch_days_def)
  note y = civil_year [OF c this]
  note ok = civil_ok [OF c]
  have "daysIn m y \<le> 31"
  proof -
    have "list_all (\<lambda>m. daysBefore ! nat m - daysBefore ! nat (m - 1) \<le> 31) [1..12]"
      by code_simp
    then show ?thesis using ok by (simp add: list_all_iff daysIn_def)
  qed
  define sod where sod: "sod = ?secs mod 86400"
  define h mi s where hms: "h = sod div 3600" "mi = sod mod 3600 div 60" "s = sod mod 60"
  have q: "?secs = ?secs div 86400 * 86400 + sod" by (simp add: sod)
  have "sod = h * 3600 + mi * 60 + s" unfolding hms by (rule second_of_day)
  with q ok have "((days_of y m d - unix_epoch_days) * 86400 + h * 3600 + mi * 60 + s) * nanos
      = ?secs * nanos"
    by (metis (no_types) add.assoc add_diff_cancel_right')
  then have v: "((days_of y m d - unix_epoch_days) * 86400 + h * 3600 + mi * 60 + s) * nanos
      = t - t mod nanos"
    by (simp only: minus_mod_eq_div_mult)
  have "0 \<le> sod" "sod < 86400" by (simp_all add: sod)
  then have "0 \<le> h" "h < 24" "0 \<le> mi" "mi < 60" "0 \<le> s" "s < 60"
    unfolding hms by auto
  with y ok \<open>daysIn m y \<le> 31\<close> v show ?thesis
    by (intro that [OF c hms [unfolded sod]]) auto
qed

lemma RFC3339_roundtrip:
  assumes "in_calendar t"
  shows "time_Parse RFC3339 (time_Format RFC3339 t) = Some (t - t mod nanos)"
proof -
  obtain y m d h mi s where f:
    "civil (t div nanos div 86400 + unix_epoch_days) = (y, m, d)"
    "h = t div nanos mod 86400 div 3600" "mi = t div nanos mod 86400 mod 3600 div 60"
    "s = t div nanos mod 86400 mod 60"
    and r: "1 \<le> y" "y \<le> 9999" "1 \<le> m" "m \<le> 12" "1 \<le> d" "d \<le> daysIn m y" "d < 100"
    "0 \<le> h" "h < 24" "0 \<le> mi" "mi < 60" "0 \<le> s" "s < 60"
    and v: "((days_of y m d - unix_epoch_days) * 86400 + h * 3600 + mi * 60 + s) * nanos = t - t mod nanos"
    by (rule time_fields [OF assms])
  have "time_Format RFC3339 t = appendInt y 4 @ ''-'' @ appendInt m 2 @ ''-'' @ appendInt d 2 @ ''T''
      @ appendInt h 2 @ '':'' @ appendInt mi 2 @ '':'' @ appendInt s 2 @ ''Z''"
    by (simp add: time_Format_def RFC3339_def format_tok_def Let_def f)
  then show ?thesis using r v
    by (simp add: time_Parse_def RFC3339_def parse_tok_def
      parse_appendInt get_zone_def parsed_zero_def time_Date_def)
qed

lemma entry_layout_format:
  assumes "in_calendar t"
  obtains y m d h mi s where
    "time_Format entry_layout t = appendInt y 4 @ appendInt m 2 @ appendInt d 2 @ ''T''
      @ appendInt h 2 @ appendInt mi 2 @ appendInt s 2 @ ''Z''"
    "1 \<le> y" "y \<le> 9999" "1 \<le> m" "m \<le> 12" "1 \<le> d" "d \<le> daysIn m y" "d < 100"
    "0 \<le> h" "h < 24" "0 \<le> mi" "mi < 60" "0 \<le> s" "s < 60"
    "((days_of y m d - unix_epoch_days) * 86400 + h * 3600 + mi * 60 + s) * nanos = t - t mod nanos"
proof -
  obtain y m d h mi s where f:
    "civil (t div nanos div 86400 + unix_epoch_days) = (y, m, d)"
    "h = t div nanos mod 86400 div 3600" "mi = t div nanos mod 86400 mod 3600 div 60"
    "s = t div nanos mod 86400 mod 60"
    and r: "1 \<le> y" "y \<le> 9999" "1 \<le> m" "m \<le> 12" "1 \<le> d" "d \<le> daysIn m y" "d < 100"
    "0 \<le> h" "h < 24" "0 \<le> mi" "mi < 60" "0 \<le> s" "s < 60"
    and v: "((days_of y m d - unix_epoch_days) * 86400 + h * 3600 + mi * 60 + s) * nanos = t - t mod nanos"
    by (rule time_fields [OF assms])
  have "time_Format entry_layout t = appendInt y 4 @ appendInt m 2 @ appendInt d 2 @ ''T''
      @ appendInt h 2 @ appendInt mi 2 @ appendInt s 2 @ ''Z''"
    by (simp add: time_Format_def entry_layout_def format_tok_def Let_def f)
  then show ?thesis using r v by (rule that)
qed

lemma entry_layout_roundtrip:
  assumes "in_calendar t"
  shows "time_Parse entry_layout (time_Format entry_layout t) = Some (t - t mod nanos)"
proof -
  obtain y m d h mi s where f:
    "time_Format entry_layout t = appendInt y 4 @ appendInt m 2 @ appendInt d 2 @ ''T''
      @ appendInt h 2 @ appendInt mi 2 @ appendInt s 2 @ ''Z''"
    and r: "1 \<le> y" "y \<le> 9999" "1 \<le> m" "m \<le> 12" "1 \<le> d" "d \<le> daysIn m y" "d < 100"
    "0 \<le> h" "h < 24" "0 \<le> mi" "mi < 60" "0 \<le> s" "s < 60"
    and v: "((days_of y m d - unix_epoch_days) * 86400 + h * 3600 + mi * 60 + s) * nanos = t - t mod nanos"
    by (rule entry_layout_format [OF assms])
  then show ?thesis using r v unfolding f
    by (simp add: time_Parse_def entry_layout_def parse_tok_def
      parse_appendInt parsed_zero_def time_Date_def)
qed

lemma appendInt_safe: "0 \<le> x \<Longrightarrow> c \<in> set (appendInt x w) \<Longrightarrow> is_digit c"
  using nat_str_digits [of "nat x"] by (auto simp: appendInt_def Let_def list_all_iff is_digit_def)

text \<open>An entry timestamp is sixteen characters, none of them a hyphen or a slash.\<close>

lemma entry_layout_chars:
  assumes "in_calendar t"
  shows "length (time_Format entry_layout t) = 16
    \<and> (\<forall>c \<in> set (time_Format entry_layout t). is_digit c \<or> c = CHR ''T'' \<or> c = CHR ''Z'')"
proof -
  obtain y m d h mi s where f:
    "time_Format entry_layout t = appendInt y 4 @ appendInt m 2 @ appendInt d 2 @ ''T''
      @ appendInt h 2 @ appendInt mi 2 @ appendInt s 2 @ ''Z''"
    and r: "1 \<le> y" "y \<le> 9999" "1 \<le> m" "m \<le> 12" "1 \<le> d" "d \<le> daysIn m y" "d < 100"
    "0 \<le> h" "h < 24" "0 \<le> mi" "mi < 60" "0 \<le> s" "s < 60"
    by (rule entry_layout_format [OF assms]) simp
  have "length (appendInt y 4) = 4" "length (appendInt m 2) = 2" "length (appendInt d 2) = 2"
    "length (appendInt h 2) = 2" "length (appendInt mi 2) = 2" "length (appendInt s 2) = 2"
    using r by (simp_all add: appendInt_nonneg)
  then have "length (time_Format entry_layout t) = 16" unfolding f by simp
  moreover have "\<forall>c \<in> set (time_Format entry_layout t). is_digit c \<or> c = CHR ''T'' \<or> c = CHR ''Z''"
    unfolding f using r by (auto dest: appendInt_safe [rotated])
  ultimately show ?thesis ..
qed

end
