(* ===== verification/Ownership.thy ===== *)
theory Ownership
  imports VolumeID GoTime
begin

text \<open>
  \<^verbatim>\<open>internal/volume/ownership.go\<close> and \<^verbatim>\<open>retired.go\<close>: the marker that proves the driver created a
  dataset, the check every destructive call is gated on, and the markers of delete protection.
\<close>

section \<open>The ownership marker\<close>

definition OwnerIDProperty :: string where "OwnerIDProperty = ''io.truenas.csi:owner-id''"
definition sourceLocal :: string where "sourceLocal = ''LOCAL''"
definition ProtocolProperty :: string where "ProtocolProperty = ''io.truenas.csi:protocol''"

record vproperty =
  vp_Value :: string
  vp_Source :: string

record vdataset =
  vd_ID :: string
  vd_UserProperties :: "string \<rightharpoonup> vproperty"

definition VerifyOwned :: "vdataset option \<Rightarrow> go_error + unit" where
  "VerifyOwned ods =
     (case ods of
        None \<Rightarrow> Inl (Wrapped [Sentinel ErrNotManaged])
      | Some ds \<Rightarrow>
     (case vd_UserProperties ds OwnerProperty of
        None \<Rightarrow> Inl (Wrapped [Sentinel ErrNotManaged])
      | Some prop \<Rightarrow>
          if vp_Value prop \<noteq> OwnerValue then Inl (Wrapped [Sentinel ErrNotManaged])
          else (case vd_UserProperties ds OwnerIDProperty of
                  Some i \<Rightarrow>
                    if vp_Value i \<noteq> vd_ID ds then Inl (Wrapped [Sentinel ErrNotManaged]) else Inr ()
                | None \<Rightarrow>
                    if vp_Source prop \<noteq> sourceLocal then Inl (Wrapped [Sentinel ErrNotManaged])
                    else Inr ())))"

definition StampProperties :: "string \<Rightarrow> (string \<times> string) list" where
  "StampProperties datasetID =
     [(OwnerProperty, OwnerValue)] @ (if datasetID \<noteq> [] then [(OwnerIDProperty, datasetID)] else [])"

definition ProtocolOr :: "string \<Rightarrow> string \<Rightarrow> string" where
  "ProtocolOr recorded fallback = (if recorded = [] then fallback else recorded)"

section \<open>The markers of delete protection\<close>

definition GraveyardProperty :: string where "GraveyardProperty = ''io.truenas.csi:graveyard''"
definition DeletedAtProperty :: string where "DeletedAtProperty = ''io.truenas.csi:deleted-at''"
definition RetiredFromProperty :: string where "RetiredFromProperty = ''io.truenas.csi:retired-from''"
definition GraveyardValue :: string where "GraveyardValue = ''truenas-csi''"

definition IsGraveyard :: "string \<Rightarrow> bool" where
  "IsGraveyard localGraveyardProperty \<longleftrightarrow> localGraveyardProperty = GraveyardValue"

definition IsRetired :: "string \<Rightarrow> bool" where
  "IsRetired localDeletedAt \<longleftrightarrow> localDeletedAt \<noteq> []"

definition FormatDeletedAt :: "int \<Rightarrow> string" where
  "FormatDeletedAt t = time_Format RFC3339 t"

definition ParseDeletedAt :: "string \<Rightarrow> go_error + int" where
  "ParseDeletedAt s =
     (if s = [] then Inl (Plain ''no property'')
      else case time_Parse RFC3339 s of
             None \<Rightarrow> Inl (Wrapped [Plain ''not an RFC 3339 timestamp''])
           | Some t \<Rightarrow> Inr t)"

section \<open>What the check admits\<close>

lemma property_names [simp]:
  "OwnerProperty \<noteq> OwnerIDProperty" "OwnerIDProperty \<noteq> OwnerProperty"
  "OwnerProperty \<noteq> GraveyardProperty" "GraveyardProperty \<noteq> OwnerProperty"
  "OwnerProperty \<noteq> DeletedAtProperty" "DeletedAtProperty \<noteq> OwnerProperty"
  "OwnerProperty \<noteq> RetiredFromProperty" "RetiredFromProperty \<noteq> OwnerProperty"
  "OwnerIDProperty \<noteq> GraveyardProperty" "GraveyardProperty \<noteq> OwnerIDProperty"
  "OwnerIDProperty \<noteq> DeletedAtProperty" "DeletedAtProperty \<noteq> OwnerIDProperty"
  "OwnerIDProperty \<noteq> RetiredFromProperty" "RetiredFromProperty \<noteq> OwnerIDProperty"
  "GraveyardProperty \<noteq> DeletedAtProperty" "DeletedAtProperty \<noteq> GraveyardProperty"
  "GraveyardProperty \<noteq> RetiredFromProperty" "RetiredFromProperty \<noteq> GraveyardProperty"
  "DeletedAtProperty \<noteq> RetiredFromProperty" "RetiredFromProperty \<noteq> DeletedAtProperty"
  by (simp_all add: OwnerProperty_def OwnerIDProperty_def GraveyardProperty_def
      DeletedAtProperty_def RetiredFromProperty_def)

text \<open>The evidence the check accepts.\<close>

definition owned :: "vdataset \<Rightarrow> bool" where
  "owned ds \<longleftrightarrow>
     (\<exists>p. vd_UserProperties ds OwnerProperty = Some p \<and> vp_Value p = OwnerValue
       \<and> (case vd_UserProperties ds OwnerIDProperty of
            Some i \<Rightarrow> vp_Value i = vd_ID ds
          | None \<Rightarrow> vp_Source p = sourceLocal))"

lemma VerifyOwned_ok: "VerifyOwned (Some ds) = Inr () \<longleftrightarrow> owned ds"
  by (auto simp: VerifyOwned_def owned_def split: option.splits)

lemma VerifyOwned_refuses:
  "VerifyOwned ods = Inl e \<Longrightarrow> errors_Is e ErrNotManaged"
  by (auto simp: VerifyOwned_def split: option.splits if_splits)

text \<open>
  A dataset as an appliance reports it: its id, the values its properties were set to, and whatever
  source the appliance gives for each of them.
\<close>

definition reported_dataset :: "string \<Rightarrow> (string \<Rightarrow> string) \<Rightarrow> (string \<times> string) list \<Rightarrow> vdataset" where
  "reported_dataset i src props =
     \<lparr>vd_ID = i,
      vd_UserProperties = (\<lambda>k. map_option (\<lambda>v. \<lparr>vp_Value = v, vp_Source = src k\<rparr>) (map_of props k))\<rparr>"

lemma stamped_owned: "i \<noteq> [] \<Longrightarrow> owned (reported_dataset j src (StampProperties i)) \<longleftrightarrow> j = i"
  by (auto simp: owned_def reported_dataset_def StampProperties_def)

lemma owned_without_source:
  assumes "vd_UserProperties ds OwnerIDProperty = Some i"
  shows "VerifyOwned (Some (ds\<lparr>vd_UserProperties :=
    (\<lambda>k. map_option (\<lambda>p. p\<lparr>vp_Source := src k\<rparr>) (vd_UserProperties ds k))\<rparr>)) = VerifyOwned (Some ds)"
  using assms by (cases "vd_UserProperties ds OwnerProperty") (simp_all add: VerifyOwned_def)



lemma ParseDeletedAt_Format:
  assumes "in_calendar t"
  shows "ParseDeletedAt (FormatDeletedAt t) = Inr (t - t mod nanos)"
proof -
  have "time_Parse RFC3339 [] = None"
    by (simp add: time_Parse_def RFC3339_def parse_tok_def get_year_def)
  with RFC3339_roundtrip [OF assms] have "FormatDeletedAt t \<noteq> []"
    by (auto simp: FormatDeletedAt_def)
  with RFC3339_roundtrip [OF assms] show ?thesis
    by (simp add: ParseDeletedAt_def FormatDeletedAt_def)
qed

text \<open>
  C10. The deletion timestamp survives its journey through a ZFS user property: for every
  instant of the years 1 to 9999 the recorded text parses back to that instant with its
  sub-second part dropped, so a recorded retirement is never later than the real one and less
  than a second earlier. A missing timestamp is always refused.
\<close>

theorem deletedAt_roundtrip:
  "(in_calendar t \<longrightarrow> (\<exists>u. ParseDeletedAt (FormatDeletedAt t) = Inr u \<and> u \<le> t \<and> t < u + nanos))
   \<and> \<not> (\<exists>u. ParseDeletedAt [] = Inr u)"
proof
  have "t - t mod nanos \<le> t \<and> t < t - t mod nanos + nanos" by (simp add: nanos_def)
  then show "in_calendar t \<longrightarrow>
      (\<exists>u. ParseDeletedAt (FormatDeletedAt t) = Inr u \<and> u \<le> t \<and> t < u + nanos)"
    using ParseDeletedAt_Format by auto
  show "\<not> (\<exists>u. ParseDeletedAt [] = Inr u)" by (simp add: ParseDeletedAt_def)
qed

theorem deletedAt_roundtrip_witness:
  "\<exists>u. ParseDeletedAt (FormatDeletedAt 1700000000123456789) = Inr u \<and> u \<le> 1700000000123456789"
  using deletedAt_roundtrip [of 1700000000123456789] by (auto simp: in_calendar_def nanos_def)

end
