(* ===== verification/Json.thy ===== *)
theory Json
  imports GoErrors
begin

text \<open>
  Go's \<^verbatim>\<open>encoding/json\<close>. \<open>json\<close> is a decoded document, the form in which the driver's
  requests and the appliance's answers appear in the model; an object is the list of its
  members. \<open>json_parse\<close> and \<open>json_string\<close> are the text codec, needed where the driver keeps a
  JSON text in a ZFS user property: the whole grammar on the reading side, with Go's treatment
  of escapes, surrogates and invalid encodings, and Go's HTML-safe escaping on the writing side.
\<close>

datatype json =
    JNull
  | JBool bool
  | JInt int
  | JReal string
  | JStr string
  | JArr "json list"
  | JObj "(string \<times> json) list"

definition jget :: "string \<Rightarrow> (string \<times> json) list \<Rightarrow> json option" where
  "jget k kvs = map_of kvs k"

section \<open>Code points as bytes\<close>

definition encode_rune :: "nat \<Rightarrow> string" where
  "encode_rune r0 =
     (let r = (if r0 > 1114111 \<or> (55296 \<le> r0 \<and> r0 \<le> 57343) then 65533 else r0)
      in map char_of
          (if r < 128 then [r]
           else if r < 2048 then [192 + r div 64, 128 + r mod 64]
           else if r < 65536 then [224 + r div 4096, 128 + r div 64 mod 64, 128 + r mod 64]
           else [240 + r div 262144, 128 + r div 4096 mod 64, 128 + r div 64 mod 64, 128 + r mod 64]))"

section \<open>Writing strings\<close>

definition hex_char :: "nat \<Rightarrow> char" where
  "hex_char d = (if d < 10 then char_of (48 + d) else char_of (87 + d))"

definition html_safe :: "nat \<Rightarrow> bool" where
  "html_safe b \<longleftrightarrow> 32 \<le> b \<and> b < 128 \<and> b \<noteq> 34 \<and> b \<noteq> 38 \<and> b \<noteq> 60 \<and> b \<noteq> 62 \<and> b \<noteq> 92"

definition backslash :: char where "backslash = CHR 0x5C"

definition quote_char :: char where "quote_char = CHR 0x22"

definition escape_chunk :: "nat \<times> string \<Rightarrow> string" where
  "escape_chunk ch =
     (case ch of (r, bs) \<Rightarrow>
        if r < 128 then
          (if html_safe r then [char_of r]
           else if r = 92 \<or> r = 34 then [backslash, char_of r]
           else if r = 8 then [backslash, CHR ''b'']
           else if r = 12 then [backslash, CHR ''f'']
           else if r = 10 then [backslash, CHR ''n'']
           else if r = 13 then [backslash, CHR ''r'']
           else if r = 9 then [backslash, CHR ''t'']
           else [backslash, CHR ''u'', CHR ''0'', CHR ''0'', hex_char (r div 16), hex_char (r mod 16)])
        else if r = 65533 \<and> length bs = 1 then backslash # ''ufffd''
        else if r = 8232 \<or> r = 8233 then backslash # ''u202'' @ [hex_char (r mod 16)]
        else bs)"

definition json_string :: "string \<Rightarrow> string" where
  "json_string s = quote_char # concat (map escape_chunk (rune_chunks s)) @ [quote_char]"

section \<open>Reading\<close>

definition hex_val :: "char \<Rightarrow> nat option" where
  "hex_val c =
     (let b = of_char c :: nat
      in if 48 \<le> b \<and> b \<le> 57 then Some (b - 48)
         else if 97 \<le> b \<and> b \<le> 102 then Some (b - 87)
         else if 65 \<le> b \<and> b \<le> 70 then Some (b - 55)
         else None)"

text \<open>The four hexadecimal digits after \<^verbatim>\<open>u\<close>, and what follows them.\<close>

definition hex4 :: "string \<Rightarrow> (nat \<times> string) option" where
  "hex4 s =
     (case s of
        a # b # c # d # r \<Rightarrow>
          (case (hex_val a, hex_val b, hex_val c, hex_val d) of
             (Some w, Some x, Some y, Some z) \<Rightarrow> Some (((w * 16 + x) * 16 + y) * 16 + z, r)
           | _ \<Rightarrow> None)
      | _ \<Rightarrow> None)"

definition is_surrogate :: "nat \<Rightarrow> bool" where
  "is_surrogate r \<longleftrightarrow> 55296 \<le> r \<and> r \<le> 57343"

text \<open>
  A \<^verbatim>\<open>u\<close> escape: a surrogate is combined with the escape that follows when the two form a
  pair, and is replaced by U+FFFD otherwise.
\<close>

definition unescape_u :: "string \<Rightarrow> (string \<times> string) option" where
  "unescape_u s =
     (case hex4 s of
        None \<Rightarrow> None
      | Some (r, rest) \<Rightarrow>
          if \<not> is_surrogate r then Some (encode_rune r, rest)
          else (case (if take 2 rest = [backslash, CHR ''u''] then hex4 (drop 2 rest) else None) of
                  Some (r2, rest2) \<Rightarrow>
                    if r \<le> 56319 \<and> 56320 \<le> r2 \<and> r2 \<le> 57343
                    then Some (encode_rune ((r - 55296) * 1024 + (r2 - 56320) + 65536), rest2)
                    else Some (encode_rune 65533, rest)
                | None \<Rightarrow> Some (encode_rune 65533, rest)))"

definition unescape :: "string \<Rightarrow> (string \<times> string) option" where
  "unescape s =
     (case s of
        [] \<Rightarrow> None
      | c # r \<Rightarrow>
          if c = quote_char \<or> c = backslash \<or> c = CHR ''/'' then Some ([c], r)
          else if c = CHR ''b'' then Some ([char_of (8 :: nat)], r)
          else if c = CHR ''f'' then Some ([char_of (12 :: nat)], r)
          else if c = CHR ''n'' then Some ([char_of (10 :: nat)], r)
          else if c = CHR ''r'' then Some ([char_of (13 :: nat)], r)
          else if c = CHR ''t'' then Some ([char_of (9 :: nat)], r)
          else if c = CHR ''u'' then unescape_u r
          else None)"

text \<open>One character or escape of a string literal: the bytes it denotes and what follows.\<close>

definition string_step :: "string \<Rightarrow> (string \<times> string) option" where
  "string_step s =
     (case s of
        [] \<Rightarrow> None
      | c # r \<Rightarrow>
          if c = backslash then unescape r
          else if (of_char c :: nat) < 32 then None
          else if (of_char c :: nat) < 128 then Some ([c], r)
          else (case decode_rune (map of_char s) of (rn, w) \<Rightarrow> Some (encode_rune rn, drop (max 1 w) s)))"

fun string_body :: "nat \<Rightarrow> string \<Rightarrow> (string \<times> string) option" where
  "string_body 0 s = None"
| "string_body (Suc n) s =
     (if s \<noteq> [] \<and> hd s = quote_char then Some ([], tl s)
      else (case string_step s of
              None \<Rightarrow> None
            | Some (bs, r) \<Rightarrow> map_option (\<lambda>(t, r'). (bs @ t, r')) (string_body n r)))"

text \<open>Every step consumes a byte, so the length of the input is enough fuel.\<close>

definition parse_string :: "string \<Rightarrow> (string \<times> string) option" where
  "parse_string s = string_body (Suc (length s)) s"

definition is_ws :: "char \<Rightarrow> bool" where
  "is_ws c \<longleftrightarrow> (of_char c :: nat) \<in> {9, 10, 13, 32}"

definition skip_ws :: "string \<Rightarrow> string" where
  "skip_ws s = dropWhile is_ws s"

text \<open>A number literal: its integer part, then an optional fraction and exponent.\<close>

definition number_frac :: "string \<Rightarrow> (bool \<times> string) option" where
  "number_frac s =
     (if s \<noteq> [] \<and> hd s = CHR ''.'' then
        (if takeWhile is_digit (tl s) = [] then None else Some (True, dropWhile is_digit (tl s)))
      else Some (False, s))"

definition number_exp :: "string \<Rightarrow> (bool \<times> string) option" where
  "number_exp s =
     (if s \<noteq> [] \<and> (hd s = CHR ''e'' \<or> hd s = CHR ''E'') then
        (let q = (if tl s \<noteq> [] \<and> (hd (tl s) = CHR ''+'' \<or> hd (tl s) = CHR ''-'') then tl (tl s) else tl s)
         in if takeWhile is_digit q = [] then None else Some (True, dropWhile is_digit q))
      else Some (False, s))"

definition parse_number :: "string \<Rightarrow> (json \<times> string) option" where
  "parse_number s =
     (let neg = (s \<noteq> [] \<and> hd s = CHR ''-'');
          q = (if neg then tl s else s);
          ip = takeWhile is_digit q
      in if ip = [] \<or> (hd ip = CHR ''0'' \<and> length ip > 1) then None
         else (case number_frac (dropWhile is_digit q) of
                 None \<Rightarrow> None
               | Some (frac, s1) \<Rightarrow>
                   (case number_exp s1 of
                      None \<Rightarrow> None
                    | Some (ex, rest) \<Rightarrow>
                        if frac \<or> ex then Some (JReal (take (length s - length rest) s), rest)
                        else Some (JInt (if neg then - int (digits_val ip) else int (digits_val ip)), rest))))"

definition parse_literal :: "string \<Rightarrow> (json \<times> string) option" where
  "parse_literal s =
     (case cut_prefix ''null'' s of
        Some r \<Rightarrow> Some (JNull, r)
      | None \<Rightarrow>
     (case cut_prefix ''true'' s of
        Some r \<Rightarrow> Some (JBool True, r)
      | None \<Rightarrow>
     (case cut_prefix ''false'' s of
        Some r \<Rightarrow> Some (JBool False, r)
      | None \<Rightarrow> parse_number s)))"

fun parse_value :: "nat \<Rightarrow> string \<Rightarrow> (json \<times> string) option"
  and parse_elems :: "nat \<Rightarrow> string \<Rightarrow> (json list \<times> string) option"
  and parse_members :: "nat \<Rightarrow> string \<Rightarrow> ((string \<times> json) list \<times> string) option"
where
  "parse_value 0 s = None"
| "parse_value (Suc n) s =
     (case skip_ws s of
        [] \<Rightarrow> None
      | c # r \<Rightarrow>
          if c = quote_char then map_option (\<lambda>(t, r'). (JStr t, r')) (parse_string r)
          else if c = CHR ''['' then
            (case skip_ws r of
               [] \<Rightarrow> None
             | d # r' \<Rightarrow> if d = CHR '']'' then Some (JArr [], r')
                       else map_option (\<lambda>(vs, q). (JArr vs, q)) (parse_elems n r))
          else if c = CHR ''{'' then
            (case skip_ws r of
               [] \<Rightarrow> None
             | d # r' \<Rightarrow> if d = CHR ''}'' then Some (JObj [], r')
                       else map_option (\<lambda>(ms, q). (JObj ms, q)) (parse_members n r))
          else parse_literal (c # r))"
| "parse_elems 0 s = None"
| "parse_elems (Suc n) s =
     (case parse_value n s of
        None \<Rightarrow> None
      | Some (v, r) \<Rightarrow>
          (case skip_ws r of
             [] \<Rightarrow> None
           | c # r' \<Rightarrow>
               if c = CHR '']'' then Some ([v], r')
               else if c = CHR '','' then map_option (\<lambda>(vs, q). (v # vs, q)) (parse_elems n r')
               else None))"
| "parse_members 0 s = None"
| "parse_members (Suc n) s =
     (case skip_ws s of
        [] \<Rightarrow> None
      | c # r \<Rightarrow>
          if c \<noteq> quote_char then None
          else (case parse_string r of
                  None \<Rightarrow> None
                | Some (k, r1) \<Rightarrow>
                    (case skip_ws r1 of
                       [] \<Rightarrow> None
                     | d # r2 \<Rightarrow>
                         if d \<noteq> CHR '':'' then None
                         else (case parse_value n r2 of
                                 None \<Rightarrow> None
                               | Some (v, r3) \<Rightarrow>
                                   (case skip_ws r3 of
                                      [] \<Rightarrow> None
                                    | e # r4 \<Rightarrow>
                                        if e = CHR ''}'' then Some ([(k, v)], r4)
                                        else if e = CHR '','' then
                                          map_option (\<lambda>(ms, q). ((k, v) # ms, q)) (parse_members n r4)
                                        else None)))))"

text \<open>
  A document. Every nested call but the first into an array or object has consumed a byte, so
  twice the length of the text is enough fuel.
\<close>

definition json_parse :: "string \<Rightarrow> json option" where
  "json_parse s =
     (case parse_value (2 * length s + 2) s of
        Some (v, r) \<Rightarrow> if skip_ws r = [] then Some v else None
      | None \<Rightarrow> None)"

section \<open>Writing documents\<close>

text \<open>\<^verbatim>\<open>json.Marshal\<close>; the members of an object are in the order given.\<close>

fun json_text :: "json \<Rightarrow> string" where
  "json_text JNull = ''null''"
| "json_text (JBool b) = (if b then ''true'' else ''false'')"
| "json_text (JInt n) = FormatInt n"
| "json_text (JReal l) = l"
| "json_text (JStr s) = json_string s"
| "json_text (JArr vs) = ''['' @ join_with '','' (map json_text vs) @ '']''"
| "json_text (JObj kvs) =
     ''{'' @ join_with '','' (map (\<lambda>(k, v). json_string k @ '':'' @ json_text v) kvs) @ ''}''"

section \<open>What is written reads back\<close>

lemma hex_char_val: "d < 16 \<Longrightarrow> hex_val (hex_char d) = Some d"
  by (auto simp: hex_val_def hex_char_def Let_def)

lemma string_step_escapes:
  "c \<in> {quote_char, backslash} \<Longrightarrow> string_step (backslash # c # r) = Some ([c], r)"
  "string_step (backslash # CHR ''b'' # r) = Some ([char_of (8 :: nat)], r)"
  "string_step (backslash # CHR ''f'' # r) = Some ([char_of (12 :: nat)], r)"
  "string_step (backslash # CHR ''n'' # r) = Some ([char_of (10 :: nat)], r)"
  "string_step (backslash # CHR ''r'' # r) = Some ([char_of (13 :: nat)], r)"
  "string_step (backslash # CHR ''t'' # r) = Some ([char_of (9 :: nat)], r)"
  "string_step (backslash # CHR ''u'' # r) = unescape_u r"
  by (auto simp: string_step_def unescape_def backslash_def quote_char_def)

lemma escape_step:
  assumes "(of_char c :: nat) < 128"
  shows "string_step (escape_chunk (of_char c, [c]) @ r) = Some ([c], r)
    \<and> escape_chunk (of_char c, [c]) \<noteq> [] \<and> hd (escape_chunk (of_char c, [c])) \<noteq> quote_char"
proof -
  define b where b: "b = (of_char c :: nat)"
  have c: "c = char_of b" by (simp add: b)
  have bs: "char_of (92 :: nat) = backslash" "char_of (34 :: nat) = quote_char" "backslash \<noteq> quote_char"
    by code_simp+
  consider "html_safe b" | "b = 92 \<or> b = 34" | "b = 8 \<or> b = 9 \<or> b = 10 \<or> b = 12 \<or> b = 13"
    | "\<not> html_safe b" "b \<notin> {92, 34, 8, 9, 10, 12, 13}" by blast
  then show ?thesis
  proof cases
    case 1
    have "c \<noteq> backslash" "c \<noteq> quote_char" "32 \<le> b"
      using 1 unfolding b by (auto simp: html_safe_def backslash_def quote_char_def)
    with 1 assms show ?thesis by (simp add: escape_chunk_def string_step_def b)
  next
    case 2
    then have "(b = 92 \<and> c = backslash) \<or> (b = 34 \<and> c = quote_char)" using c bs by auto
    then show ?thesis
      unfolding b [symmetric]
      by (elim disjE conjE) (simp_all add: escape_chunk_def html_safe_def bs string_step_escapes)
  next
    case 3
    with c have "b = 8 \<and> c = char_of (8 :: nat) \<or> b = 9 \<and> c = char_of (9 :: nat)
      \<or> b = 10 \<and> c = char_of (10 :: nat) \<or> b = 12 \<and> c = char_of (12 :: nat)
      \<or> b = 13 \<and> c = char_of (13 :: nat)" by auto
    then show ?thesis
      unfolding b [symmetric]
      by (elim disjE conjE) (simp_all add: escape_chunk_def html_safe_def bs string_step_escapes)
  next
    case 4
    have h: "hex_val (CHR ''0'') = Some 0" by (simp add: hex_val_def)
    have lt: "b < 128" using assms b by simp
    then have "b div 16 < 16" "b mod 16 < 16" by auto
    then have "hex4 (CHR ''0'' # CHR ''0'' # hex_char (b div 16) # hex_char (b mod 16) # r) = Some (b, r)"
      by (simp add: hex4_def h hex_char_val)
    with lt have u: "unescape_u (CHR ''0'' # CHR ''0'' # hex_char (b div 16) # hex_char (b mod 16) # r)
        = Some ([char_of b], r)"
      by (simp add: unescape_u_def is_surrogate_def encode_rune_def)
    show ?thesis
      unfolding b [symmetric] using 4 lt c
      by (simp add: escape_chunk_def string_step_escapes u bs)
  qed
qed

lemma string_body_escaped:
  assumes "ascii s" "length s < n"
  shows "string_body n (concat (map escape_chunk (rune_chunks s)) @ quote_char # r) = Some (s, r)"
  using assms
proof (induction s arbitrary: n)
  case Nil
  then show ?case by (cases n) simp_all
next
  case (Cons c s)
  then obtain m where n: "n = Suc m" by (cases n) auto
  have a: "(of_char c :: nat) < 128" "ascii s" using Cons.prems by (simp_all add: ascii_def)
  let ?rest = "concat (map escape_chunk (rune_chunks s)) @ quote_char # r"
  have ih: "string_body m ?rest = Some (s, r)" using Cons a n by simp
  note st = escape_step [OF a(1), of ?rest]
  have "concat (map escape_chunk (rune_chunks (c # s))) @ quote_char # r
      = escape_chunk (of_char c, [c]) @ ?rest"
    using Cons.prems(1) a(2) by simp
  with st ih show ?case by (simp add: n)
qed

lemma parse_string_json_string:
  assumes "ascii s"
  shows "parse_string (concat (map escape_chunk (rune_chunks s)) @ quote_char # r) = Some (s, r)"
proof -
  have "length s \<le> length (concat (map escape_chunk (rune_chunks s)))"
    using assms
  proof (induction s)
    case (Cons c s)
    then have a: "(of_char c :: nat) < 128" "ascii s" by (simp_all add: ascii_def)
    have "1 \<le> length (escape_chunk (of_char c, [c]))"
      using escape_step [OF a(1)] by (simp add: Suc_le_eq)
    with Cons a show ?case by simp
  qed simp
  then show ?thesis unfolding parse_string_def by (intro string_body_escaped [OF assms]) simp
qed

text \<open>The documents the round trip is stated for: ASCII strings and integer numbers.\<close>

fun plain_json :: "json \<Rightarrow> bool" where
  "plain_json (JReal l) = False"
| "plain_json (JStr s) = ascii s"
| "plain_json (JArr vs) = list_all plain_json vs"
| "plain_json (JObj kvs) = list_all (\<lambda>(k, v). ascii k \<and> plain_json v) kvs"
| "plain_json _ = True"

text \<open>How deep the recursive descent goes, and that the text is long enough to allow it.\<close>

fun need :: "json \<Rightarrow> nat" where
  "need (JArr vs) = Suc (sum_list (map (\<lambda>v. Suc (need v)) vs))"
| "need (JObj kvs) = Suc (sum_list (map (\<lambda>(k, v). Suc (need v)) kvs))"
| "need _ = 1"

lemma join_length: "length (join_with [c] xs) = sum_list (map length xs) + (length xs - 1)"
  by (induction "[c]" xs rule: join_with.induct) auto

lemma FormatInt_not_Nil [simp]: "FormatInt n \<noteq> []"
  using nat_str_digits [of "nat n"] by (auto simp: FormatInt_def)

lemmas need_cases = need.induct [case_names arr obj null bool int num str]

lemma need_le: "need v \<le> 2 * length (json_text v)" if "plain_json v"
  using that
proof (induction v rule: need_cases)
  case (arr vs)
  then have "sum_list (map (\<lambda>v. Suc (need v)) vs) \<le> sum_list (map (\<lambda>v. Suc (2 * length (json_text v))) vs)"
    by (intro sum_list_mono) (auto simp: list_all_iff)
  also have "\<dots> = length vs + 2 * sum_list (map (length \<circ> json_text) vs)"
    by (induction vs) auto
  finally show ?case by (simp add: join_length comp_def)
next
  case (obj kvs)
  then have "sum_list (map (\<lambda>(k, v). Suc (need v)) kvs)
      \<le> sum_list (map (\<lambda>(k, v). Suc (2 * length (json_text v))) kvs)"
    by (intro sum_list_mono) (fastforce simp: list_all_iff)
  also have "\<dots> \<le> length kvs + 2 * sum_list (map (length \<circ> (\<lambda>(k, v). json_string k @ '':'' @ json_text v)) kvs)"
    by (induction kvs) auto
  finally show ?case by (simp add: join_length comp_def)
next
  case (int n)
  then show ?case by (simp add: Suc_le_eq)
qed (auto simp: json_string_def)

text \<open>What may follow a number so that it is read to its end and no further.\<close>

definition ends_number :: "string \<Rightarrow> bool" where
  "ends_number r \<longleftrightarrow> r = [] \<or> (\<not> is_digit (hd r) \<and> hd r \<notin> {CHR ''.'', CHR ''e'', CHR ''E''})"

lemma nat_str_leading: "0 < n \<Longrightarrow> hd (nat_str n) \<noteq> CHR ''0''"
proof (induction n rule: nat_str.induct)
  case (1 n)
  show ?case
  proof (cases "n < 10")
    case True
    then have "digit_val (hd (nat_str n)) = n" by (simp add: nat_str.simps [of n])
    with 1 show ?thesis by (auto simp: digit_val_def)
  next
    case False
    with 1 have "hd (nat_str (n div 10)) \<noteq> CHR ''0''" by simp
    with False show ?thesis using nat_str_digits [of "n div 10"] by (simp add: nat_str.simps [of n])
  qed
qed

lemma takeWhile_digits:
  assumes "list_all is_digit s" "ends_number r"
  shows "takeWhile is_digit (s @ r) = s" "dropWhile is_digit (s @ r) = r"
  using assms by (cases r; auto simp: list_all_iff ends_number_def)+

lemma parse_number_FormatInt:
  assumes "ends_number r"
  shows "parse_number (FormatInt n @ r) = Some (JInt n, r)"
proof -
  define k where k: "k = nat \<bar>n\<bar>"
  have digs: "list_all is_digit (nat_str k)" "nat_str k \<noteq> []" using nat_str_digits [of k] by auto
  note tw = takeWhile_digits [OF digs(1) assms]
  have lead: "\<not> (hd (nat_str k) = CHR ''0'' \<and> 1 < length (nat_str k))"
    using nat_str_leading [of k] by (cases "k = 0") (auto simp: nat_str.simps [of 0])
  have hd: "hd (nat_str k) \<noteq> CHR ''-''" using digs by (cases "nat_str k") auto
  have r: "number_frac r = Some (False, r)" "number_exp r = Some (False, r)"
    using assms by (auto simp: ends_number_def number_frac_def number_exp_def)
  show ?thesis
  proof (cases "n < 0")
    case True
    then have f: "FormatInt n = CHR ''-'' # nat_str k" by (simp add: FormatInt_def k)
    have "parse_number (FormatInt n @ r) = Some (JInt (- int (digits_val (nat_str k))), r)"
      using lead digs unfolding f by (simp add: parse_number_def Let_def tw r)
    then show ?thesis using True by (simp add: digits_val_nat_str k)
  next
    case False
    then have f: "FormatInt n = nat_str k" by (simp add: FormatInt_def k)
    have "parse_number (FormatInt n @ r) = Some (JInt (int (digits_val (nat_str k))), r)"
      using lead digs hd unfolding f by (simp add: parse_number_def Let_def tw r)
    then show ?thesis using False by (simp add: digits_val_nat_str k)
  qed
qed

lemma json_text_head:
  assumes "plain_json v"
  shows "json_text v \<noteq> [] \<and> \<not> is_ws (hd (json_text v)) \<and> hd (json_text v) \<notin> set ''],}:''"
proof (cases v)
  case (JInt n)
  have "is_digit (hd (nat_str m))" for m using nat_str_digits [of m] by (cases "nat_str m") auto
  then have "is_digit (hd (FormatInt n)) \<or> hd (FormatInt n) = CHR ''-''" by (simp add: FormatInt_def)
  then show ?thesis unfolding JInt by (auto simp: is_digit_def is_ws_def)
qed (use assms in \<open>auto simp: json_string_def quote_char_def is_ws_def\<close>)

lemma skip_ws_id: "s \<noteq> [] \<Longrightarrow> \<not> is_ws (hd s) \<Longrightarrow> skip_ws s = s"
  by (cases s) (auto simp: skip_ws_def)

lemma skip_ws_literals [simp]:
  "skip_ws (CHR ''['' # r) = CHR ''['' # r" "skip_ws (CHR '']'' # r) = CHR '']'' # r"
  "skip_ws (CHR ''{'' # r) = CHR ''{'' # r" "skip_ws (CHR ''}'' # r) = CHR ''}'' # r"
  "skip_ws (CHR '','' # r) = CHR '','' # r" "skip_ws (CHR '':'' # r) = CHR '':'' # r"
  "skip_ws (quote_char # r) = quote_char # r"
  by (simp_all add: skip_ws_def is_ws_def quote_char_def)

lemma quote_char_neq [simp]:
  "CHR ''['' \<noteq> quote_char" "CHR ''{'' \<noteq> quote_char" "quote_char \<noteq> CHR ''}''"
  by (simp_all add: quote_char_def)

lemma parse_literal_text:
  assumes "v = JNull \<or> v = JBool b \<or> v = JInt n" "ends_number r"
  shows "parse_literal (json_text v @ r) = Some (v, r)"
  using assms(1)
proof (elim disjE)
  assume v: "v = JInt n"
  have "is_digit (hd (nat_str m))" for m using nat_str_digits [of m] by (cases "nat_str m") auto
  then have "is_digit (hd (FormatInt n)) \<or> hd (FormatInt n) = CHR ''-''" by (simp add: FormatInt_def)
  then obtain c t where c: "FormatInt n = c # t" "is_digit c \<or> c = CHR ''-''"
    using FormatInt_not_Nil by (metis list.collapse)
  then have "cut_prefix ''null'' (FormatInt n @ r) = None" "cut_prefix ''true'' (FormatInt n @ r) = None"
    "cut_prefix ''false'' (FormatInt n @ r) = None"
    by (auto simp: cut_prefix_def has_prefix_def is_digit_def)
  then show ?thesis using parse_number_FormatInt [OF assms(2)] v by (simp add: parse_literal_def)
qed (auto simp: parse_literal_def cut_prefix_def has_prefix_def)

text \<open>An element list and a member list read back when their values do.\<close>

lemma parse_elems_text:
  assumes "vs \<noteq> []" "list_all plain_json vs" "sum_list (map (\<lambda>v. Suc (need v)) vs) \<le> n"
    and "\<And>v m q. v \<in> set vs \<Longrightarrow> need v \<le> m \<Longrightarrow> ends_number q \<Longrightarrow>
      parse_value m (json_text v @ q) = Some (v, q)"
  shows "parse_elems n (join_with '','' (map json_text vs) @ CHR '']'' # r) = Some (vs, r)"
  using assms
proof (induction vs arbitrary: n)
  case (Cons v vs)
  then obtain m where n: "n = Suc m" "need v \<le> m" "sum_list (map (\<lambda>v. Suc (need v)) vs) \<le> m"
    by (cases n) auto
  have e: "ends_number (CHR '']'' # q)" "ends_number (CHR '','' # q)" for q
    by (simp_all add: ends_number_def is_digit_def)
  show ?case
  proof (cases "vs = []")
    case True
    then show ?thesis using Cons.prems(4) [of v m] n e by simp
  next
    case False
    then have "join_with '','' (map json_text (v # vs)) =
        json_text v @ CHR '','' # join_with '','' (map json_text vs)"
      by (cases vs) simp_all
    then show ?thesis
      using Cons.prems(4) [of v m "CHR '','' # join_with '','' (map json_text vs) @ CHR '']'' # r"]
        Cons.IH [of m] Cons.prems False n e by simp
  qed
qed simp

definition member_text :: "string \<times> json \<Rightarrow> string" where
  "member_text kv = (case kv of (k, v) \<Rightarrow> json_string k @ '':'' @ json_text v)"

lemma parse_members_text:
  assumes "kvs \<noteq> []" "list_all (\<lambda>(k, v). ascii k \<and> plain_json v) kvs"
    and "sum_list (map (\<lambda>(k, v). Suc (need v)) kvs) \<le> n"
    and "\<And>k v m q. (k, v) \<in> set kvs \<Longrightarrow> need v \<le> m \<Longrightarrow> ends_number q \<Longrightarrow>
      parse_value m (json_text v @ q) = Some (v, q)"
  shows "parse_members n (join_with '','' (map member_text kvs) @ CHR ''}'' # r) = Some (kvs, r)"
  using assms
proof (induction kvs arbitrary: n)
  case (Cons kv kvs)
  obtain k v where kv: "kv = (k, v)" by fastforce
  with Cons.prems obtain m where n: "n = Suc m" "need v \<le> m"
    "sum_list (map (\<lambda>(k, v). Suc (need v)) kvs) \<le> m"
    by (cases n) auto
  have k: "ascii k" using Cons.prems kv by simp
  have pv: "parse_value m (json_text v @ q) = Some (v, q)" if "ends_number q" for q
    using Cons.prems(4) [of k v m q] kv n that by simp
  have e: "ends_number (CHR ''}'' # q)" "ends_number (CHR '','' # q)" for q
    by (simp_all add: ends_number_def is_digit_def)
  have mt: "member_text kv @ q =
      quote_char # concat (map escape_chunk (rune_chunks k)) @ quote_char # CHR '':'' # json_text v @ q" for q
    by (simp add: member_text_def kv json_string_def)
  show ?case
  proof (cases "kvs = []")
    case True
    then show ?thesis using pv e parse_string_json_string [OF k] by (simp add: n kv [symmetric] mt)
  next
    case False
    then have j: "join_with '','' (map member_text (kv # kvs)) @ q =
        member_text kv @ CHR '','' # join_with '','' (map member_text kvs) @ q" for q
      by (cases kvs) simp_all
    have ih: "parse_members m (join_with '','' (map member_text kvs) @ CHR ''}'' # r) = Some (kvs, r)"
      using Cons.IH [of m] Cons.prems False n by auto
    show ?thesis unfolding j mt using pv e parse_string_json_string [OF k] ih by (simp add: n) (simp add: kv)
  qed
qed simp

lemma parse_value_text:
  assumes "plain_json v" "need v \<le> n" "ends_number r"
  shows "parse_value n (json_text v @ r) = Some (v, r)"
  using assms
proof (induction v arbitrary: n r rule: need_cases)
  case (arr vs)
  then obtain m where n: "n = Suc m" "sum_list (map (\<lambda>v. Suc (need v)) vs) \<le> m" by (cases n) auto
  show ?case
  proof (cases "vs = []")
    case True
    then show ?thesis by (simp add: n)
  next
    case False
    have pe: "parse_elems m (join_with '','' (map json_text vs) @ CHR '']'' # r) = Some (vs, r)"
      by (rule parse_elems_text [OF False]) (use arr n in \<open>auto simp: list_all_iff\<close>)
    obtain v ws where vs: "vs = v # ws" using False by (cases vs) auto
    then have "plain_json v" using arr by simp
    from json_text_head [OF this] obtain c t where c: "json_text v = c # t" "\<not> is_ws c" "c \<noteq> CHR '']''"
      by (cases "json_text v") auto
    have "\<exists>u. join_with '','' (map json_text vs) @ CHR '']'' # r = c # u"
      using c vs by (cases ws) auto
    then obtain u where u: "join_with '','' (map json_text vs) @ CHR '']'' # r = c # u" ..
    have "json_text (JArr vs) @ r = CHR ''['' # join_with '','' (map json_text vs) @ CHR '']'' # r" by simp
    then show ?thesis using pe c unfolding u by (simp add: n skip_ws_id [of "c # u"])
  qed
next
  case (obj kvs)
  then obtain m where n: "n = Suc m" "sum_list (map (\<lambda>(k, v). Suc (need v)) kvs) \<le> m" by (cases n) auto
  have mt: "map (\<lambda>(k, v). json_string k @ '':'' @ json_text v) kvs = map member_text kvs"
    by (simp add: member_text_def)
  show ?case
  proof (cases "kvs = []")
    case True
    then show ?thesis by (simp add: n)
  next
    case False
    have pe: "parse_members m (join_with '','' (map member_text kvs) @ CHR ''}'' # r) = Some (kvs, r)"
      by (rule parse_members_text [OF False]) (use obj n in \<open>auto simp: list_all_iff\<close>)
    obtain kv ws where vs: "kvs = kv # ws" using False by (cases kvs) auto
    have "\<exists>u. join_with '','' (map member_text kvs) @ CHR ''}'' # r = quote_char # u"
      using vs by (cases ws) (auto simp: member_text_def json_string_def split: prod.splits)
    then obtain u where u: "join_with '','' (map member_text kvs) @ CHR ''}'' # r = quote_char # u" ..
    have "json_text (JObj kvs) @ r = CHR ''{'' # join_with '','' (map member_text kvs) @ CHR ''}'' # r"
      unfolding json_text.simps mt by simp
    then have "json_text (JObj kvs) @ r = CHR ''{'' # quote_char # u" unfolding u .
    then show ?thesis using pe unfolding u by (simp add: n del: json_text.simps)
  qed
next
  case (str s)
  then obtain m where "n = Suc m" by (cases n) auto
  with str show ?case
    using parse_string_json_string [of s r] by (simp add: json_string_def)
next
  case null
  then obtain m where "n = Suc m" by (cases n) auto
  then show ?case
    using parse_literal_text [of JNull b i r] null json_text_head [of JNull] by (simp add: skip_ws_id quote_char_def)
next
  case (bool b)
  then obtain m where "n = Suc m" by (cases n) auto
  then show ?case
    using parse_literal_text [of "JBool b" b i r] bool json_text_head [of "JBool b"]
    by (auto simp: skip_ws_id quote_char_def)
next
  case (int i)
  then obtain m where n: "n = Suc m" by (cases n) auto
  obtain c t where c: "FormatInt i = c # t" by (cases "FormatInt i") auto
  have "is_digit (hd (nat_str k))" for k using nat_str_digits [of k] by (cases "nat_str k") auto
  then have "is_digit (hd (FormatInt i)) \<or> hd (FormatInt i) = CHR ''-''" by (simp add: FormatInt_def)
  then have "c \<noteq> quote_char" "c \<noteq> CHR ''[''" "c \<noteq> CHR ''{''"
    unfolding c by (auto simp: is_digit_def quote_char_def)
  then show ?case
    using parse_literal_text [of "JInt i" b i r] int json_text_head [of "JInt i"] n c
    by (simp add: skip_ws_id)
qed simp

lemma json_roundtrip:
  assumes "plain_json v"
  shows "json_parse (json_text v) = Some v"
  using parse_value_text [OF assms, of "2 * length (json_text v) + 2" "[]"] need_le [OF assms]
  by (simp add: json_parse_def ends_number_def skip_ws_def)

section \<open>Decoding into Go values\<close>

text \<open>
  A field of a decoded struct: absent and null leave the zero value, any other type is an
  error. Keys are matched exactly and are distinct in an object; Go would also accept a spelling
  that differs in case.
\<close>

definition string_field :: "string \<Rightarrow> (string \<times> json) list \<Rightarrow> string option" where
  "string_field k kvs =
     (case jget k kvs of
        None \<Rightarrow> Some [] | Some JNull \<Rightarrow> Some [] | Some (JStr s) \<Rightarrow> Some s | Some _ \<Rightarrow> None)"

definition int_field :: "string \<Rightarrow> (string \<times> json) list \<Rightarrow> int option" where
  "int_field k kvs =
     (case jget k kvs of
        None \<Rightarrow> Some 0 | Some JNull \<Rightarrow> Some 0
      | Some (JInt n) \<Rightarrow> if in_int64 n then Some n else None | _ \<Rightarrow> None)"

definition bool_field :: "string \<Rightarrow> (string \<times> json) list \<Rightarrow> bool option" where
  "bool_field k kvs =
     (case jget k kvs of
        None \<Rightarrow> Some False | Some JNull \<Rightarrow> Some False | Some (JBool b) \<Rightarrow> Some b | _ \<Rightarrow> None)"

fun decode_all :: "(json \<Rightarrow> 'a option) \<Rightarrow> json list \<Rightarrow> 'a list option" where
  "decode_all f [] = Some []"
| "decode_all f (j # js) =
     (case f j of None \<Rightarrow> None | Some x \<Rightarrow> map_option (\<lambda>xs. x # xs) (decode_all f js))"

definition decode_list :: "(json \<Rightarrow> 'a option) \<Rightarrow> json \<Rightarrow> 'a list option" where
  "decode_list f j = (case j of JNull \<Rightarrow> Some [] | JArr js \<Rightarrow> decode_all f js | _ \<Rightarrow> None)"

definition decode_string :: "json \<Rightarrow> string option" where
  "decode_string j = (case j of JStr s \<Rightarrow> Some s | JNull \<Rightarrow> Some [] | _ \<Rightarrow> None)"

definition list_field :: "(json \<Rightarrow> 'a option) \<Rightarrow> string \<Rightarrow> (string \<times> json) list \<Rightarrow> 'a list option" where
  "list_field f k kvs = (case jget k kvs of None \<Rightarrow> Some [] | Some j \<Rightarrow> decode_list f j)"

end
