(* ===== verification/TrueNAS.thy ===== *)
theory TrueNAS
  imports Ownership Json
begin

text \<open>
  \<^verbatim>\<open>internal/truenas\<close>: how the middleware's answers are decoded (\<^verbatim>\<open>types.go\<close>) and the typed
  dataset, pool and snapshot calls (\<^verbatim>\<open>dataset.go\<close>). The connection itself is a parameter: a
  \<open>transport\<close> takes a method name and its parameters to an error or a result document and may
  change the state of the appliance; \<^verbatim>\<open>Ops\<close> is written once against it, for the websocket and
  the REST client alike. An absent result document is \<open>JNull\<close>, which decodes the same way.
\<close>

type_synonym 's transport = "string \<Rightarrow> json list \<Rightarrow> ('s, go_error, json) op"

section \<open>Decoding the middleware's documents\<close>

record property =
  pr_Value :: string
  pr_Source :: string
  pr_RawValue :: string

definition property_zero :: property where
  "property_zero = \<lparr>pr_Value = [], pr_Source = [], pr_RawValue = []\<rparr>"

definition ParseInt_or :: "string \<Rightarrow> int \<Rightarrow> int" where
  "ParseInt_or s d = (case ParseInt64 s of Some v \<Rightarrow> v | None \<Rightarrow> d)"

definition sizeField :: "json \<Rightarrow> int" where
  "sizeField j =
     (case j of
        JNull \<Rightarrow> 0
      | JInt n \<Rightarrow> if in_int64 n then n else 0
      | JStr s \<Rightarrow> ParseInt_or s 0
      | JObj kvs \<Rightarrow>
          (case string_field ''rawvalue'' kvs of
             None \<Rightarrow> 0
           | Some raw \<Rightarrow>
               (case jget ''parsed'' kvs of
                  Some JNull \<Rightarrow> 0
                | Some (JInt n) \<Rightarrow> if in_int64 n then n else ParseInt_or raw 0
                | Some (JStr s) \<Rightarrow> ParseInt_or s (ParseInt_or raw 0)
                | _ \<Rightarrow> ParseInt_or raw 0))
      | _ \<Rightarrow> 0)"

definition propField :: "json \<Rightarrow> property" where
  "propField j =
     (case j of
        JObj kvs \<Rightarrow>
          (case (string_field ''rawvalue'' kvs, string_field ''source'' kvs) of
             (Some raw, Some src) \<Rightarrow>
               \<lparr>pr_Value = (case jget ''value'' kvs of Some (JStr s) \<Rightarrow> s | _ \<Rightarrow> []),
                pr_Source = src, pr_RawValue = raw\<rparr>
           | _ \<Rightarrow> property_zero)
      | _ \<Rightarrow> property_zero)"

definition originField :: "json \<Rightarrow> string" where
  "originField j =
     (case j of
        JObj kvs \<Rightarrow>
          (case string_field ''rawvalue'' kvs of
             None \<Rightarrow> []
           | Some raw \<Rightarrow>
               (case jget ''parsed'' kvs of
                  Some (JStr s) \<Rightarrow> if s \<noteq> [] then s else raw
                | _ \<Rightarrow> raw))
      | _ \<Rightarrow> [])"

record dataset =
  ds_ID :: string
  ds_Type :: string
  ds_Mountpoint :: string
  ds_VolSize :: int
  ds_RefQuota :: int
  ds_Used :: int
  ds_Available :: int
  ds_Origin :: string
  ds_UserProperties :: "string \<rightharpoonup> property"
  ds_Sync :: property
  ds_Compression :: property
  ds_ATime :: property
  ds_RecordSize :: property

definition field_or :: "'a \<Rightarrow> (json \<Rightarrow> 'a) \<Rightarrow> string \<Rightarrow> (string \<times> json) list \<Rightarrow> 'a" where
  "field_or z f k kvs = (case jget k kvs of None \<Rightarrow> z | Some j \<Rightarrow> f j)"

definition userProps :: "(string \<times> json) list \<Rightarrow> (string \<rightharpoonup> property) option" where
  "userProps kvs =
     (case jget ''user_properties'' kvs of
        None \<Rightarrow> Some Map.empty
      | Some JNull \<Rightarrow> Some Map.empty
      | Some (JObj ps) \<Rightarrow> Some (\<lambda>k. map_option propField (jget k ps))
      | Some _ \<Rightarrow> None)"

definition decode_dataset :: "json \<Rightarrow> dataset option" where
  "decode_dataset j =
     (let build = (\<lambda>kvs i t m ps.
        \<lparr>ds_ID = i, ds_Type = t, ds_Mountpoint = m,
         ds_VolSize = field_or 0 sizeField ''volsize'' kvs,
         ds_RefQuota = field_or 0 sizeField ''refquota'' kvs,
         ds_Used = field_or 0 sizeField ''used'' kvs,
         ds_Available = field_or 0 sizeField ''available'' kvs,
         ds_Origin = field_or [] originField ''origin'' kvs,
         ds_UserProperties = ps,
         ds_Sync = field_or property_zero propField ''sync'' kvs,
         ds_Compression = field_or property_zero propField ''compression'' kvs,
         ds_ATime = field_or property_zero propField ''atime'' kvs,
         ds_RecordSize = field_or property_zero propField ''recordsize'' kvs\<rparr>)
      in case j of
           JNull \<Rightarrow> Some (build [] [] [] [] Map.empty)
         | JObj kvs \<Rightarrow>
             (case (string_field ''id'' kvs, string_field ''type'' kvs,
                    string_field ''mountpoint'' kvs, userProps kvs) of
                (Some i, Some t, Some m, Some ps) \<Rightarrow> Some (build kvs i t m ps)
              | _ \<Rightarrow> None)
         | _ \<Rightarrow> None)"

definition OriginSnapshot :: "dataset \<Rightarrow> string" where
  "OriginSnapshot d = ds_Origin d"

definition ZFSProperty :: "dataset option \<Rightarrow> string \<Rightarrow> property \<times> bool" where
  "ZFSProperty od name =
     (case od of
        None \<Rightarrow> (property_zero, False)
      | Some d \<Rightarrow>
          if name = ''sync'' then (ds_Sync d, True)
          else if name = ''compression'' then (ds_Compression d, True)
          else if name = ''atime'' then (ds_ATime d, True)
          else if name = ''recordsize'' then (ds_RecordSize d, True)
          else (property_zero, False))"

definition Owned :: "dataset option \<Rightarrow> string \<Rightarrow> string \<Rightarrow> bool" where
  "Owned od prop value =
     (case od of
        None \<Rightarrow> False
      | Some d \<Rightarrow>
          (case ds_UserProperties d prop of
             None \<Rightarrow> False
           | Some p \<Rightarrow> pr_Value p = value \<and> pr_Source p = ''LOCAL''))"

definition LocalProperty :: "dataset \<Rightarrow> string \<Rightarrow> string" where
  "LocalProperty d key =
     (case ds_UserProperties d key of
        None \<Rightarrow> []
      | Some p \<Rightarrow> if pr_Source p \<noteq> ''LOCAL'' then [] else pr_Value p)"

text \<open>The view of a dataset its guards are handed: value and source of every user property.\<close>

definition asVolumeDataset :: "dataset \<Rightarrow> vdataset" where
  "asVolumeDataset d =
     \<lparr>vd_ID = ds_ID d,
      vd_UserProperties =
        (\<lambda>k. map_option (\<lambda>p. \<lparr>vp_Value = pr_Value p, vp_Source = pr_Source p\<rparr>) (ds_UserProperties d k))\<rparr>"

record snapshot =
  sn_ID :: string
  sn_Name :: string
  sn_Dataset :: string
  sn_CreateTXG :: string
  sn_Used :: int
  sn_Creation :: int
  sn_VolSize :: int

definition snapProps :: "(string \<times> json) list \<Rightarrow> (int \<times> int) option" where
  "snapProps kvs =
     (case jget ''properties'' kvs of
        None \<Rightarrow> Some (0, 0)
      | Some JNull \<Rightarrow> Some (0, 0)
      | Some (JObj ps) \<Rightarrow> Some (field_or 0 sizeField ''creation'' ps, field_or 0 sizeField ''volsize'' ps)
      | Some _ \<Rightarrow> None)"

text \<open>\<^verbatim>\<open>Used\<close> carries no tag, so it is matched without regard to case.\<close>

definition decode_snapshot :: "json \<Rightarrow> snapshot option" where
  "decode_snapshot j =
     (let build = (\<lambda>kvs i n d x cv.
        \<lparr>sn_ID = i, sn_Name = n, sn_Dataset = d, sn_CreateTXG = x,
         sn_Used = field_or 0 sizeField ''used'' kvs, sn_Creation = fst cv, sn_VolSize = snd cv\<rparr>)
      in case j of
           JNull \<Rightarrow> Some (build [] [] [] [] [] (0, 0))
         | JObj kvs \<Rightarrow>
             (case (string_field ''id'' kvs, string_field ''name'' kvs, string_field ''dataset'' kvs,
                    string_field ''createtxg'' kvs, snapProps kvs) of
                (Some i, Some n, Some d, Some x, Some cv) \<Rightarrow> Some (build kvs i n d x cv)
              | _ \<Rightarrow> None)
         | _ \<Rightarrow> None)"

text \<open>\<open>None\<close> is Go's zero time.\<close>

definition CreationTime :: "snapshot \<Rightarrow> int option" where
  "CreationTime s = (if sn_Creation s \<le> 0 then None else Some (sn_Creation s * nanos))"

record pool =
  po_Name :: string
  po_Status :: string
  po_Healthy :: bool
  po_Size :: int
  po_Free :: int

definition decode_pool :: "json \<Rightarrow> pool option" where
  "decode_pool j =
     (case j of
        JNull \<Rightarrow> Some \<lparr>po_Name = [], po_Status = [], po_Healthy = False, po_Size = 0, po_Free = 0\<rparr>
      | JObj kvs \<Rightarrow>
          (case (string_field ''name'' kvs, string_field ''status'' kvs,
                 (case jget ''healthy'' kvs of
                    None \<Rightarrow> Some False | Some JNull \<Rightarrow> Some False | Some (JBool b) \<Rightarrow> Some b | Some _ \<Rightarrow> None)) of
             (Some n, Some st, Some h) \<Rightarrow>
               Some \<lparr>po_Name = n, po_Status = st, po_Healthy = h,
                     po_Size = field_or 0 sizeField ''size'' kvs, po_Free = field_or 0 sizeField ''free'' kvs\<rparr>
           | _ \<Rightarrow> None)
      | _ \<Rightarrow> None)"

section \<open>Calls\<close>

definition CallJSON :: "'s transport \<Rightarrow> (json \<Rightarrow> 'a option) \<Rightarrow> string \<Rightarrow> json list \<Rightarrow> ('s, go_error, 'a) op" where
  "CallJSON call dec method params =
     bindE (call method params)
       (\<lambda>raw. case dec raw of Some v \<Rightarrow> retE v | None \<Rightarrow> failE (Wrapped [Plain ''decode result'']))"

text \<open>\<^verbatim>\<open>CallJSON\<close> with a nil target: the result is not looked at.\<close>

definition CallUnit :: "'s transport \<Rightarrow> string \<Rightarrow> json list \<Rightarrow> ('s, go_error, unit) op" where
  "CallUnit call method params = CallJSON call (\<lambda>_. Some ()) method params"

record DatasetSpec =
  spec_Name :: string
  spec_Type :: string
  spec_VolSize :: int
  spec_RefQuota :: int
  spec_Sparse :: bool
  spec_VolBlockSize :: string
  spec_ShareType :: string
  spec_UserProperties :: "(string \<times> string) list"

definition props_json :: "(string \<times> string) list \<Rightarrow> json" where
  "props_json ps = JArr (map (\<lambda>(k, v). JObj [(''key'', JStr k), (''value'', JStr v)]) ps)"

definition payload :: "DatasetSpec \<Rightarrow> json" where
  "payload s = JObj
     ([(''name'', JStr (spec_Name s)), (''type'', JStr (spec_Type s))]
      @ (if spec_Type s = ''VOLUME'' then
           [(''volsize'', JInt (spec_VolSize s)), (''sparse'', JBool (spec_Sparse s))]
           @ (if spec_VolBlockSize s \<noteq> [] then [(''volblocksize'', JStr (spec_VolBlockSize s))] else [])
         else (if spec_RefQuota s > 0 then [(''refquota'', JInt (spec_RefQuota s))] else []))
      @ (if spec_ShareType s \<noteq> [] then [(''share_type'', JStr (spec_ShareType s))] else [])
      @ (if spec_UserProperties s \<noteq> [] then [(''user_properties'', props_json (spec_UserProperties s))] else []))"

definition MinRefQuotaBytes :: int where "MinRefQuotaBytes = 1073741824"

definition DatasetCreate :: "'s transport \<Rightarrow> DatasetSpec \<Rightarrow> ('s, go_error, dataset) op" where
  "DatasetCreate call spec =
     tryE (CallJSON call decode_dataset ''pool.dataset.create'' [payload spec])
       (\<lambda>r. case r of
          Inr ds \<Rightarrow> retE ds
        | Inl e \<Rightarrow> if IsParentMissing e then failE (WithStatus FailedPrecondition e) else failE e)"

definition filter_json :: "string \<Rightarrow> string \<Rightarrow> string \<Rightarrow> json" where
  "filter_json field rel value = JArr [JArr [JStr field, JStr rel, JStr value]]"

definition DatasetQuery :: "'s transport \<Rightarrow> string \<Rightarrow> ('s, go_error, dataset option) op" where
  "DatasetQuery call i =
     tryE (CallJSON call (decode_list decode_dataset) ''pool.dataset.query'' [filter_json ''id'' ''='' i, JObj []])
       (\<lambda>r. case r of
          Inl e \<Rightarrow> if IsNotFound e then retE None else failE e
        | Inr [] \<Rightarrow> retE None
        | Inr (d # _) \<Rightarrow> retE (Some d))"

definition DatasetList :: "'s transport \<Rightarrow> string \<Rightarrow> ('s, go_error, dataset list) op" where
  "DatasetList call pre =
     tryE (CallJSON call (decode_list decode_dataset) ''pool.dataset.query'' [filter_json ''id'' ''^'' pre, JObj []])
       (\<lambda>r. case r of
          Inl e \<Rightarrow> if IsNotFound e then retE [] else failE e
        | Inr ds \<Rightarrow> retE ds)"

definition DatasetUpdate :: "'s transport \<Rightarrow> string \<Rightarrow> json \<Rightarrow> ('s, go_error, dataset) op" where
  "DatasetUpdate call i patch = CallJSON call decode_dataset ''pool.dataset.update'' [JStr i, patch]"

definition SetUserProperty :: "'s transport \<Rightarrow> string \<Rightarrow> string \<Rightarrow> string \<Rightarrow> ('s, go_error, unit) op" where
  "SetUserProperty call i key value =
     bindE (DatasetUpdate call i (JObj [(''user_properties_update'', props_json [(key, value)])]))
       (\<lambda>_. retE ())"

definition DatasetRename :: "'s transport \<Rightarrow> string \<Rightarrow> string \<Rightarrow> bool \<Rightarrow> ('s, go_error, unit) op" where
  "DatasetRename call i newName force =
     CallUnit call ''pool.dataset.rename'' [JStr i, JObj [(''new_name'', JStr newName), (''force'', JBool force)]]"

definition clonesOf :: "'s transport \<Rightarrow> string \<Rightarrow> ('s, go_error, string list) op" where
  "clonesOf call i =
     (let pool = (case cut_on (CHR ''/'') i of (p, _, found) \<Rightarrow> if found \<and> p \<noteq> [] then p else i)
      in tryE (DatasetList call pool)
           (\<lambda>r. case r of
              Inl _ \<Rightarrow> retE []
            | Inr all \<Rightarrow>
                retE (sort_strings (map ds_ID (filter
                  (\<lambda>d. OriginSnapshot d \<noteq> []
                     \<and> (case cut_on (CHR ''@'') (OriginSnapshot d) of (o_ds, _, found) \<Rightarrow> found \<and> o_ds = i)) all)))))"

text \<open>The clones are enumerated for the message of the refusal; the call is made all the same.\<close>

definition DatasetDelete :: "'s transport \<Rightarrow> string \<Rightarrow> bool \<Rightarrow> bool \<Rightarrow> ('s, go_error, unit) op" where
  "DatasetDelete call i recursive force =
     tryE (CallUnit call ''pool.dataset.delete''
             [JStr i, JObj [(''recursive'', JBool recursive), (''force'', JBool force)]])
       (\<lambda>r. case r of
          Inr _ \<Rightarrow> retE ()
        | Inl e \<Rightarrow>
            if IsNotFound e then retE ()
            else if IsHasDependentClones e
                 then tryE (clonesOf call i) (\<lambda>_. failE (WithStatus FailedPrecondition e))
            else failE e)"

definition RecommendedZvolBlocksize :: "'s transport \<Rightarrow> string \<Rightarrow> ('s, go_error, string) op" where
  "RecommendedZvolBlocksize call pool =
     CallJSON call decode_string ''pool.dataset.recommended_zvol_blocksize'' [JStr pool]"

definition PoolQuery :: "'s transport \<Rightarrow> string \<Rightarrow> ('s, go_error, pool) op" where
  "PoolQuery call name =
     bindE (CallJSON call (decode_list decode_pool) ''pool.query'' [filter_json ''name'' ''='' name, JObj []])
       (\<lambda>ps. case ps of [] \<Rightarrow> failE (Plain ''pool does not exist'') | p # _ \<Rightarrow> retE p)"

definition SnapshotCreate :: "'s transport \<Rightarrow> string \<Rightarrow> string \<Rightarrow> ('s, go_error, snapshot) op" where
  "SnapshotCreate call ds name =
     CallJSON call decode_snapshot ''pool.snapshot.create''
       [JObj [(''dataset'', JStr ds), (''name'', JStr name)]]"

definition SnapshotCreateRecursive :: "'s transport \<Rightarrow> string \<Rightarrow> string \<Rightarrow> ('s, go_error, snapshot) op" where
  "SnapshotCreateRecursive call ds name =
     CallJSON call decode_snapshot ''pool.snapshot.create''
       [JObj [(''dataset'', JStr ds), (''name'', JStr name), (''recursive'', JBool True)]]"

definition SnapshotQuery :: "'s transport \<Rightarrow> string \<Rightarrow> ('s, go_error, snapshot option) op" where
  "SnapshotQuery call i =
     tryE (CallJSON call (decode_list decode_snapshot) ''pool.snapshot.query'' [filter_json ''id'' ''='' i, JObj []])
       (\<lambda>r. case r of
          Inl e \<Rightarrow> if IsNotFound e then retE None else failE e
        | Inr [] \<Rightarrow> retE None
        | Inr (s # _) \<Rightarrow> retE (Some s))"

definition SnapshotList :: "'s transport \<Rightarrow> string \<Rightarrow> ('s, go_error, snapshot list) op" where
  "SnapshotList call pre =
     tryE (CallJSON call (decode_list decode_snapshot) ''pool.snapshot.query''
             [filter_json ''dataset'' ''^'' pre, JObj []])
       (\<lambda>r. case r of
          Inl e \<Rightarrow> if IsNotFound e then retE [] else failE e
        | Inr ss \<Rightarrow> retE ss)"

definition SnapshotDelete :: "'s transport \<Rightarrow> string \<Rightarrow> ('s, go_error, unit) op" where
  "SnapshotDelete call i =
     tryE (CallUnit call ''pool.snapshot.delete'' [JStr i])
       (\<lambda>r. case r of
          Inr _ \<Rightarrow> retE ()
        | Inl e \<Rightarrow> if IsNotFound e then retE () else failE e)"

definition SnapshotClone :: "'s transport \<Rightarrow> string \<Rightarrow> string \<Rightarrow> (string \<times> json) list \<Rightarrow> ('s, go_error, unit) op" where
  "SnapshotClone call snap dst props =
     CallUnit call ''pool.snapshot.clone''
       [JObj ([(''snapshot'', JStr snap), (''dataset_dst'', JStr dst)]
              @ (if props \<noteq> [] then [(''dataset_properties'', JObj props)] else []))]"

end
