(* ===== verification/Appliance.thy ===== *)
theory Appliance
  imports TrueNAS
begin

text \<open>
  What the driver relies on at the other end of a transport. The locale \<open>dataset_store\<close> states
  the contract of the appliance's dataset calls over the datasets it holds and their local user
  properties; the components above are proved against it. The stateful stand-in of the
  appliance in \<^verbatim>\<open>internal/retention/fake_test.go\<close> is modelled handler by handler and shown to
  meet the contract through the typed client, JSON documents and error classification included.
\<close>

section \<open>The contract\<close>

text \<open>
  A dataset answered by a query: it has the identity asked for, it is mounted below
  \<^verbatim>\<open>/mnt\<close> under that name if at all, and every property set on the dataset itself is reported with its value and the source \<^verbatim>\<open>LOCAL\<close>. Nothing is said about
  properties set elsewhere: whether and with which source an inherited property is reported is
  left open.
\<close>

definition reports :: "string \<Rightarrow> (string \<rightharpoonup> string) \<Rightarrow> dataset \<Rightarrow> bool" where
  "reports i ps d \<longleftrightarrow> ds_ID d = i \<and> ds_Mountpoint d \<in> {[], ''/mnt/'' @ i}
     \<and> (\<forall>k v. ps k = Some v \<longrightarrow>
          (\<exists>p. ds_UserProperties d k = Some p \<and> pr_Value p = v \<and> pr_Source p = ''LOCAL''))"

lemma reports_LocalProperty: "reports i ps d \<Longrightarrow> ps k = Some v \<Longrightarrow> LocalProperty d k = v"
  by (fastforce simp: reports_def LocalProperty_def)

lemma reports_view:
  "reports i ps d \<Longrightarrow> ps k = Some v \<Longrightarrow>
     vd_UserProperties (asVolumeDataset d) k = Some \<lparr>vp_Value = v, vp_Source = ''LOCAL''\<rparr>"
  by (fastforce simp: reports_def asVolumeDataset_def)

lemma reports_ID: "reports i ps d \<Longrightarrow> ds_ID d = i"
  by (simp add: reports_def)

text \<open>Datasets are named by path: the ones at and below a dataset, and a dataset without any below it.\<close>

definition below :: "string \<Rightarrow> string \<Rightarrow> bool" where
  "below i x \<longleftrightarrow> x = i \<or> has_prefix (i @ ''/'') x"

definition childless :: "(string \<rightharpoonup> 'a) \<Rightarrow> string \<Rightarrow> bool" where
  "childless m i \<longleftrightarrow> (\<forall>x. has_prefix (i @ ''/'') x \<longrightarrow> m x = None)"

text \<open>
  The laws are about answers, none says that a call succeeds. A query changes nothing and reports
  what is there. A creation, and the rename of a dataset without children, did what they were asked
  if they report success, and a rename refused as busy did nothing. Setting a property either
  happened or failed, and may have happened although it failed. A recursive deletion removes the
  dataset if it reports success and touches nothing outside the dataset and what is below it,
  whatever it reports; what becomes of the datasets below it is left open.
\<close>

locale dataset_store =
  fixes call :: "'s transport"
    and wf :: "'s \<Rightarrow> bool"
    and locals :: "'s \<Rightarrow> string \<rightharpoonup> (string \<rightharpoonup> string)"
  assumes query_keeps: "wf s \<Longrightarrow> DatasetQuery call i s = (r, s') \<Longrightarrow> wf s' \<and> locals s' = locals s"
    and query_absent: "wf s \<Longrightarrow> DatasetQuery call i s = (Inr None, s') \<Longrightarrow> locals s i = None"
    and query_present: "wf s \<Longrightarrow> DatasetQuery call i s = (Inr (Some d), s') \<Longrightarrow>
      \<exists>ps. locals s i = Some ps \<and> reports i ps d"
    and list_keeps: "wf s \<Longrightarrow> DatasetList call pre s = (r', s') \<Longrightarrow> wf s' \<and> locals s' = locals s"
    and list_reports: "wf s \<Longrightarrow> DatasetList call pre s = (Inr ds, s') \<Longrightarrow>
      (\<forall>d \<in> set ds. \<exists>ps. locals s (ds_ID d) = Some ps \<and> reports (ds_ID d) ps d)
        \<and> (ds_ID ` set ds = {i \<in> dom (locals s). has_prefix pre i}) \<and> distinct (map ds_ID ds)"
    and create_new: "wf s \<Longrightarrow> locals s (spec_Name spec) = None \<Longrightarrow>
      distinct (map fst (spec_UserProperties spec)) \<Longrightarrow> DatasetCreate call spec s = (Inr d, s') \<Longrightarrow>
      wf s' \<and> locals s' = (locals s)(spec_Name spec \<mapsto> map_of (spec_UserProperties spec))"
    and set_property: "wf s \<Longrightarrow> locals s i = Some ps \<Longrightarrow> SetUserProperty call i k v s = (u, s') \<Longrightarrow>
      wf s' \<and> (locals s' = (locals s)(i \<mapsto> ps(k \<mapsto> v)) \<or> (\<exists>e. u = Inl e) \<and> locals s' = locals s)"
    and rename_leaf: "wf s \<Longrightarrow> locals s i = Some ps \<Longrightarrow> childless (locals s) i \<Longrightarrow> locals s j = None \<Longrightarrow>
      DatasetRename call i j True s = (Inr (), s') \<Longrightarrow> wf s' \<and> locals s' = (locals s)(i := None, j \<mapsto> ps)"
    and rename_busy: "wf s \<Longrightarrow> locals s i \<noteq> None \<Longrightarrow> locals s j = None \<Longrightarrow>
      DatasetRename call i j True s = (Inl e, s') \<Longrightarrow> IsBusy e \<Longrightarrow> wf s' \<and> locals s' = locals s"
    and delete_outside: "wf s \<Longrightarrow> DatasetDelete call i True force s = (u, s') \<Longrightarrow>
      wf s' \<and> (\<forall>x. \<not> below i x \<longrightarrow> locals s' x = locals s x)"
    and delete_done: "wf s \<Longrightarrow> DatasetDelete call i True force s = (Inr (), s') \<Longrightarrow> locals s' i = None"

section \<open>The stand-in appliance\<close>

record nas =
  datasets :: "(string \<times> (string \<times> string) list) list"
  clonedFrom :: "(string \<times> string) list"
  renameFail :: "call_error option"
  forces :: "bool list"

definition rpc_error :: "string \<Rightarrow> int \<Rightarrow> string \<Rightarrow> string \<Rightarrow> go_error" where
  "rpc_error method cd errname reason =
     CallErr \<lparr>ce_Method = method, ce_Code = cd, ce_ErrName = errname, ce_Reason = reason\<rparr>"

definition nas_notFound :: "string \<Rightarrow> string \<Rightarrow> go_error" where
  "nas_notFound method i =
     rpc_error method (- 32602) ''EINVAL'' (''[ENOENT] None: '' @ i @ '' does not exist'')"

definition reported :: "string \<Rightarrow> string \<Rightarrow> json" where
  "reported v src = JObj [(''value'', JStr v), (''source'', JStr src)]"

definition inherit_from :: "string \<Rightarrow> string \<times> (string \<times> string) list \<Rightarrow> (string \<times> json) list \<Rightarrow> (string \<times> json) list" where
  "inherit_from i anc props =
     (case anc of (other, ps) \<Rightarrow>
        if other = i \<or> \<not> has_prefix (other @ ''/'') i then props
        else fold (\<lambda>(k, v). put k (reported v ''INHERITED'')) ps props)"

definition jsonOf :: "nas \<Rightarrow> string \<Rightarrow> json" where
  "jsonOf n i =
     (let inherited = fold (inherit_from i) (datasets n) [];
          own = (case map_of (datasets n) i of Some ps \<Rightarrow> ps | None \<Rightarrow> []);
          props = fold (\<lambda>(k, v). put k (reported v ''LOCAL'')) own inherited
      in JObj [(''id'', JStr i), (''type'', JStr ''FILESYSTEM''), (''mountpoint'', JStr (''/mnt/'' @ i)),
               (''user_properties'', JObj props)])"

definition str_or_empty :: "json \<Rightarrow> string" where
  "str_or_empty j = (case j of JStr s \<Rightarrow> s | _ \<Rightarrow> [])"

definition nas_filter :: "string \<Rightarrow> json \<Rightarrow> bool" where
  "nas_filter i f =
     (case f of
        JArr [a, b, c] \<Rightarrow>
          if str_or_empty a \<noteq> ''id'' then True
          else if b = JStr ''^'' then has_prefix (str_or_empty c) i
          else i = str_or_empty c
      | _ \<Rightarrow> True)"

text \<open>A filter parameter that is not a list of lists does not decode and matches everything.\<close>

definition nas_matches :: "string \<Rightarrow> json list \<Rightarrow> bool" where
  "nas_matches i ps =
     (case ps of
        JArr fs # _ \<Rightarrow>
          if list_all (\<lambda>f. case f of JArr _ \<Rightarrow> True | JNull \<Rightarrow> True | _ \<Rightarrow> False) fs
          then list_all (nas_filter i) fs else True
      | _ \<Rightarrow> True)"

text \<open>The entries of a \<^verbatim>\<open>user_properties\<close> list, applied to the local properties.\<close>

definition apply_entry :: "json \<Rightarrow> (string \<times> string) list \<Rightarrow> (string \<times> string) list" where
  "apply_entry e ps =
     (let m = (case e of JObj kvs \<Rightarrow> kvs | _ \<Rightarrow> []);
          f = (\<lambda>k. case jget k m of Some j \<Rightarrow> str_or_empty j | None \<Rightarrow> [])
      in put (f ''key'') (f ''value'') ps)"

definition apply_entries :: "json option \<Rightarrow> (string \<times> string) list \<Rightarrow> (string \<times> string) list" where
  "apply_entries j ps = (case j of Some (JArr es) \<Rightarrow> fold apply_entry es ps | _ \<Rightarrow> ps)"

definition obj_members :: "json \<Rightarrow> (string \<times> json) list" where
  "obj_members j = (case j of JObj kvs \<Rightarrow> kvs | _ \<Rightarrow> [])"

definition nas_query :: "json list \<Rightarrow> (nas, go_error, json) op" where
  "nas_query ps n =
     (Inr (JArr (map (jsonOf n) (filter (\<lambda>i. nas_matches i ps) (map fst (datasets n))))), n)"

definition nas_create :: "json list \<Rightarrow> (nas, go_error, json) op" where
  "nas_create ps n =
     (let kvs = obj_members (hd ps);
          i = (case jget ''name'' kvs of Some j \<Rightarrow> str_or_empty j | None \<Rightarrow> []);
          n' = n\<lparr>datasets := put i (apply_entries (jget ''user_properties'' kvs) []) (datasets n)\<rparr>
      in (Inr (jsonOf n' i), n'))"

definition nas_update :: "json list \<Rightarrow> (nas, go_error, json) op" where
  "nas_update ps n =
     (let i = str_or_empty (ps ! 0)
      in case map_of (datasets n) i of
           None \<Rightarrow> (Inl (nas_notFound ''pool.dataset.update'' i), n)
         | Some props \<Rightarrow>
             (let n' = n\<lparr>datasets :=
                put i (apply_entries (jget ''user_properties_update'' (obj_members (ps ! 1))) props) (datasets n)\<rparr>
              in (Inr (jsonOf n' i), n')))"

definition follow_rename :: "string \<Rightarrow> string \<Rightarrow> string \<times> string \<Rightarrow> string \<times> string" where
  "follow_rename i dst dep = (case dep of (c, orig) \<Rightarrow> (c, if orig = i then dst else orig))"

definition nas_rename :: "json list \<Rightarrow> (nas, go_error, json) op" where
  "nas_rename ps n0 =
     (let i = str_or_empty (ps ! 0);
          opts = obj_members (ps ! 1);
          dst = (case jget ''new_name'' opts of Some j \<Rightarrow> str_or_empty j | None \<Rightarrow> []);
          force = (jget ''force'' opts = Some (JBool True));
          n = n0\<lparr>forces := forces n0 @ [force]\<rparr>
      in case renameFail n of
           Some e \<Rightarrow> (Inl (CallErr e), n\<lparr>renameFail := None\<rparr>)
         | None \<Rightarrow>
        (case map_of (datasets n) i of
           None \<Rightarrow> (Inl (nas_notFound ''pool.dataset.rename'' i), n)
         | Some props \<Rightarrow>
             if map_of (datasets n) dst \<noteq> None
             then (Inl (rpc_error ''pool.dataset.rename'' (- 32602) ''EINVAL'' (''[EEXIST] '' @ dst)), n)
             else (Inr JNull,
                   n\<lparr>datasets := put dst props (del i (datasets n)),
                     clonedFrom := map (follow_rename i dst) (clonedFrom n)\<rparr>)))"

definition nas_delete :: "json list \<Rightarrow> (nas, go_error, json) op" where
  "nas_delete ps n =
     (let i = str_or_empty (ps ! 0)
      in if map_of (datasets n) i = None then (Inl (nas_notFound ''pool.dataset.delete'' i), n)
         else if i \<in> snd ` set (clonedFrom n)
         then (Inl (rpc_error ''pool.dataset.delete'' (- 32001) ''EBUSY''
                     ''[EBUSY] dataset is busy: snapshot has dependent clones''), n)
         else (Inr (JBool True), n\<lparr>datasets := del i (datasets n)\<rparr>))"

definition nas_call :: "nas transport" where
  "nas_call method ps =
     (if method = ''pool.dataset.query'' then nas_query ps
      else if method = ''pool.dataset.create'' then nas_create ps
      else if method = ''pool.dataset.update'' then nas_update ps
      else if method = ''pool.dataset.rename'' then nas_rename ps
      else if method = ''pool.dataset.delete'' then nas_delete ps
      else failE (rpc_error method (- 32601) [] ''method not found''))"

section \<open>The stand-in meets the contract\<close>

definition nas_locals :: "nas \<Rightarrow> string \<rightharpoonup> (string \<rightharpoonup> string)" where
  "nas_locals n i = map_option map_of (map_of (datasets n) i)"

definition nas_origin :: "nas \<Rightarrow> string \<Rightarrow> bool" where
  "nas_origin n i \<longleftrightarrow> i \<in> snd ` set (clonedFrom n)"

text \<open>
  The states the stand-in moves between when no rename failure is injected: one entry per
  dataset and per property, and every clone depends on a dataset that is there.
\<close>

definition nas_wf :: "nas \<Rightarrow> bool" where
  "nas_wf n \<longleftrightarrow> renameFail n = None \<and> distinct (map fst (datasets n))
     \<and> (\<forall>(i, ps) \<in> set (datasets n). distinct (map fst ps))
     \<and> snd ` set (clonedFrom n) \<subseteq> fst ` set (datasets n)"

lemma map_of_fold_put:
  assumes "distinct (map fst ps)"
  shows "map_of (fold (\<lambda>(k, v). put k (f v)) ps acc) k =
    (case map_of ps k of Some v \<Rightarrow> Some (f v) | None \<Rightarrow> map_of acc k)"
  using assms
proof (induction ps arbitrary: acc)
  case (Cons p ps)
  obtain a b where p: "p = (a, b)" by fastforce
  have "map_of ps a = None" using Cons.prems p by (simp add: map_of_eq_None_iff)
  with Cons p show ?case by (auto split: option.splits)
qed simp

lemma decode_plain_dataset:
  "\<exists>d. decode_dataset (JObj [(''id'', JStr i), (''type'', JStr ty), (''mountpoint'', JStr mp),
       (''user_properties'', JObj ps)]) = Some d
     \<and> ds_ID d = i \<and> ds_Mountpoint d = mp \<and> ds_UserProperties d = (\<lambda>k. map_option propField (jget k ps))"
  by (simp add: decode_dataset_def string_field_def userProps_def jget_def)

lemma propField_reported [simp]:
  "pr_Value (propField (reported v src)) = v" "pr_Source (propField (reported v src)) = src"
  by (simp_all add: propField_def reported_def string_field_def jget_def)

lemma decode_jsonOf:
  assumes "nas_wf n" "nas_locals n i = Some ps"
  shows "\<exists>d. decode_dataset (jsonOf n i) = Some d \<and> reports i ps d"
proof -
  from assms(2) obtain own where own: "map_of (datasets n) i = Some own" "ps = map_of own"
    by (auto simp: nas_locals_def)
  then have dist: "distinct (map fst own)"
    using assms(1) map_of_SomeD [OF own(1)] by (auto simp: nas_wf_def)
  define props where "props = fold (\<lambda>(k, v). put k (reported v ''LOCAL'')) own
    (fold (inherit_from i) (datasets n) [])"
  have k: "jget k props = Some (reported v ''LOCAL'')" if "ps k = Some v" for k v
    using that unfolding props_def jget_def map_of_fold_put [OF dist] by (simp add: own)
  have js: "jsonOf n i = JObj [(''id'', JStr i), (''type'', JStr ''FILESYSTEM''),
      (''mountpoint'', JStr (''/mnt/'' @ i)), (''user_properties'', JObj props)]"
    by (simp add: jsonOf_def Let_def own props_def)
  obtain d where d: "decode_dataset (jsonOf n i) = Some d" "ds_ID d = i" "ds_Mountpoint d = ''/mnt/'' @ i"
    "ds_UserProperties d = (\<lambda>k. map_option propField (jget k props))"
    unfolding js using decode_plain_dataset by blast
  have "\<exists>p. ds_UserProperties d k = Some p \<and> pr_Value p = v \<and> pr_Source p = ''LOCAL''"
    if "ps k = Some v" for k v
    unfolding d(4) k [OF that] by simp
  with d(1-3) show ?thesis unfolding reports_def by simp
qed

lemma decode_all_map:
  assumes "\<And>x. x \<in> set xs \<Longrightarrow> \<exists>d. f (g x) = Some d \<and> P x d"
  shows "\<exists>ds. decode_all f (map g xs) = Some ds \<and> list_all2 P xs ds"
  using assms
proof (induction xs)
  case (Cons x xs)
  then obtain d ds where "f (g x) = Some d" "P x d" "decode_all f (map g xs) = Some ds" "list_all2 P xs ds"
    by (metis list.set_intros)
  then show ?case by auto
qed simp

lemma nas_listing:
  assumes "nas_wf n"
  shows "\<exists>ds. CallJSON nas_call (decode_list decode_dataset) ''pool.dataset.query'' ps n = (Inr ds, n)
    \<and> map ds_ID ds = filter (\<lambda>i. nas_matches i ps) (map fst (datasets n))
    \<and> (\<forall>d \<in> set ds. \<exists>qs. nas_locals n (ds_ID d) = Some qs \<and> reports (ds_ID d) qs d)"
proof -
  let ?is = "filter (\<lambda>i. nas_matches i ps) (map fst (datasets n))"
  have "\<exists>d. decode_dataset (jsonOf n i) = Some d \<and> (\<exists>qs. nas_locals n i = Some qs \<and> reports i qs d)"
    if "i \<in> set ?is" for i
  proof -
    from that have "\<exists>qs. nas_locals n i = Some qs"
      using map_of_eq_None_iff [of "datasets n" i] by (cases "map_of (datasets n) i") (auto simp: nas_locals_def)
    then show ?thesis using decode_jsonOf [OF assms] by blast
  qed
  from decode_all_map [where P = "\<lambda>i d. \<exists>qs. nas_locals n i = Some qs \<and> reports i qs d", OF this]
  obtain ds where ds: "decode_all decode_dataset (map (jsonOf n) ?is) = Some ds"
    "list_all2 (\<lambda>i d. \<exists>qs. nas_locals n i = Some qs \<and> reports i qs d) ?is ds" by blast
  have "map ds_ID ds = ?is"
    using ds(2) by (induction rule: list_all2_induct) (auto dest: reports_ID)
  moreover have "\<forall>d \<in> set ds. \<exists>qs. nas_locals n (ds_ID d) = Some qs \<and> reports (ds_ID d) qs d"
    using ds(2) by (induction rule: list_all2_induct) (auto dest: reports_ID)
  ultimately show ?thesis
    by (intro exI [of _ ds])
      (simp add: CallJSON_def nas_call_def nas_query_def decode_list_def bindE_def retE_def ds(1))
qed
lemma nas_matches_filter:
  "nas_matches x [filter_json ''id'' ''='' i, JObj []] \<longleftrightarrow> x = i"
  "nas_matches x [filter_json ''id'' ''^'' pre, JObj []] \<longleftrightarrow> has_prefix pre x"
  by (simp_all add: nas_matches_def nas_filter_def filter_json_def str_or_empty_def)

lemma filter_eq_distinct: "distinct xs \<Longrightarrow> filter (\<lambda>x. x = a) xs = (if a \<in> set xs then [a] else [])"
  by (induction xs) auto

lemma nas_locals_dom: "nas_locals n i = None \<longleftrightarrow> i \<notin> fst ` set (datasets n)"
  by (simp add: nas_locals_def map_of_eq_None_iff)

lemma nas_DatasetQuery:
  assumes "nas_wf n"
  shows "nas_locals n i = None \<Longrightarrow> DatasetQuery nas_call i n = (Inr None, n)"
    and "nas_locals n i = Some ps \<Longrightarrow> \<exists>d. DatasetQuery nas_call i n = (Inr (Some d), n) \<and> reports i ps d"
proof -
  let ?q = "[filter_json ''id'' ''='' i, JObj []]"
  obtain ds where ds: "CallJSON nas_call (decode_list decode_dataset) ''pool.dataset.query'' ?q n = (Inr ds, n)"
    "map ds_ID ds = filter (\<lambda>x. x = i) (map fst (datasets n))"
    "\<forall>d \<in> set ds. \<exists>qs. nas_locals n (ds_ID d) = Some qs \<and> reports (ds_ID d) qs d"
    using nas_listing [OF assms, of ?q] by (auto simp: nas_matches_filter)
  have "distinct (map fst (datasets n))" using assms by (simp add: nas_wf_def)
  note ids = ds(2) [unfolded filter_eq_distinct [OF this]]
  show "DatasetQuery nas_call i n = (Inr None, n)" if "nas_locals n i = None"
    using ids that by (simp add: nas_locals_dom DatasetQuery_def tryE_def ds(1) retE_def)
  show "\<exists>d. DatasetQuery nas_call i n = (Inr (Some d), n) \<and> reports i ps d" if s: "nas_locals n i = Some ps"
  proof -
    have "i \<in> fst ` set (datasets n)" using s nas_locals_dom [of n i] by simp
    with ids obtain d where d: "ds = [d]" "ds_ID d = i" by (auto simp: map_eq_Cons_conv)
    with ds(3) s have "reports i ps d" by simp
    with d show ?thesis by (simp add: DatasetQuery_def tryE_def ds(1) retE_def)
  qed
qed

lemma nas_DatasetList:
  assumes "nas_wf n"
  shows "\<exists>ds. DatasetList nas_call pre n = (Inr ds, n)
        \<and> (\<forall>d \<in> set ds. \<exists>ps. nas_locals n (ds_ID d) = Some ps \<and> reports (ds_ID d) ps d)
        \<and> (ds_ID ` set ds = {i \<in> dom (nas_locals n). has_prefix pre i}) \<and> distinct (map ds_ID ds)"
proof -
  let ?q = "[filter_json ''id'' ''^'' pre, JObj []]"
  obtain ds where ds: "CallJSON nas_call (decode_list decode_dataset) ''pool.dataset.query'' ?q n = (Inr ds, n)"
    "map ds_ID ds = filter (\<lambda>x. has_prefix pre x) (map fst (datasets n))"
    "\<forall>d \<in> set ds. \<exists>qs. nas_locals n (ds_ID d) = Some qs \<and> reports (ds_ID d) qs d"
    using nas_listing [OF assms, of ?q] by (auto simp: nas_matches_filter)
  have "set (map ds_ID ds) = {i \<in> dom (nas_locals n). has_prefix pre i}"
    unfolding ds(2) using nas_locals_dom by (auto simp: dom_def)
  moreover have "distinct (map ds_ID ds)" unfolding ds(2) using assms by (simp add: nas_wf_def)
  ultimately show ?thesis
    using ds(1,3) by (intro exI [of _ ds]) (simp add: DatasetList_def tryE_def retE_def)
qed

lemma apply_entry_props:
  "apply_entry (JObj [(''key'', JStr k), (''value'', JStr v)]) ps = put k v ps"
  by (simp add: apply_entry_def jget_def str_or_empty_def)

lemma apply_entries_props:
  "apply_entries (Some (props_json es)) ps = fold (\<lambda>(k, v). put k v) es ps"
  by (induction es arbitrary: ps) (auto simp: apply_entries_def props_json_def apply_entry_props)

lemma payload_fields:
  "jget ''name'' (obj_members (payload spec)) = Some (JStr (spec_Name spec))"
  "jget ''user_properties'' (obj_members (payload spec)) =
     (if spec_UserProperties spec = [] then None else Some (props_json (spec_UserProperties spec)))"
  by (simp_all add: payload_def obj_members_def jget_def)

lemma put_subset: "set (put k v m) \<subseteq> insert (k, v) (set m)"
  by (induction k v m rule: put.induct) auto

lemma nas_put_wf:
  assumes "nas_wf n" "distinct (map fst ps)"
  shows "nas_wf (n\<lparr>datasets := put i ps (datasets n)\<rparr>)"
    "nas_locals (n\<lparr>datasets := put i ps (datasets n)\<rparr>) = (nas_locals n)(i \<mapsto> map_of ps)"
proof -
  have "\<forall>(j, qs) \<in> set (put i ps (datasets n)). distinct (map fst qs)"
    using assms put_subset [of i ps "datasets n"] unfolding nas_wf_def by blast
  then show "nas_wf (n\<lparr>datasets := put i ps (datasets n)\<rparr>)"
    using assms by (auto simp: nas_wf_def)
  show "nas_locals (n\<lparr>datasets := put i ps (datasets n)\<rparr>) = (nas_locals n)(i \<mapsto> map_of ps)"
    by (auto simp: nas_locals_def fun_eq_iff)
qed

lemma distinct_fold_put [simp]:
  "distinct (map fst (fold (\<lambda>(k, v). put k v) es ps)) = distinct (map fst ps)"
proof (induction es arbitrary: ps)
  case (Cons e es)
  then show ?case by (cases e) simp
qed simp
lemma map_of_fold_put_id:
  "distinct (map fst es) \<Longrightarrow> map_of (fold (\<lambda>(k, v). put k v) es []) = map_of es"
  by (rule ext) (simp add: map_of_fold_put [of es "\<lambda>v. v" "[]"] split: option.split)

lemma nas_DatasetCreate:
  assumes wf: "nas_wf n" and free: "nas_locals n (spec_Name spec) = None"
    and dist: "distinct (map fst (spec_UserProperties spec))"
  shows "\<exists>d n'. DatasetCreate nas_call spec n = (Inr d, n') \<and> nas_wf n'
        \<and> nas_locals n' = (nas_locals n)(spec_Name spec \<mapsto> map_of (spec_UserProperties spec))
        \<and> nas_origin n' = nas_origin n"
proof -
  let ?i = "spec_Name spec"
  define ps where "ps = fold (\<lambda>(k, v). put k v) (spec_UserProperties spec) []"
  define n' where "n' = n\<lparr>datasets := put ?i ps (datasets n)\<rparr>"
  have ps: "distinct (map fst ps)" "map_of ps = map_of (spec_UserProperties spec)"
    using map_of_fold_put_id [OF dist] by (simp_all add: ps_def)
  have "apply_entries (jget ''user_properties'' (obj_members (payload spec))) [] = ps"
    unfolding payload_fields ps_def by (simp add: apply_entries_props) (simp add: apply_entries_def)
  then have c: "nas_create [payload spec] n = (Inr (jsonOf n' ?i), n')"
    by (simp add: nas_create_def payload_fields str_or_empty_def n'_def Let_def)
  note wf' = nas_put_wf [OF wf ps(1), of ?i, folded n'_def]
  then obtain d where "decode_dataset (jsonOf n' ?i) = Some d"
    using decode_jsonOf [of n' ?i "map_of ps"] by auto
  then have "DatasetCreate nas_call spec n = (Inr d, n')"
    by (simp add: DatasetCreate_def tryE_def CallJSON_def bindE_def nas_call_def c retE_def)
  moreover have "nas_origin n' = nas_origin n" by (simp add: nas_origin_def n'_def fun_eq_iff)
  ultimately show ?thesis using wf' ps(2) by (intro exI [of _ d] exI [of _ n']) simp
qed

lemma nas_SetUserProperty:
  assumes wf: "nas_wf n" and there: "nas_locals n i = Some ps"
  shows "\<exists>n'. SetUserProperty nas_call i k v n = (Inr (), n') \<and> nas_wf n'
        \<and> nas_locals n' = (nas_locals n)(i \<mapsto> ps(k \<mapsto> v)) \<and> nas_origin n' = nas_origin n"
proof -
  from there obtain own where own: "map_of (datasets n) i = Some own" "ps = map_of own"
    by (auto simp: nas_locals_def)
  then have dist: "distinct (map fst (put k v own))"
    using wf map_of_SomeD [OF own(1)] unfolding nas_wf_def by auto
  define n' where "n' = n\<lparr>datasets := put i (put k v own) (datasets n)\<rparr>"
  let ?patch = "JObj [(''user_properties_update'', props_json [(k, v)])]"
  have c: "nas_update [JStr i, ?patch] n = (Inr (jsonOf n' i), n')"
    by (simp add: nas_update_def str_or_empty_def own obj_members_def jget_def apply_entries_props
        n'_def Let_def)
  note wf' = nas_put_wf [OF wf dist, of i, folded n'_def]
  then obtain d where "decode_dataset (jsonOf n' i) = Some d"
    using decode_jsonOf [of n' i "map_of (put k v own)"] by auto
  then have "SetUserProperty nas_call i k v n = (Inr (), n')"
    by (simp add: SetUserProperty_def DatasetUpdate_def CallJSON_def bindE_def nas_call_def c retE_def)
  moreover have "nas_origin n' = nas_origin n" by (simp add: nas_origin_def n'_def fun_eq_iff)
  ultimately show ?thesis using wf' own(2) by (intro exI [of _ n']) simp
qed
lemma follow_rename_origins:
  "snd ` set (map (follow_rename i j) ds) = (\<lambda>x. if x = i then j else x) ` snd ` set ds"
  unfolding set_map image_image
  by (intro image_cong refl) (simp add: follow_rename_def case_prod_beta)

lemma nas_DatasetRename:
  assumes wf: "nas_wf n" and there: "nas_locals n i = Some ps" and free: "nas_locals n j = None"
  shows "\<exists>n'. DatasetRename nas_call i j True n = (Inr (), n') \<and> nas_wf n'
        \<and> nas_locals n' = (nas_locals n)(i := None, j \<mapsto> ps)
        \<and> nas_origin n' = (nas_origin n)(i := False, j := nas_origin n i)"
proof -
  from there obtain own where own: "map_of (datasets n) i = Some own" "ps = map_of own"
    by (auto simp: nas_locals_def)
  then have dist: "distinct (map fst own)"
    using wf map_of_SomeD [OF own(1)] unfolding nas_wf_def by auto
  have nfree: "map_of (datasets n) j = None" using free by (simp add: nas_locals_def)
  have ij: "i \<noteq> j" using there free by auto
  define n0 where "n0 = n\<lparr>datasets := del i (datasets n),
    clonedFrom := [], forces := forces n @ [True]\<rparr>"
  define n' where "n' = n\<lparr>datasets := put j own (del i (datasets n)),
    clonedFrom := map (follow_rename i j) (clonedFrom n), forces := forces n @ [True]\<rparr>"
  let ?ps = "[JStr i, JObj [(''new_name'', JStr j), (''force'', JBool True)]]"
  have "renameFail n = None" using wf by (simp add: nas_wf_def)
  then have c: "nas_rename ?ps n = (Inr JNull, n')"
    by (simp add: nas_rename_def str_or_empty_def obj_members_def jget_def own nfree Let_def n'_def)
  have sub: "set (del i (datasets n)) \<subseteq> set (datasets n)" by (auto simp: del_def)
  have "nas_wf n0" using wf sub by (auto simp: nas_wf_def n0_def)
  note wf0 = nas_put_wf [OF this dist, of j]
  have "clonedFrom n' = map (follow_rename i j) (clonedFrom n)" by (simp add: n'_def)
  then have orig: "snd ` set (clonedFrom n') = (\<lambda>x. if x = i then j else x) ` snd ` set (clonedFrom n)"
    by (simp only: follow_rename_origins)
  have sub: "snd ` set (clonedFrom n) \<subseteq> fst ` set (datasets n)" using wf by (simp add: nas_wf_def)
  then have jo: "j \<notin> snd ` set (clonedFrom n)"
    using nfree by (auto simp: map_of_eq_None_iff)
  have "snd ` set (clonedFrom n') \<subseteq> fst ` set (datasets n')"
    unfolding orig using sub by (auto simp: n'_def)
  then have "nas_wf n'" using wf0(1) by (auto simp: nas_wf_def n'_def n0_def)
  moreover have "nas_locals n' = (nas_locals n)(i := None, j \<mapsto> ps)"
    using wf0(2) own(2) by (auto simp: n'_def n0_def nas_locals_def fun_eq_iff)
  moreover have "nas_origin n' = (nas_origin n)(i := False, j := nas_origin n i)"
    unfolding nas_origin_def orig using ij jo by (auto simp: fun_eq_iff)
  moreover have "DatasetRename nas_call i j True n = (Inr (), n')"
    by (simp add: DatasetRename_def CallUnit_def CallJSON_def bindE_def nas_call_def c retE_def)
  ultimately show ?thesis by blast
qed

lemma nas_busy_error:
  fixes e
  defines "e \<equiv> rpc_error ''pool.dataset.delete'' (- 32001) ''EBUSY''
    ''[EBUSY] dataset is busy: snapshot has dependent clones''"
  shows "IsHasDependentClones e" "\<not> IsNotFound e" "IsBusy e"
  unfolding e_def by code_simp+

lemma IsNotFound_nas [simp]: "IsNotFound (nas_notFound m i)"
  by (simp add: nas_notFound_def rpc_error_def IsNotFound_def errors_As_def)

lemma nas_clonesOf:
  assumes "nas_wf n"
  shows "\<exists>cs. clonesOf nas_call i n = (Inr cs, n)"
proof -
  define p where "p = (case cut_on (CHR ''/'') i of (p, _, found) \<Rightarrow> if found \<and> p \<noteq> [] then p else i)"
  obtain ds where "DatasetList nas_call p n = (Inr ds, n)" using nas_DatasetList [OF assms] by blast
  then show ?thesis unfolding clonesOf_def p_def [symmetric] by (simp add: tryE_def retE_def)
qed

lemma nas_DatasetDelete:
  assumes wf: "nas_wf n"
  shows "nas_locals n i = None \<Longrightarrow> DatasetDelete nas_call i rec force n = (Inr (), n)"
    and "nas_locals n i = Some ps \<Longrightarrow> nas_origin n i \<Longrightarrow>
      \<exists>e. DatasetDelete nas_call i rec force n = (Inl e, n) \<and> IsHasDependentClones e"
    and "nas_locals n i = Some ps \<Longrightarrow> \<not> nas_origin n i \<Longrightarrow>
      \<exists>n'. DatasetDelete nas_call i rec force n = (Inr (), n') \<and> nas_wf n'
        \<and> nas_locals n' = (nas_locals n)(i := None) \<and> nas_origin n' = nas_origin n"
proof -
  let ?ps = "[JStr i, JObj [(''recursive'', JBool rec), (''force'', JBool force)]]"
  let ?busy = "rpc_error ''pool.dataset.delete'' (- 32001) ''EBUSY''
    ''[EBUSY] dataset is busy: snapshot has dependent clones''"
  have d: "DatasetDelete nas_call i rec force n = (case nas_delete ?ps n of
      (Inr _, n') \<Rightarrow> (Inr (), n')
    | (Inl e, n') \<Rightarrow> if IsNotFound e then (Inr (), n')
        else if IsHasDependentClones e
        then tryE (clonesOf nas_call i) (\<lambda>_. failE (WithStatus FailedPrecondition e)) n'
        else (Inl e, n'))"
    by (simp add: DatasetDelete_def tryE_def CallUnit_def CallJSON_def bindE_def nas_call_def retE_def failE_def
        split: prod.split sum.split)
  show "DatasetDelete nas_call i rec force n = (Inr (), n)" if "nas_locals n i = None"
    unfolding d using that by (simp add: nas_delete_def str_or_empty_def nas_locals_def)
  show "\<exists>e. DatasetDelete nas_call i rec force n = (Inl e, n) \<and> IsHasDependentClones e"
    if "nas_locals n i = Some ps" "nas_origin n i"
  proof -
    have "nas_delete ?ps n = (Inl ?busy, n)"
      using that by (auto simp: nas_delete_def str_or_empty_def nas_locals_def nas_origin_def)
    moreover obtain cs where "clonesOf nas_call i n = (Inr cs, n)"
      using nas_clonesOf [OF wf] by blast
    ultimately have "DatasetDelete nas_call i rec force n = (Inl (WithStatus FailedPrecondition ?busy), n)"
      unfolding d using nas_busy_error by (simp add: tryE_def failE_def)
    moreover have "IsHasDependentClones (WithStatus FailedPrecondition ?busy)"
      using nas_busy_error(1) by (simp add: IsHasDependentClones_def withStatus_keeps_cause)
    ultimately show ?thesis by blast
  qed
  show "\<exists>n'. DatasetDelete nas_call i rec force n = (Inr (), n') \<and> nas_wf n'
        \<and> nas_locals n' = (nas_locals n)(i := None) \<and> nas_origin n' = nas_origin n"
    if a: "nas_locals n i = Some ps" "\<not> nas_origin n i"
  proof -
    let ?n = "n\<lparr>datasets := del i (datasets n)\<rparr>"
    have "nas_delete ?ps n = (Inr (JBool True), ?n)"
      using a by (auto simp: nas_delete_def str_or_empty_def nas_locals_def nas_origin_def)
    then have "DatasetDelete nas_call i rec force n = (Inr (), ?n)" unfolding d by simp
    moreover have "set (del i (datasets n)) \<subseteq> set (datasets n)" by (auto simp: del_def)
    then have "nas_wf ?n" using wf a(2) by (auto simp: nas_wf_def nas_origin_def)
    moreover have "nas_locals ?n = (nas_locals n)(i := None)" by (simp add: nas_locals_def fun_eq_iff)
    moreover have "nas_origin ?n = nas_origin n" by (simp add: nas_origin_def fun_eq_iff)
    ultimately show ?thesis by blast
  qed
qed

lemma nas_query_cases:
  assumes "nas_wf n" "DatasetQuery nas_call i n = (r, n')"
  obtains "n' = n" "r = Inr None" "nas_locals n i = None"
  | ps d where "n' = n" "r = Inr (Some d)" "nas_locals n i = Some ps" "reports i ps d"
proof (cases "nas_locals n i")
  case None
  then show thesis using nas_DatasetQuery(1) [OF assms(1) None] assms(2) that(1) by simp
next
  case (Some ps)
  from nas_DatasetQuery(2) [OF assms(1) Some] obtain d where "DatasetQuery nas_call i n = (Inr (Some d), n)" "reports i ps d"
    by blast
  with assms(2) have "r = Inr (Some d)" "n' = n" by simp_all
  with Some \<open>reports i ps d\<close> show thesis by (intro that(2))
qed

lemma nas_delete_cases:
  assumes "nas_wf n" "DatasetDelete nas_call i rec force n = (r, n')"
  obtains "n' = n" "r = Inr () \<longrightarrow> nas_locals n i = None"
  | "nas_wf n'" "nas_locals n' = (nas_locals n)(i := None)"
proof (cases "nas_locals n i")
  case None
  then show thesis using nas_DatasetDelete(1) [OF assms(1) None, of rec force] assms(2) that(1) by simp
next
  case (Some ps)
  show thesis
  proof (cases "nas_origin n i")
    case True
    from nas_DatasetDelete(2) [OF assms(1) Some True, of rec force] assms(2) that(1) show thesis by auto
  next
    case False
    from nas_DatasetDelete(3) [OF assms(1) Some False, of rec force] assms(2) that(2) show thesis by auto
  qed
qed

lemma nas_is_store: "dataset_store nas_call nas_wf nas_locals"
proof (unfold_locales, goal_cases)
  case (1 s i r s')
  show ?case by (rule nas_query_cases [OF 1]) (use 1(1) in \<open>simp_all\<close>)
next
  case (2 s i s')
  show ?case by (rule nas_query_cases [OF 2]) (use 2(1) in \<open>simp_all\<close>)
next
  case (3 s i d s')
  show ?case by (rule nas_query_cases [OF 3]) (use 3(1) in \<open>simp_all\<close>)
next
  case (4 s pre r s')
  from nas_DatasetList [OF 4(1), of pre] 4 show ?case by auto
next
  case (5 s pre ds s')
  from nas_DatasetList [OF 5(1), of pre] obtain ds' where d: "DatasetList nas_call pre s = (Inr ds', s)"
    "(\<forall>d \<in> set ds'. \<exists>ps. nas_locals s (ds_ID d) = Some ps \<and> reports (ds_ID d) ps d)
      \<and> (ds_ID ` set ds' = {i \<in> dom (nas_locals s). has_prefix pre i}) \<and> distinct (map ds_ID ds')" by blast
  from d(1) 5(2) have "ds' = ds" by simp
  with d(2) show ?case by simp
next
  case (6 s spec d s')
  from nas_DatasetCreate [OF 6(1-3)] 6(4) show ?case by (metis Pair_inject)
next
  case (7 s i ps k v u s')
  from nas_SetUserProperty [OF 7(1,2), of k v] 7(3) show ?case by (metis Pair_inject)
next
  case (8 s i ps j s')
  from nas_DatasetRename [OF 8(1,2,4)] 8(5) show ?case by (metis Pair_inject)
next
  case (9 s i j e s')
  from 9(2) obtain ps where "nas_locals s i = Some ps" by blast
  from nas_DatasetRename [OF 9(1) this 9(3)] 9(4) show ?case by auto
next
  case (10 s i force u s')
  show ?case by (rule nas_delete_cases [OF 10]) (use 10(1) in \<open>simp_all add: below_def\<close>)
next
  case (11 s i force s')
  show ?case by (rule nas_delete_cases [OF 11]) simp_all
qed

interpretation nas_store: dataset_store nas_call nas_wf nas_locals
  by (rule nas_is_store)

section \<open>Adding a component to the state\<close>

text \<open>
  A call that leaves an added component of the state alone, and that every typed client call
  over such a transport is one.
\<close>

definition lifted :: "('s, 'e, 'a) op \<Rightarrow> ('s \<times> 't, 'e, 'a) op" where
  "lifted f sc = (case f (fst sc) of (r, s') \<Rightarrow> (r, (s', snd sc)))"

definition lift_call :: "'s transport \<Rightarrow> ('s \<times> 't) transport" where
  "lift_call call m ps = lifted (call m ps)"

named_theorems lifting

lemma lifted_bindE [lifting]: "bindE (lifted m) (\<lambda>x. lifted (k x)) = lifted (bindE m k)"
  by (auto simp: fun_eq_iff bindE_def lifted_def split: prod.splits sum.splits)

lemma lifted_tryE [lifting]: "tryE (lifted m) (\<lambda>x. lifted (k x)) = lifted (tryE m k)"
  by (auto simp: fun_eq_iff tryE_def lifted_def split: prod.splits)

lemma lifted_retE [lifting]: "lifted (retE x) = retE x"
  by (auto simp: fun_eq_iff retE_def lifted_def)

lemma lifted_failE [lifting]: "lifted (failE e) = failE e"
  by (auto simp: fun_eq_iff failE_def lifted_def)

lemma lift_CallJSON [lifting]: "CallJSON (lift_call call) dec m ps = lifted (CallJSON call dec m ps)"
  by (auto simp: fun_eq_iff CallJSON_def lift_call_def bindE_def lifted_def retE_def failE_def
      split: prod.splits sum.splits option.splits)

lemma lift_Ops [lifting]:
  "DatasetQuery (lift_call call) i = lifted (DatasetQuery call i)"
  "DatasetList (lift_call call) pre = lifted (DatasetList call pre)"
  "DatasetUpdate (lift_call call) i patch = lifted (DatasetUpdate call i patch)"
  "DatasetCreate (lift_call call) spec = lifted (DatasetCreate call spec)"
  "DatasetRename (lift_call call) i j f = lifted (DatasetRename call i j f)"
  by (auto simp: fun_eq_iff DatasetQuery_def DatasetList_def DatasetUpdate_def DatasetCreate_def
      DatasetRename_def CallUnit_def lifting tryE_def lifted_def retE_def failE_def
      split: prod.splits sum.splits list.splits)

lemma lift_SetUserProperty [lifting]:
  "SetUserProperty (lift_call call) i k v = lifted (SetUserProperty call i k v)"
  by (auto simp: fun_eq_iff SetUserProperty_def lift_Ops bindE_def lifted_def retE_def
      split: prod.splits sum.splits)

lemma lift_clonesOf [lifting]: "clonesOf (lift_call call) i = lifted (clonesOf call i)"
  by (auto simp: fun_eq_iff clonesOf_def lift_Ops Let_def tryE_def lifted_def retE_def
      split: prod.splits sum.splits)

lemma lift_DatasetDelete [lifting]:
  "DatasetDelete (lift_call call) i rec f = lifted (DatasetDelete call i rec f)"
  by (auto simp: fun_eq_iff DatasetDelete_def CallUnit_def lift_CallJSON lift_clonesOf tryE_def
      lifted_def retE_def failE_def split: prod.splits sum.splits)

lemma lifted_run: "lifted f s = (r, s') \<longleftrightarrow> f (fst s) = (r, fst s') \<and> snd s' = snd s"
  by (cases "f (fst s)"; cases s') (auto simp: lifted_def)

context dataset_store
begin

lemma lift_store:
  fixes K :: "'t \<Rightarrow> bool"
  shows "dataset_store (lift_call call) (\<lambda>s. wf (fst s) \<and> K (snd s)) (\<lambda>s. locals (fst s))"
proof (unfold_locales, unfold lift_Ops lift_SetUserProperty lift_DatasetDelete lifted_run, goal_cases)
  case (1 s i r s') then show ?case using query_keeps [of "fst s" i r "fst s'"] by simp
next
  case (2 s i s') then show ?case using query_absent [of "fst s" i "fst s'"] by simp
next
  case (3 s i d s') then show ?case using query_present [of "fst s" i d "fst s'"] by simp
next
  case (4 s pre r s') then show ?case using list_keeps [of "fst s" pre r "fst s'"] by simp
next
  case (5 s pre ds s') then show ?case using list_reports [of "fst s" pre ds "fst s'"] by simp
next
  case (6 s spec d s') then show ?case using create_new [of "fst s" spec d "fst s'"] by simp
next
  case (7 s i ps k v u s') then show ?case using set_property [of "fst s" i ps k v u "fst s'"] by simp
next
  case (8 s i ps j s') then show ?case using rename_leaf [of "fst s" i ps j "fst s'"] by simp
next
  case (9 s i j e s') then show ?case using rename_busy [of "fst s" i j e "fst s'"] by simp
next
  case (10 s i force u s') then show ?case using delete_outside [of "fst s" i force u "fst s'"] by simp
next
  case (11 s i force s') then show ?case using delete_done [of "fst s" i force "fst s'"] by simp
qed

end

end
