(* ===== verification/Calls.thy ===== *)
theory Calls
  imports TrueNAS
begin

text \<open>
  Which middleware calls a piece of code may make. \<open>recording\<close> is a transport that keeps a
  record of the calls made through it, and \<open>only_calls P f\<close> says that every call \<open>f\<close> makes
  satisfies \<open>P\<close>, whatever the appliance answers. One rule per way of sequencing calls and one
  per client operation make the statement compositional.
\<close>

type_synonym record_of_calls = "(string \<times> json list) list"

definition recording :: "'s transport \<Rightarrow> ('s \<times> record_of_calls) transport" where
  "recording call m ps sl = (case call m ps (fst sl) of (r, s') \<Rightarrow> (r, (s', snd sl @ [(m, ps)])))"

definition only_calls ::
  "(string \<times> json list \<Rightarrow> bool) \<Rightarrow> ('s \<times> record_of_calls \<Rightarrow> 'r \<times> ('s \<times> record_of_calls)) \<Rightarrow> bool" where
  "only_calls P f \<longleftrightarrow> (\<forall>sl r sl'. f sl = (r, sl') \<longrightarrow> (\<exists>new. snd sl' = snd sl @ new \<and> list_all P new))"

named_theorems calls \<open>the calls an operation may make\<close>

lemma only_callsD:
  assumes "only_calls P f" "f sl = (r, sl')"
  shows "\<exists>new. snd sl' = snd sl @ new \<and> list_all P new"
  using assms unfolding only_calls_def by blast

lemma only_calls_basic [calls]:
  "only_calls P (retE x)" "only_calls P (failE e)" "only_calls P (liftE v)" "only_calls P (Pair r)"
  by (auto simp: only_calls_def retE_def failE_def liftE_def)

lemma only_calls_recording: "P (m, ps) \<Longrightarrow> only_calls P (recording call m ps)"
  by (auto simp: only_calls_def recording_def split: prod.splits)

lemma only_calls_seq:
  assumes "only_calls P f" "f sl = (r, sl')" "only_calls P g" "g sl' = (r', sl'')"
  shows "\<exists>new. snd sl'' = snd sl @ new \<and> list_all P new"
  using only_callsD [OF assms(1,2)] only_callsD [OF assms(3,4)] by auto

lemma only_calls_tryE [calls]:
  assumes "only_calls P f" "\<And>x. only_calls P (h x)"
  shows "only_calls P (tryE f h)"
  unfolding only_calls_def tryE_def using only_calls_seq [OF assms(1) _ assms(2)]
  by (auto split: prod.splits)

lemma only_calls_bindE [calls]:
  assumes "only_calls P f" "\<And>x. only_calls P (h x)"
  shows "only_calls P (bindE f h)"
  unfolding only_calls_def bindE_def
  using only_calls_seq [OF assms(1) _ assms(2)] only_callsD [OF assms(1)]
  by (auto split: prod.splits sum.splits)

lemma only_calls_cases [calls]:
  "(\<And>e. r = Inl e \<Longrightarrow> only_calls P (f e)) \<Longrightarrow> (\<And>x. r = Inr x \<Longrightarrow> only_calls P (g x)) \<Longrightarrow>
     only_calls P (case r of Inl e \<Rightarrow> f e | Inr x \<Rightarrow> g x)"
  "(o' = None \<Longrightarrow> only_calls P a) \<Longrightarrow> (\<And>x. o' = Some x \<Longrightarrow> only_calls P (k x)) \<Longrightarrow>
     only_calls P (case o' of None \<Rightarrow> a | Some x \<Rightarrow> k x)"
  "(ys = [] \<Longrightarrow> only_calls P a) \<Longrightarrow> (\<And>x xs. ys = x # xs \<Longrightarrow> only_calls P (l x xs)) \<Longrightarrow>
     only_calls P (case ys of [] \<Rightarrow> a | x # xs \<Rightarrow> l x xs)"
  "(c \<Longrightarrow> only_calls P a) \<Longrightarrow> (\<not> c \<Longrightarrow> only_calls P b) \<Longrightarrow> only_calls P (if c then a else b)"
  "(\<And>x y. q = (x, y) \<Longrightarrow> only_calls P (m x y)) \<Longrightarrow> only_calls P (case q of (x, y) \<Rightarrow> m x y)"
  by (simp_all split: sum.split option.split list.split prod.split)

lemma only_calls_mono: "only_calls P f \<Longrightarrow> (\<And>c. P c \<Longrightarrow> Q c) \<Longrightarrow> only_calls Q f"
  unfolding only_calls_def by (metis (mono_tags, lifting) list.pred_mono_strong)

lemma only_calls_CallJSON: "P (m, ps) \<Longrightarrow> only_calls P (CallJSON (recording call) dec m ps)"
  unfolding CallJSON_def by (intro calls only_calls_recording)

text \<open>What each client operation calls.\<close>

lemma calls_Query:
  assumes "\<And>ps. P (''pool.dataset.query'', ps)"
  shows "only_calls P (DatasetQuery (recording call) i)" "only_calls P (DatasetList (recording call) pre)"
    "only_calls P (clonesOf (recording call) i)"
proof -
  show l: "only_calls P (DatasetList (recording call) pre)" for pre
    unfolding DatasetList_def by (intro calls only_calls_CallJSON assms)
  show "only_calls P (DatasetQuery (recording call) i)"
    unfolding DatasetQuery_def by (intro calls only_calls_CallJSON assms)
  show "only_calls P (clonesOf (recording call) i)"
    unfolding clonesOf_def Let_def by (intro calls l)
qed

lemma calls_DatasetDelete:
  assumes "\<And>ps. P (''pool.dataset.query'', ps)"
    and "P (''pool.dataset.delete'', [JStr i, JObj [(''recursive'', JBool rec), (''force'', JBool force)]])"
  shows "only_calls P (DatasetDelete (recording call) i rec force)"
  unfolding DatasetDelete_def CallUnit_def by (intro calls only_calls_CallJSON calls_Query assms)

lemma calls_DatasetCreate:
  "P (''pool.dataset.create'', [payload spec]) \<Longrightarrow> only_calls P (DatasetCreate (recording call) spec)"
  unfolding DatasetCreate_def by (intro calls only_calls_CallJSON)

lemma calls_DatasetUpdate:
  "P (''pool.dataset.update'', [JStr i, patch]) \<Longrightarrow> only_calls P (DatasetUpdate (recording call) i patch)"
  unfolding DatasetUpdate_def by (intro calls only_calls_CallJSON)

lemma calls_SetUserProperty:
  "P (''pool.dataset.update'', [JStr i, JObj [(''user_properties_update'', props_json [(k, v)])]]) \<Longrightarrow>
     only_calls P (SetUserProperty (recording call) i k v)"
  unfolding SetUserProperty_def by (intro calls calls_DatasetUpdate)

lemma calls_DatasetRename:
  "P (''pool.dataset.rename'', [JStr i, JObj [(''new_name'', JStr j), (''force'', JBool f)]]) \<Longrightarrow>
     only_calls P (DatasetRename (recording call) i j f)"
  unfolding DatasetRename_def CallUnit_def by (intro calls only_calls_CallJSON)

text \<open>
  Recording changes nothing about the run: \<open>tracks f g\<close> says that \<open>f\<close>, run through the
  recording transport, returns what \<open>g\<close> returns through the transport itself.
\<close>

definition tracks :: "('s \<times> record_of_calls \<Rightarrow> 'r \<times> ('s \<times> record_of_calls)) \<Rightarrow> ('s \<Rightarrow> 'r \<times> 's) \<Rightarrow> bool" where
  "tracks f g \<longleftrightarrow> (\<forall>s l. \<exists>l'. f (s, l) = (fst (g s), (snd (g s), l')))"

named_theorems tracking \<open>operations that are tracked by their recorded run\<close>

lemma tracks_basic [tracking]:
  "tracks (retE x) (retE x)" "tracks (failE e) (failE e)" "tracks (liftE v) (liftE v)" "tracks (Pair r) (Pair r)"
  by (simp_all add: tracks_def retE_def failE_def liftE_def)

lemma tracks_recording [tracking]: "tracks (recording call m ps) (call m ps)"
  by (simp add: tracks_def recording_def split: prod.splits)

lemma tracks_tryE [tracking]:
  assumes "tracks f g" "\<And>x. tracks (h x) (k x)"
  shows "tracks (tryE f h) (tryE g k)"
  unfolding tracks_def tryE_def
proof (intro allI)
  fix s l
  obtain l1 where 1: "f (s, l) = (fst (g s), (snd (g s), l1))" using assms(1) unfolding tracks_def by blast
  obtain l2 where 2: "h (fst (g s)) (snd (g s), l1) = (fst (k (fst (g s)) (snd (g s))), (snd (k (fst (g s)) (snd (g s))), l2))"
    using assms(2) unfolding tracks_def by blast
  show "\<exists>l'. (case f (s, l) of (r, s') \<Rightarrow> h r s') =
      (fst (case g s of (r, s') \<Rightarrow> k r s'), (snd (case g s of (r, s') \<Rightarrow> k r s'), l'))"
    using 1 2 by (auto split: prod.splits)
qed

lemma bindE_as_tryE: "bindE f h = tryE f (\<lambda>r. case r of Inl e \<Rightarrow> failE e | Inr x \<Rightarrow> h x)"
  by (auto simp: fun_eq_iff bindE_def tryE_def failE_def split: prod.splits sum.splits)

lemma tracks_bindE [tracking]:
  "tracks f g \<Longrightarrow> (\<And>x. tracks (h x) (k x)) \<Longrightarrow> tracks (bindE f h) (bindE g k)"
  unfolding bindE_as_tryE by (rule tracks_tryE) (auto split: sum.split intro: tracks_basic)

lemma tracks_cases [tracking]:
  "(\<And>e. tracks (f e) (f' e)) \<Longrightarrow> (\<And>x. tracks (g x) (g' x)) \<Longrightarrow>
     tracks (case r of Inl e \<Rightarrow> f e | Inr x \<Rightarrow> g x) (case r of Inl e \<Rightarrow> f' e | Inr x \<Rightarrow> g' x)"
  "tracks a a' \<Longrightarrow> (\<And>x. tracks (k x) (k' x)) \<Longrightarrow>
     tracks (case o' of None \<Rightarrow> a | Some x \<Rightarrow> k x) (case o' of None \<Rightarrow> a' | Some x \<Rightarrow> k' x)"
  "tracks a a' \<Longrightarrow> (\<And>x xs. tracks (l x xs) (l' x xs)) \<Longrightarrow>
     tracks (case ys of [] \<Rightarrow> a | x # xs \<Rightarrow> l x xs) (case ys of [] \<Rightarrow> a' | x # xs \<Rightarrow> l' x xs)"
  "tracks a a' \<Longrightarrow> tracks b b' \<Longrightarrow> tracks (if c then a else b) (if c then a' else b')"
  by (simp_all split: sum.split option.split list.split)

lemma tracks_CallJSON [tracking]: "tracks (CallJSON (recording call) dec m ps) (CallJSON call dec m ps)"
  unfolding CallJSON_def by (intro tracking)

lemma tracks_Ops [tracking]:
  "tracks (DatasetQuery (recording call) i) (DatasetQuery call i)"
  "tracks (DatasetList (recording call) pre) (DatasetList call pre)"
  "tracks (DatasetCreate (recording call) spec) (DatasetCreate call spec)"
  "tracks (DatasetUpdate (recording call) i patch) (DatasetUpdate call i patch)"
  "tracks (SetUserProperty (recording call) i k v) (SetUserProperty call i k v)"
  unfolding DatasetQuery_def DatasetList_def DatasetCreate_def SetUserProperty_def DatasetUpdate_def
  by (intro tracking)+

lemma run_recording:
  assumes "tracks f g" "only_calls P f" "g s = (r, s')"
  obtains new where "f (s, l) = (r, (s', l @ new))" "list_all P new"
proof -
  have "\<exists>l'. f (s, l) = (fst (g s), (snd (g s), l'))" using assms(1) unfolding tracks_def by blast
  then obtain l' where "f (s, l) = (r, (s', l'))" unfolding assms(3) by auto
  with only_callsD [OF assms(2) this] that show thesis by auto
qed

end
