(* ===== verification/Retention.thy ===== *)
theory Retention
  imports Appliance Calls
begin

text \<open>
  \<^verbatim>\<open>internal/retention\<close>: delete protection. A deleted volume's dataset is renamed into a
  graveyard dataset (\<^verbatim>\<open>retire.go\<close>) and destroyed by the reaper once its grace period is over
  (\<^verbatim>\<open>reap.go\<close>). The clock and the interruptible sleep of the retry loop are parameters:
  \<open>now\<close> is \<^verbatim>\<open>time.Now\<close>, and \<open>wait d\<close> is the \<^verbatim>\<open>select\<close> between the context and a timer of
  \<open>d\<close> nanoseconds, with the answer whether the context ended first.
\<close>

section \<open>The policy\<close>

record policy =
  pol_Pool :: string
  pol_Parent :: string
  pol_Graveyard :: string
  pol_Grace :: int
  pol_ReapInterval :: int

definition On :: "policy \<Rightarrow> bool" where
  "On p \<longleftrightarrow> pol_Grace p > 0 \<and> pol_Pool p \<noteq> [] \<and> pol_Parent p \<noteq> [] \<and> pol_Graveyard p \<noteq> []"

definition Root :: "policy \<Rightarrow> string" where
  "Root p = pol_Pool p @ ''/'' @ pol_Parent p @ ''/'' @ pol_Graveyard p"

definition graveyard_prefix :: "policy \<Rightarrow> string" where
  "graveyard_prefix p = Root p @ ''/''"

definition ConfineToGraveyard :: "policy \<Rightarrow> string \<Rightarrow> go_error + unit" where
  "ConfineToGraveyard p i =
     (if \<not> On p then Inl (Wrapped [Sentinel ErrOutsideGraveyard])
      else if i = Root p then Inl (Wrapped [Sentinel ErrOutsideGraveyard])
      else case cut_prefix (graveyard_prefix p) i of
             None \<Rightarrow> Inl (Wrapped [Sentinel ErrOutsideGraveyard])
           | Some rest \<Rightarrow>
               if rest = [] then Inl (Wrapped [Sentinel ErrOutsideGraveyard])
               else if contains_str ''/'' rest then Inl (Wrapped [Sentinel ErrOutsideGraveyard])
               else Inr ())"

section \<open>Retiring\<close>

definition ensureGraveyard :: "'s transport \<Rightarrow> policy \<Rightarrow> ('s, go_error, unit) op" where
  "ensureGraveyard call p =
     (let root = Root p
      in tryE (DatasetQuery call root)
           (\<lambda>r. case r of
              Inl e \<Rightarrow> failE (Wrapped [e])
            | Inr (Some ds) \<Rightarrow>
                if \<not> IsGraveyard (LocalProperty ds GraveyardProperty)
                then failE (Plain ''dataset exists but is not this driver's graveyard'')
                else retE ()
            | Inr None \<Rightarrow>
                tryE (DatasetCreate call
                   \<lparr>spec_Name = root, spec_Type = ''FILESYSTEM'', spec_VolSize = 0, spec_RefQuota = 0,
                    spec_Sparse = False, spec_VolBlockSize = [], spec_ShareType = [],
                    spec_UserProperties = [(OwnerProperty, OwnerValue), (OwnerIDProperty, root),
                                           (GraveyardProperty, GraveyardValue)]\<rparr>)
                  (\<lambda>r. case r of Inl e \<Rightarrow> failE (Wrapped [e]) | Inr _ \<Rightarrow> retE ())))"

definition maxEntryName :: nat where "maxEntryName = 120"

definition sanitise_component_rune :: "nat \<Rightarrow> char" where
  "sanitise_component_rune r =
     (if ascii_letter r \<or> ascii_digit r then char_of r
      else if r = 45 \<or> r = 95 \<or> r = 46 then char_of r
      else CHR ''-'')"

definition sanitiseComponent :: "string \<Rightarrow> string" where
  "sanitiseComponent s =
     (let out = trim_char (CHR ''-'') (map sanitise_component_rune (runes s))
      in if out = [] \<or> out = ''.'' \<or> out = ''..'' then ''volume'' else out)"

definition entryName :: "vol_id \<Rightarrow> int \<Rightarrow> string" where
  "entryName i deletedAt =
     (let leaf = (if id_Namespace i \<noteq> [] then id_Namespace i @ ''-'' @ id_Name i else id_Name i);
          name = time_Format entry_layout deletedAt @ ''-'' @ sanitiseComponent leaf
      in if length name > maxEntryName then take maxEntryName name else name)"

definition maxEntryAttempts :: nat where "maxEntryAttempts = 32"

fun try_entries :: "'s transport \<Rightarrow> policy \<Rightarrow> string \<Rightarrow> nat list \<Rightarrow> ('s, go_error, string) op" where
  "try_entries call p base [] = failE (Plain ''no free name'')"
| "try_entries call p base (attempt # rest) =
     (let name = (if attempt > 1 then base @ ''-'' @ FormatInt (int attempt) else base);
          path = Root p @ ''/'' @ name
      in tryE (DatasetQuery call path)
           (\<lambda>r. case r of
              Inl e \<Rightarrow> failE (Wrapped [e])
            | Inr None \<Rightarrow> retE path
            | Inr (Some _) \<Rightarrow> try_entries call p base rest))"

definition freeEntry :: "'s transport \<Rightarrow> policy \<Rightarrow> vol_id \<Rightarrow> int \<Rightarrow> ('s, go_error, string) op" where
  "freeEntry call p i deletedAt =
     try_entries call p (entryName i deletedAt) [1 ..< maxEntryAttempts + 1]"

definition renameRetryTimeout :: int where "renameRetryTimeout = 30 * nanos"

text \<open>The loop of \<^verbatim>\<open>renameWhenReleased\<close>; \<open>None\<close> is running out of fuel.\<close>

fun rename_loop ::
  "'s transport \<Rightarrow> ('s \<Rightarrow> int \<times> 's) \<Rightarrow> (int \<Rightarrow> 's \<Rightarrow> bool \<times> 's) \<Rightarrow> nat \<Rightarrow> string \<Rightarrow> string \<Rightarrow> int \<Rightarrow> int \<Rightarrow> 's
     \<Rightarrow> ((go_error + unit) \<times> 's) option" where
  "rename_loop call now wait 0 src dst deadline delay s = None"
| "rename_loop call now wait (Suc n) src dst deadline delay s =
     (case DatasetRename call src dst True s of
        (Inr _, s1) \<Rightarrow> Some (Inr (), s1)
      | (Inl e, s1) \<Rightarrow>
          if \<not> IsBusy e then Some (Inl e, s1)
          else (case now s1 of
                  (t, s2) \<Rightarrow>
                    if t > deadline then Some (Inl e, s2)
                    else (case wait delay s2 of
                            (True, s3) \<Rightarrow> Some (Inl (Plain ''context ended''), s3)
                          | (False, s3) \<Rightarrow>
                              rename_loop call now wait n src dst deadline
                                (if delay < 2 * nanos then delay * 2 else delay) s3)))"

text \<open>The most attempts the retry window leaves room for.\<close>

definition rename_fuel :: nat where "rename_fuel = 14"

definition renameWhenReleased ::
  "'s transport \<Rightarrow> ('s \<Rightarrow> int \<times> 's) \<Rightarrow> (int \<Rightarrow> 's \<Rightarrow> bool \<times> 's) \<Rightarrow> string \<Rightarrow> string \<Rightarrow> ('s, go_error, unit) op" where
  "renameWhenReleased call now wait src dst s =
     (case now s of
        (t, s1) \<Rightarrow>
          (case rename_loop call now wait rename_fuel src dst (t + renameRetryTimeout) (200 * 1000000) s1 of
             Some r \<Rightarrow> r
           | None \<Rightarrow> (Inl (Plain ''rename loop out of fuel''), s1)))"

text \<open>Stamping the retired dataset: the first failure ends it and is not reported.\<close>

fun stamp :: "'s transport \<Rightarrow> string \<Rightarrow> (string \<times> string) list \<Rightarrow> 's \<Rightarrow> 's" where
  "stamp call dst [] s = s"
| "stamp call dst ((k, v) # rest) s =
     (case SetUserProperty call dst k v s of
        (Inl _, s') \<Rightarrow> s'
      | (Inr _, s') \<Rightarrow> stamp call dst rest s')"

definition Retire ::
  "'s transport \<Rightarrow> ('s \<Rightarrow> int \<times> 's) \<Rightarrow> (int \<Rightarrow> 's \<Rightarrow> bool \<times> 's) \<Rightarrow> policy \<Rightarrow> vol_id \<Rightarrow> ('s, go_error, unit) op" where
  "Retire call now wait p i =
     (if \<not> On p then failE (Plain ''retire called with delete protection off'')
      else case Confine i (pol_Pool p) (pol_Parent p) of
             Inl e \<Rightarrow> failE (Wrapped [e])
           | Inr _ \<Rightarrow>
               bindE (ensureGraveyard call p) (\<lambda>_ s1.
               (case now s1 of
                  (deletedAt, s2) \<Rightarrow>
                    bindE (freeEntry call p i deletedAt) (\<lambda>dst.
                    tryE (renameWhenReleased call now wait (DatasetPath i) dst) (\<lambda>r.
                    case r of
                      Inl e \<Rightarrow> failE (Wrapped [e])
                    | Inr _ \<Rightarrow>
                        (\<lambda>s. (Inr (), stamp call dst
                           [(OwnerIDProperty, dst), (DeletedAtProperty, FormatDeletedAt deletedAt),
                            (RetiredFromProperty, ID_String i)] s)))) s2)))"

definition Dispose ::
  "'s transport \<Rightarrow> ('s \<Rightarrow> int \<times> 's) \<Rightarrow> (int \<Rightarrow> 's \<Rightarrow> bool \<times> 's) \<Rightarrow> policy \<Rightarrow> vol_id
     \<Rightarrow> ('s, go_error, unit) op \<Rightarrow> ('s, go_error, unit) op" where
  "Dispose call now wait p i destroy = (if \<not> On p then destroy else Retire call now wait p i)"

section \<open>Reaping\<close>

definition deletedAtFromEntryName :: "string \<Rightarrow> go_error + int" where
  "deletedAtFromEntryName i =
     (let name = (case cut_last (CHR ''/'') i of Some (_, n) \<Rightarrow> n | None \<Rightarrow> i)
      in case cut_on (CHR ''-'') name of
           (st, _, found) \<Rightarrow>
             if \<not> found then Inl (Plain ''carries no timestamp in its name'')
             else case time_Parse entry_layout st of
                    None \<Rightarrow> Inl (Wrapped [Plain ''not a retirement timestamp''])
                  | Some t \<Rightarrow> Inr t)"

definition retirement_time :: "dataset \<Rightarrow> go_error + int" where
  "retirement_time ds =
     (case ParseDeletedAt (LocalProperty ds DeletedAtProperty) of
        Inr t \<Rightarrow> Inr t
      | Inl e \<Rightarrow>
          (case deletedAtFromEntryName (ds_ID ds) of
             Inr t \<Rightarrow> Inr t
           | Inl _ \<Rightarrow> Inl (Wrapped [Sentinel ErrNotReapable, e])))"

definition Reapable :: "dataset option \<Rightarrow> policy \<Rightarrow> int \<Rightarrow> go_error + unit" where
  "Reapable ods p now =
     (if \<not> On p then Inl (Wrapped [Sentinel ErrNotReapable])
      else case ods of
        None \<Rightarrow> Inl (Wrapped [Sentinel ErrNotReapable])
      | Some ds \<Rightarrow>
     (case ConfineToGraveyard p (ds_ID ds) of
        Inl e \<Rightarrow> Inl (Wrapped [Sentinel ErrNotReapable, e])
      | Inr _ \<Rightarrow>
     (case VerifyOwned (Some (asVolumeDataset ds)) of
        Inl e \<Rightarrow> Inl (Wrapped [Sentinel ErrNotReapable, e])
      | Inr _ \<Rightarrow>
     (case retirement_time ds of
        Inl e \<Rightarrow> Inl e
      | Inr deletedAt \<Rightarrow>
          if time_Sub now deletedAt < pol_Grace p
          then Inl (Wrapped [Sentinel ErrNotReapable, Sentinel ErrStillInGrace])
          else Inr ()))))"

fun sweep_datasets :: "'s transport \<Rightarrow> policy \<Rightarrow> int \<Rightarrow> dataset list \<Rightarrow> 's \<Rightarrow> string list \<times> 's" where
  "sweep_datasets call p now [] s = ([], s)"
| "sweep_datasets call p now (ds # rest) s =
     (case Reapable (Some ds) p now of
        Inl _ \<Rightarrow> sweep_datasets call p now rest s
      | Inr _ \<Rightarrow>
          (case DatasetDelete call (ds_ID ds) True False s of
             (Inl _, s') \<Rightarrow> sweep_datasets call p now rest s'
           | (Inr _, s') \<Rightarrow>
               (case sweep_datasets call p now rest s' of (destroyed, t) \<Rightarrow> (ds_ID ds # destroyed, t))))"

definition sweep :: "'s transport \<Rightarrow> policy \<Rightarrow> int \<Rightarrow> 's \<Rightarrow> string list \<times> 's" where
  "sweep call p now s =
     (if \<not> On p then ([], s)
      else case DatasetList call (graveyard_prefix p) s of
             (Inl _, s') \<Rightarrow> ([], s')
           | (Inr listed, s') \<Rightarrow> sweep_datasets call p now listed s')"

text \<open>One appliance of a sweep: its client and its policy.\<close>

type_synonym 's target = "'s transport \<times> policy"

fun sweep_targets :: "('s \<Rightarrow> int \<times> 's) \<Rightarrow> 's target list \<Rightarrow> 's \<Rightarrow> string list \<times> 's" where
  "sweep_targets now [] s = ([], s)"
| "sweep_targets now ((call, p) # ts) s =
     (case now s of (t, s1) \<Rightarrow>
      case sweep call p t s1 of (d, s2) \<Rightarrow>
      case sweep_targets now ts s2 of (ds, s3) \<Rightarrow> (d @ ds, s3))"

definition RunOnce :: "('s \<Rightarrow> int \<times> 's) \<Rightarrow> 's target list \<Rightarrow> 's \<Rightarrow> string list \<times> 's" where
  "RunOnce now targets s = (case sweep_targets now targets s of (d, s') \<Rightarrow> (sort_strings d, s'))"

definition reap_interval :: "'s target list \<Rightarrow> int" where
  "reap_interval ts =
     (let best = fold (\<lambda>(_, p) iv.
            if \<not> On p then iv
            else if iv = 0 \<or> pol_ReapInterval p < iv then pol_ReapInterval p else iv) ts 0
      in if best \<le> 0 then 3600 * nanos else best)"

section \<open>Inside the graveyard\<close>

lemma ConfineToGraveyard_ok:
  "ConfineToGraveyard p i = Inr () \<longleftrightarrow>
     On p \<and> (\<exists>e. i = Root p @ ''/'' @ e \<and> e \<noteq> [] \<and> CHR ''/'' \<notin> set e)"
proof (cases "cut_prefix (graveyard_prefix p) i")
  case None
  then have "\<not> (\<exists>e. i = Root p @ ''/'' @ e)"
    by (auto simp: cut_prefix_None graveyard_prefix_def has_prefix_iff)
  with None show ?thesis by (auto simp: ConfineToGraveyard_def)
next
  case (Some e)
  then have "i = Root p @ ''/'' @ e" by (simp add: graveyard_prefix_def)
  then show ?thesis unfolding ConfineToGraveyard_def Some by auto
qed

lemma ConfineToGraveyard_error:
  "ConfineToGraveyard p i = Inl e \<Longrightarrow> errors_Is e ErrOutsideGraveyard"
  by (auto simp: ConfineToGraveyard_def split: if_splits option.splits)

section \<open>Graveyard entries\<close>

lemma sanitise_component_rune_safe: "safe_char (sanitise_component_rune r)"
  by (auto simp: safe_char_def sanitise_component_rune_def ascii_letter_def ascii_digit_def)

lemma set_trim_char: "set (trim_char c s) \<subseteq> set s"
  by (auto simp: trim_char_def dest!: set_dropWhileD)

lemma sanitiseComponent_safe: "list_all safe_char (sanitiseComponent s) \<and> sanitiseComponent s \<noteq> []"
proof -
  let ?out = "trim_char (CHR ''-'') (map sanitise_component_rune (runes s))"
  have "\<forall>c \<in> set ?out. safe_char c"
    using set_trim_char [of "CHR ''-''" "map sanitise_component_rune (runes s)"]
      sanitise_component_rune_safe by auto
  moreover have "list_all safe_char ''volume''"
    by (simp add: safe_char_def ascii_letter_def)
  ultimately show ?thesis by (simp add: sanitiseComponent_def Let_def list_all_iff)
qed

text \<open>The name of an entry: a timestamp, a hyphen, and some safe characters.\<close>

lemma entryName_shape:
  assumes "in_calendar t"
  obtains leaf where "entryName i t = time_Format entry_layout t @ ''-'' @ leaf" "list_all safe_char leaf"
    "length (entryName i t) \<le> 120"
proof -
  define l where "l = (if id_Namespace i \<noteq> [] then id_Namespace i @ ''-'' @ id_Name i else id_Name i)"
  have len: "length (time_Format entry_layout t) = 16" using entry_layout_chars [OF assms] by simp
  have e: "entryName i t = take 120 (time_Format entry_layout t @ ''-'' @ sanitiseComponent l)"
    by (simp add: entryName_def l_def Let_def maxEntryName_def)
  have "entryName i t = time_Format entry_layout t @ ''-'' @ take 103 (sanitiseComponent l)"
    unfolding e by (simp add: len)
  moreover have "list_all safe_char (take 103 (sanitiseComponent l))"
    using sanitiseComponent_safe [of l] by (auto simp: list_all_iff dest: in_set_takeD)
  moreover have "length (entryName i t) \<le> 120" unfolding e by simp
  ultimately show ?thesis using that by blast
qed

lemma safe_char_not_slash: "safe_char c \<Longrightarrow> c \<noteq> CHR ''/''"
  by (auto simp: safe_char_def ascii_letter_def ascii_digit_def)

lemma entry_layout_no_sep:
  assumes "in_calendar t"
  shows "CHR ''-'' \<notin> set (time_Format entry_layout t)" "CHR ''/'' \<notin> set (time_Format entry_layout t)"
  using entry_layout_chars [OF assms] by (auto simp: is_digit_def)

lemma deletedAtFromEntryName_entry:
  assumes "in_calendar t" "CHR ''/'' \<notin> set suffix"
  shows "deletedAtFromEntryName (Root p @ ''/'' @ entryName i t @ suffix) = Inr (t - t mod nanos)"
    and "CHR ''/'' \<notin> set (entryName i t @ suffix)"
proof -
  obtain leaf where e: "entryName i t = time_Format entry_layout t @ ''-'' @ leaf" "list_all safe_char leaf"
    using entryName_shape [OF assms(1)] by metis
  show ns: "CHR ''/'' \<notin> set (entryName i t @ suffix)"
    using e entry_layout_no_sep [OF assms(1)] assms(2) safe_char_not_slash
    by (auto simp: list_all_iff)
  have "cut_last (CHR ''/'') (Root p @ CHR ''/'' # (entryName i t @ suffix)) = Some (Root p, entryName i t @ suffix)"
    using ns by (rule cut_last_append)
  moreover have "cut_on (CHR ''-'') (time_Format entry_layout t @ CHR ''-'' # (leaf @ suffix)) =
      (time_Format entry_layout t, leaf @ suffix, True)"
    using entry_layout_no_sep(1) [OF assms(1)] by (rule cut_on_append)
  ultimately show "deletedAtFromEntryName (Root p @ ''/'' @ entryName i t @ suffix) = Inr (t - t mod nanos)"
    using entry_layout_roundtrip [OF assms(1)] by (simp add: deletedAtFromEntryName_def e)
qed

text \<open>
  C12. A retirement is dated twice and both dates agree: the timestamp leading the name of the
  graveyard entry, with or without the suffix that makes it unique, reads back as exactly the
  instant the deletion property records. So recovering a lost timestamp from the name neither
  shortens nor lengthens the grace period.
\<close>

theorem entry_name_carries_deletion_time:
  assumes "in_calendar t" "CHR ''/'' \<notin> set suffix"
  shows "deletedAtFromEntryName (Root p @ ''/'' @ entryName i t @ suffix) = ParseDeletedAt (FormatDeletedAt t)"
  using deletedAtFromEntryName_entry(1) [OF assms] ParseDeletedAt_Format [OF assms(1)] by simp

theorem entry_name_carries_deletion_time_witness:
  "deletedAtFromEntryName (Root \<lparr>pol_Pool = ''tank'', pol_Parent = ''k8s'', pol_Graveyard = ''.trash'',
      pol_Grace = 3600, pol_ReapInterval = 60\<rparr> @ ''/'' @
      entryName \<lparr>id_Backend = ''nas'', id_Protocol = ''nfs'', id_Pool = ''tank'', id_Parent = ''k8s'',
          id_Namespace = ''team'', id_Name = ''pvc-1''\<rparr> 1700000000000000000 @ ''-2'')
   = ParseDeletedAt (FormatDeletedAt 1700000000000000000)"
  by (rule entry_name_carries_deletion_time) (simp_all add: in_calendar_def nanos_def)

section \<open>The four preconditions\<close>

definition direct_entry :: "policy \<Rightarrow> string \<Rightarrow> bool" where
  "direct_entry p i \<longleftrightarrow> On p \<and> (\<exists>e. i = Root p @ ''/'' @ e \<and> e \<noteq> [] \<and> CHR ''/'' \<notin> set e)"

lemma Reapable_ok:
  "Reapable (Some ds) p now = Inr () \<longleftrightarrow>
     direct_entry p (ds_ID ds) \<and> owned (asVolumeDataset ds)
     \<and> (\<exists>t. retirement_time ds = Inr t \<and> pol_Grace p \<le> time_Sub now t)"
proof (cases "ConfineToGraveyard p (ds_ID ds)")
  case (Inl e)
  then have "\<not> direct_entry p (ds_ID ds)"
    using ConfineToGraveyard_ok [of p "ds_ID ds"] by (auto simp: direct_entry_def)
  then show ?thesis by (simp add: Reapable_def Inl)
next
  case (Inr u)
  then have d: "direct_entry p (ds_ID ds)" "On p"
    using ConfineToGraveyard_ok [of p "ds_ID ds"] by (auto simp: direct_entry_def)
  show ?thesis
  proof (cases "VerifyOwned (Some (asVolumeDataset ds))")
    case (Inl e)
    then have "\<not> owned (asVolumeDataset ds)"
      using VerifyOwned_ok [of "asVolumeDataset ds"] by auto
    then show ?thesis using d by (simp add: Reapable_def Inr Inl)
  next
    case v: (Inr u')
    then have "owned (asVolumeDataset ds)" using VerifyOwned_ok [of "asVolumeDataset ds"] by auto
    then show ?thesis
      using d by (cases "retirement_time ds") (auto simp: Reapable_def Inr v)
  qed
qed

lemma Reapable_refusal: "Reapable ods p now = Inl e \<Longrightarrow> errors_Is e ErrNotReapable"
proof -
  assume r: "Reapable ods p now = Inl e"
  have rt: "errors_Is e' ErrNotReapable" if "retirement_time ds = Inl e'" for ds e'
    using that by (auto simp: retirement_time_def split: sum.splits)
  show ?thesis
    using r rt by (auto simp: Reapable_def split: if_splits option.splits sum.splits)
qed

text \<open>A refusal that only waiting resolves is one in which nothing but the fourth condition fails.\<close>

lemma Reapable_still_in_grace:
  assumes "Reapable (Some ds) p now = Inl e"
  shows "errors_Is e ErrStillInGrace \<longleftrightarrow>
    direct_entry p (ds_ID ds) \<and> owned (asVolumeDataset ds) \<and> (\<exists>t. retirement_time ds = Inr t)"
proof (cases "ConfineToGraveyard p (ds_ID ds)")
  case (Inl e')
  have "\<not> errors_Is e' ErrStillInGrace"
    using Inl by (auto simp: ConfineToGraveyard_def split: if_splits option.splits)
  moreover have "\<not> direct_entry p (ds_ID ds)"
    using Inl ConfineToGraveyard_ok [of p "ds_ID ds"] by (auto simp: direct_entry_def)
  ultimately show ?thesis using assms by (auto simp: Reapable_def Inl split: if_splits)
next
  case (Inr u)
  then have d: "direct_entry p (ds_ID ds)" "On p"
    using ConfineToGraveyard_ok [of p "ds_ID ds"] by (auto simp: direct_entry_def)
  show ?thesis
  proof (cases "VerifyOwned (Some (asVolumeDataset ds))")
    case (Inl e')
    then have "\<not> errors_Is e' ErrStillInGrace" "\<not> owned (asVolumeDataset ds)"
      using VerifyOwned_ok [of "asVolumeDataset ds"]
      by (auto simp: VerifyOwned_def split: if_splits option.splits)
    then show ?thesis using assms d by (auto simp: Reapable_def Inr Inl)
  next
    case v: (Inr u')
    then have o: "owned (asVolumeDataset ds)" using VerifyOwned_ok [of "asVolumeDataset ds"] by auto
    show ?thesis
    proof (cases "retirement_time ds")
      case rt: (Inl e')
      then have "\<not> errors_Is e' ErrStillInGrace"
        by (auto simp: retirement_time_def ParseDeletedAt_def split: sum.splits if_splits option.splits)
      then show ?thesis using assms d by (auto simp: Reapable_def Inr v rt)
    next
      case rt: (Inr t')
      then show ?thesis using assms d o by (auto simp: Reapable_def Inr v rt split: if_splits)
    qed
  qed
qed

lemma time_Sub_mono: "t \<le> t' \<Longrightarrow> time_Sub t u \<le> time_Sub t' u"
  by (auto simp: time_Sub_def Let_def max_int64_def min_int64_def)

lemma time_Sub_exact: "in_int64 (t - u) \<Longrightarrow> time_Sub t u = t - u"
  by (auto simp: time_Sub_def Let_def in_int64_def)

lemma retirement_time_iff:
  "retirement_time ds = Inr t \<longleftrightarrow>
     ParseDeletedAt (LocalProperty ds DeletedAtProperty) = Inr t
     \<or> ((\<exists>e. ParseDeletedAt (LocalProperty ds DeletedAtProperty) = Inl e)
        \<and> deletedAtFromEntryName (ds_ID ds) = Inr t)"
  by (auto simp: retirement_time_def split: sum.splits)


section \<open>The retry loop ends\<close>

text \<open>
  What the loop relies on: the clock does not run backwards, and a sleep that was not
  interrupted lasts at least as long as asked.
\<close>

locale clock =
  fixes call :: "'s transport"
    and now :: "'s \<Rightarrow> int \<times> 's"
    and wait :: "int \<Rightarrow> 's \<Rightarrow> bool \<times> 's"
    and time :: "'s \<Rightarrow> int"
  assumes now_reads: "now s = (t, s') \<Longrightarrow> time s \<le> t \<and> t \<le> time s'"
    and call_monotone: "call m ps s = (r, s') \<Longrightarrow> time s \<le> time s'"
    and wait_lasts: "wait d s = (False, s') \<Longrightarrow> time s + d \<le> time s'"
begin

lemma rename_monotone: "DatasetRename call src dst f s = (r, s') \<Longrightarrow> time s \<le> time s'"
  by (auto simp: DatasetRename_def CallUnit_def CallJSON_def bindE_def retE_def
      split: prod.splits sum.splits dest: call_monotone)

lemma rename_loop_step:
  assumes "\<And>s'. time s + delay \<le> time s' \<Longrightarrow> time s \<le> deadline \<Longrightarrow>
    rename_loop call now wait n src dst deadline (if delay < 2 * nanos then delay * 2 else delay) s' \<noteq> None"
  shows "rename_loop call now wait (Suc n) src dst deadline delay s \<noteq> None"
proof -
  obtain r s1 where 1: "DatasetRename call src dst True s = (r, s1)" by fastforce
  obtain t s2 where 2: "now s1 = (t, s2)" by fastforce
  obtain b s3 where 3: "wait delay s2 = (b, s3)" by fastforce
  have "time s \<le> t" "t \<le> time s2" using rename_monotone [OF 1] now_reads [OF 2] by auto
  moreover have "\<not> b \<Longrightarrow> time s2 + delay \<le> time s3" using wait_lasts 3 by simp
  ultimately have "\<not> b \<Longrightarrow> t \<le> deadline \<Longrightarrow> rename_loop call now wait n src dst deadline
      (if delay < 2 * nanos then delay * 2 else delay) s3 \<noteq> None"
    using assms [of s3] by auto
  then show ?thesis by (cases r; cases b) (auto simp: 1 2 3 simp del: not_None_eq)
qed

lemma rename_loop_slow:
  "deadline < time s + 3200000000 * int n \<Longrightarrow>
     rename_loop call now wait (Suc n) src dst deadline 3200000000 s \<noteq> None"
proof (induction n arbitrary: s)
  case 0
  then show ?case by (intro rename_loop_step) simp
next
  case (Suc n)
  show ?case
  proof (rule rename_loop_step)
    fix s' assume "time s + 3200000000 \<le> time s'"
    then show "rename_loop call now wait (Suc n) src dst deadline
        (if (3200000000 :: int) < 2 * nanos then 3200000000 * 2 else 3200000000) s' \<noteq> None"
      using Suc.IH [of s'] Suc.prems by (simp add: nanos_def del: rename_loop.simps not_None_eq)
  qed
qed

lemma rename_loop_fast:
  assumes "delay < 2 * nanos"
    and "\<And>s'. deadline < time s' + window \<Longrightarrow> rename_loop call now wait n src dst deadline (delay * 2) s' \<noteq> None"
    and "deadline < time s + window + delay"
  shows "rename_loop call now wait (Suc n) src dst deadline delay s \<noteq> None"
  by (rule rename_loop_step) (use assms in \<open>simp del: rename_loop.simps not_None_eq\<close>)

text \<open>
  The delays are 0.2, 0.4, 0.8, 1.6 and then 3.2 seconds, so the thirteenth sleep ends after
  the window of thirty seconds and the fourteenth attempt is the last.
\<close>

lemma rename_loop_returns:
  assumes "deadline \<le> time s + renameRetryTimeout"
  shows "rename_loop call now wait rename_fuel src dst deadline 200000000 s \<noteq> None"
proof -
  let ?ok = "\<lambda>n delay s. rename_loop call now wait n src dst deadline delay s \<noteq> None"
  have 4: "?ok (Suc 9) 3200000000 s" if "deadline < time s + 28800000000" for s
    using rename_loop_slow [of deadline s 9] that by simp
  have 3: "?ok (Suc (Suc 9)) 1600000000 s" if "deadline < time s + 30400000000" for s
    by (rule rename_loop_fast [of _ _ 28800000000]) (use 4 that in \<open>simp_all add: nanos_def del: rename_loop.simps not_None_eq\<close>)
  have 2: "?ok (Suc (Suc (Suc 9))) 800000000 s" if "deadline < time s + 31200000000" for s
    by (rule rename_loop_fast [of _ _ 30400000000]) (use 3 that in \<open>simp_all add: nanos_def del: rename_loop.simps not_None_eq\<close>)
  have 1: "?ok (Suc (Suc (Suc (Suc 9)))) 400000000 s" if "deadline < time s + 31600000000" for s
    by (rule rename_loop_fast [of _ _ 31200000000]) (use 2 that in \<open>simp_all add: nanos_def del: rename_loop.simps not_None_eq\<close>)
  have "?ok (Suc (Suc (Suc (Suc (Suc 9))))) 200000000 s"
    by (rule rename_loop_fast [of _ _ 31600000000])
      (use 1 assms in \<open>simp_all add: nanos_def renameRetryTimeout_def del: rename_loop.simps not_None_eq\<close>)
  moreover have "Suc (Suc (Suc (Suc (Suc 9)))) = rename_fuel" by (simp add: rename_fuel_def)
  ultimately show ?thesis by metis
qed

end

text \<open>A clock that only sleeping advances, beside the state of an appliance.\<close>

definition timed_now :: "'s \<times> int \<Rightarrow> int \<times> ('s \<times> int)" where
  "timed_now sc = (snd sc, sc)"

definition timed_wait :: "int \<Rightarrow> 's \<times> int \<Rightarrow> bool \<times> ('s \<times> int)" where
  "timed_wait d sc = (False, (fst sc, snd sc + d))"

interpretation timed: clock "lift_call call" timed_now timed_wait snd for call
  by unfold_locales
    (auto simp: timed_now_def timed_wait_def lift_call_def lifted_def split: prod.splits)

text \<open>
  C14. The rename that waits for the appliance to release a dataset always returns: whatever the
  appliance answers, as long as the clock does not run backwards and sleeps last as long as
  asked, the loop ends by its fourteenth attempt.
\<close>

theorem renameWhenReleased_returns:
  assumes "clock call now wait time"
  shows "\<exists>t s1 r. now s = (t, s1)
    \<and> rename_loop call now wait 14 src dst (t + renameRetryTimeout) (200 * 1000000) s1 = Some r
    \<and> renameWhenReleased call now wait src dst s = r"
proof -
  obtain t s1 where n: "now s = (t, s1)" by fastforce
  have "t \<le> time s1" using clock.now_reads [OF assms n] by simp
  then have "rename_loop call now wait rename_fuel src dst (t + renameRetryTimeout) 200000000 s1 \<noteq> None"
    using clock.rename_loop_returns [OF assms] by simp
  then obtain r where "rename_loop call now wait rename_fuel src dst (t + renameRetryTimeout) 200000000 s1 = Some r"
    by auto
  with n show ?thesis by (auto simp: renameWhenReleased_def rename_fuel_def)
qed

text \<open>An appliance that reports every dataset busy for ever.\<close>

definition always_busy :: "unit transport" where
  "always_busy m ps = failE (rpc_error m (- 32001) ''EBUSY'' ''[EBUSY] dataset is busy'')"

theorem renameWhenReleased_returns_witness:
  "\<exists>r. rename_loop (lift_call always_busy) timed_now timed_wait 14 ''a'' ''b''
     (0 + renameRetryTimeout) (200 * 1000000) ((), 0) = Some r"
  using renameWhenReleased_returns [OF timed.clock_axioms, of "((), 0)" always_busy "''a''" "''b''"]
  by (auto simp: timed_now_def)

section \<open>Retiring and reaping on an appliance\<close>

text \<open>The name an attempt of the search for a free entry tries.\<close>

definition entry_path :: "policy \<Rightarrow> string \<Rightarrow> nat \<Rightarrow> string" where
  "entry_path p base a = Root p @ ''/'' @ (if a > 1 then base @ ''-'' @ FormatInt (int a) else base)"

text \<open>The datasets of an appliance once its graveyard is there.\<close>

definition with_graveyard ::
  "policy \<Rightarrow> (string \<rightharpoonup> (string \<rightharpoonup> string)) \<Rightarrow> (string \<rightharpoonup> (string \<rightharpoonup> string))" where
  "with_graveyard p m =
     (if m (Root p) = None
      then m(Root p \<mapsto> [OwnerProperty \<mapsto> OwnerValue, OwnerIDProperty \<mapsto> Root p,
                      GraveyardProperty \<mapsto> GraveyardValue])
      else m)"

text \<open>What a retired dataset is stamped with, in order.\<close>

definition retirement_stamps :: "vol_id \<Rightarrow> string \<Rightarrow> int \<Rightarrow> (string \<times> string) list" where
  "retirement_stamps i dst t =
     [(OwnerIDProperty, dst), (DeletedAtProperty, FormatDeletedAt t), (RetiredFromProperty, ID_String i)]"

text \<open>The local properties of a retired dataset once \<open>k\<close> of the stamps have been written.\<close>

definition retired_props :: "nat \<Rightarrow> vol_id \<Rightarrow> string \<Rightarrow> int \<Rightarrow> (string \<rightharpoonup> string) \<Rightarrow> (string \<rightharpoonup> string)" where
  "retired_props k i dst t ps = ps ++ map_of (rev (take k (retirement_stamps i dst t)))"

text \<open>Reading the clock and sleeping leave the datasets alone.\<close>

locale retention_store =
  dataset_store call wf locals + clock call now wait time
  for call :: "'s transport" and wf and locals :: "'s \<Rightarrow> string \<rightharpoonup> (string \<rightharpoonup> string)"
    and now and wait and time +
  assumes now_keeps: "now s = (t, s') \<Longrightarrow> wf s \<Longrightarrow> wf s' \<and> locals s' = locals s"
    and wait_keeps: "wait d s = (b, s') \<Longrightarrow> wf s \<Longrightarrow> wf s' \<and> locals s' = locals s"
    and now_calendar: "now s = (t, s') \<Longrightarrow> wf s \<Longrightarrow> in_calendar t"
begin

lemma ensureGraveyard_ok:
  assumes "wf s" "ensureGraveyard call p s = (Inr (), s')"
  shows "wf s' \<and> locals s' = with_graveyard p (locals s)"
proof -
  obtain r s1 where q: "DatasetQuery call (Root p) s = (r, s1)" by fastforce
  note k = query_keeps [OF assms(1) q]
  show ?thesis
  proof (cases r)
    case (Inl e) with assms(2) q show ?thesis by (simp add: ensureGraveyard_def Let_def tryE_def failE_def)
  next
    case (Inr od)
    show ?thesis
    proof (cases od)
      case None
      note absent = query_absent [OF assms(1) q [unfolded Inr None]]
      let ?spec = "\<lparr>spec_Name = Root p, spec_Type = ''FILESYSTEM'', spec_VolSize = 0, spec_RefQuota = 0,
                    spec_Sparse = False, spec_VolBlockSize = [], spec_ShareType = [],
                    spec_UserProperties = [(OwnerProperty, OwnerValue), (OwnerIDProperty, Root p),
                                           (GraveyardProperty, GraveyardValue)]\<rparr>"
      from assms(2) q Inr None obtain d where "DatasetCreate call ?spec s1 = (Inr d, s')"
        by (cases "DatasetCreate call ?spec s1"; cases "fst (DatasetCreate call ?spec s1)")
          (auto simp: ensureGraveyard_def Let_def tryE_def retE_def failE_def)
      from create_new [OF _ _ _ this] k absent
      have "wf s' \<and> locals s' = (locals s)(Root p \<mapsto> map_of (spec_UserProperties ?spec))" by simp
      then show ?thesis using absent by (auto simp: with_graveyard_def fun_eq_iff)
    next
      case (Some d)
      from query_present [OF assms(1) q [unfolded Inr Some]] have "locals s (Root p) \<noteq> None" by auto
      moreover have "s' = s1"
        using assms(2) q Inr Some
        by (auto simp: ensureGraveyard_def Let_def tryE_def retE_def failE_def split: if_splits)
      ultimately show ?thesis using k by (auto simp: with_graveyard_def)
    qed
  qed
qed

lemma try_entries_ok:
  assumes "wf s" "try_entries call p base as s = (Inr path, s')"
  shows "wf s' \<and> locals s' = locals s \<and> locals s path = None \<and> (\<exists>a \<in> set as. path = entry_path p base a)"
  using assms
proof (induction as arbitrary: s)
  case (Cons a as)
  obtain r s1 where q: "DatasetQuery call (entry_path p base a) s = (r, s1)" by fastforce
  note k = query_keeps [OF Cons.prems(1) q]
  have run: "try_entries call p base (a # as) s =
      (case r of Inl e \<Rightarrow> failE (Wrapped [e]) s1 | Inr None \<Rightarrow> retE (entry_path p base a) s1
       | Inr (Some _) \<Rightarrow> try_entries call p base as s1)"
    using q by (simp add: Let_def tryE_def entry_path_def split: sum.split option.split)
  consider e where "r = Inl e" | "r = Inr None" | d where "r = Inr (Some d)"
    by (cases r; cases "projr r") auto
  then show ?case
  proof cases
    case 1 with run Cons.prems(2) show ?thesis by (simp add: failE_def)
  next
    case 2
    with query_absent [OF Cons.prems(1) q [unfolded 2]] run Cons.prems(2) k show ?thesis
      by (auto simp: retE_def)
  next
    case 3
    with run Cons.prems(2) k Cons.IH [of s1] show ?thesis by auto
  qed
qed (simp add: failE_def)

lemma rename_loop_ok:
  assumes "wf s" "locals s src = Some ps" "childless (locals s) src" "locals s dst = None"
    and "rename_loop call now wait n src dst deadline delay s = Some (Inr (), s')"
  shows "wf s' \<and> locals s' = (locals s)(src := None, dst \<mapsto> ps)"
  using assms
proof (induction n arbitrary: s delay)
  case (Suc n)
  obtain r s1 where q: "DatasetRename call src dst True s = (r, s1)" by fastforce
  show ?case
  proof (cases r)
    case (Inr u)
    with Suc.prems(5) q have "s' = s1" by simp
    moreover have "DatasetRename call src dst True s = (Inr (), s1)" using q Inr by simp
    ultimately show ?thesis using rename_leaf [OF Suc.prems(1-4)] by blast
  next
    case (Inl e)
    with Suc.prems(5) q have b: "IsBusy e" by (auto split: if_splits)
    from Suc.prems(2) have "locals s src \<noteq> None" by simp
    note k1 = rename_busy [OF Suc.prems(1) this Suc.prems(4) q [unfolded Inl] b]
    obtain t s2 where n: "now s1 = (t, s2)" by fastforce
    note k2 = now_keeps [OF n conjunct1 [OF k1]]
    obtain c s3 where w: "wait delay s2 = (c, s3)" by fastforce
    note k3 = wait_keeps [OF w conjunct1 [OF k2]]
    from Suc.prems(5) q Inl b n w have "\<not> c"
      and "rename_loop call now wait n src dst deadline (if delay < 2 * nanos then delay * 2 else delay) s3 = Some (Inr (), s')"
      by (auto split: if_splits bool.splits)
    with Suc.IH [of s3] Suc.prems(2-4) k1 k2 k3 show ?thesis by simp
  qed
qed simp

lemma renameWhenReleased_ok:
  assumes "wf s" "locals s src = Some ps" "childless (locals s) src" "locals s dst = None"
    and "renameWhenReleased call now wait src dst s = (Inr (), s')"
  shows "wf s' \<and> locals s' = (locals s)(src := None, dst \<mapsto> ps)"
proof -
  obtain t s1 where n: "now s = (t, s1)" by fastforce
  note k = now_keeps [OF n assms(1)]
  have "rename_loop call now wait rename_fuel src dst (t + renameRetryTimeout) (200 * 1000000) s1 = Some (Inr (), s')"
    using assms(5) n by (auto simp: renameWhenReleased_def split: option.splits)
  from rename_loop_ok [OF _ _ _ _ this] k assms show ?thesis by simp
qed

lemma stamp_ok:
  assumes "wf s" "locals s dst = Some ps"
  shows "\<exists>k \<le> length kvs. wf (stamp call dst kvs s)
    \<and> locals (stamp call dst kvs s) = (locals s)(dst \<mapsto> ps ++ map_of (rev (take k kvs)))"
  using assms
proof (induction kvs arbitrary: s ps)
  case (Cons kv kvs)
  obtain k v where kv: "kv = (k, v)" by fastforce
  obtain u s1 where q: "SetUserProperty call dst k v s = (u, s1)" by fastforce
  note w = set_property [OF Cons.prems q]
  have upd: "ps(k \<mapsto> v) ++ map_of (rev xs) = ps ++ map_of (rev (kv # xs))" for xs
    by (simp add: kv map_add_def fun_eq_iff split: option.split)
  show ?case
  proof (cases u)
    case (Inl e)
    then have st: "stamp call dst (kv # kvs) s = s1" using q kv by simp
    from w consider "locals s1 = (locals s)(dst \<mapsto> ps(k \<mapsto> v))" | "locals s1 = locals s" by blast
    then show ?thesis
    proof cases
      case 1
      have "ps(k \<mapsto> v) = ps ++ map_of (rev (take (Suc 0) (kv # kvs)))" using upd [of "[]"]
        by (simp only: take_Suc_Cons take_0 rev.simps append.simps map_of.simps map_add_empty)
      with 1 w st have "locals (stamp call dst (kv # kvs) s) = (locals s)(dst \<mapsto> ps ++ map_of (rev (take (Suc 0) (kv # kvs))))"
        by metis
      with w st show ?thesis by (intro exI [of _ "Suc 0"] conjI) (simp, simp, assumption)
    next
      case 2 with w st Cons.prems(2) show ?thesis by (intro exI [of _ 0]) (simp add: fun_upd_idem)
    qed
  next
    case (Inr x)
    then have st: "stamp call dst (kv # kvs) s = stamp call dst kvs s1" using q kv by simp
    from w Inr have l: "locals s1 = (locals s)(dst \<mapsto> ps(k \<mapsto> v))" by auto
    then have "locals s1 dst = Some (ps(k \<mapsto> v))" by simp
    from Cons.IH [OF conjunct1 [OF w] this] obtain j where "j \<le> length kvs" "wf (stamp call dst kvs s1)"
      "locals (stamp call dst kvs s1) = (locals s1)(dst \<mapsto> ps(k \<mapsto> v) ++ map_of (rev (take j kvs)))" by blast
    then show ?thesis unfolding st using l upd [of "take j kvs"] by (intro exI [of _ "Suc j"]) simp
  qed
qed (auto simp: fun_upd_idem)

text \<open>No call of the client turns the clock back.\<close>

definition forward :: "('s, go_error, 'a) op \<Rightarrow> bool" where
  "forward f \<longleftrightarrow> (\<forall>s r s'. f s = (r, s') \<longrightarrow> time s \<le> time s')"

lemma forward_intros:
  "forward (retE x)" "forward (failE e)" "forward (call m ps)"
  "forward f \<Longrightarrow> (\<And>x. forward (g x)) \<Longrightarrow> forward (bindE f g)"
  "forward f \<Longrightarrow> (\<And>x. forward (h x)) \<Longrightarrow> forward (tryE f h)"
  unfolding forward_def
  by (auto simp: retE_def failE_def bindE_def tryE_def split: prod.splits sum.splits
      dest: call_monotone) (meson order_trans)+

lemma forward_CallJSON: "forward (CallJSON call dec m ps)"
  unfolding CallJSON_def by (intro forward_intros) (auto intro: forward_intros split: option.split)

lemma forward_DatasetQuery: "forward (DatasetQuery call i)"
  unfolding DatasetQuery_def
  by (intro forward_intros forward_CallJSON) (auto intro: forward_intros split: sum.split list.split)

lemma forward_DatasetCreate: "forward (DatasetCreate call spec)"
  unfolding DatasetCreate_def
  by (intro forward_intros forward_CallJSON) (auto intro: forward_intros split: sum.split)

lemma forward_ensureGraveyard: "forward (ensureGraveyard call p)"
proof -
  have c: "forward (tryE (DatasetCreate call spec) (\<lambda>r. case r of Inl e \<Rightarrow> failE (Wrapped [e]) | Inr _ \<Rightarrow> retE ()))"
    for spec
    by (rule forward_intros(5) [OF forward_DatasetCreate]) (auto intro: forward_intros split: sum.split)
  show ?thesis
    unfolding ensureGraveyard_def Let_def
    by (rule forward_intros(5) [OF forward_DatasetQuery])
      (auto intro: forward_intros c split: sum.split option.split)
qed

lemma Retire_parts:
  assumes "Retire call now wait p i s = (Inr (), s')"
  obtains s1 t s2 dst s3 s4 where "On p" "ensureGraveyard call p s = (Inr (), s1)" "now s1 = (t, s2)"
    "freeEntry call p i t s2 = (Inr dst, s3)" "renameWhenReleased call now wait (DatasetPath i) dst s3 = (Inr (), s4)"
    "s' = stamp call dst (retirement_stamps i dst t) s4"
proof -
  have on: "On p"
  proof (rule ccontr)
    assume "\<not> On p" with assms show False by (simp add: Retire_def failE_def)
  qed
  obtain u where c: "Confine i (pol_Pool p) (pol_Parent p) = Inr u"
    using assms on by (cases "Confine i (pol_Pool p) (pol_Parent p)") (auto simp: Retire_def failE_def)
  obtain s1 where g: "ensureGraveyard call p s = (Inr (), s1)"
    using assms on c by (auto simp: Retire_def elim!: bindE_InrE)
  obtain t s2 where n: "now s1 = (t, s2)" by fastforce
  let ?ren = "\<lambda>dst. tryE (renameWhenReleased call now wait (DatasetPath i) dst) (\<lambda>r. case r of
      Inl e \<Rightarrow> failE (Wrapped [e]) | Inr _ \<Rightarrow> (\<lambda>s. (Inr (), stamp call dst (retirement_stamps i dst t) s)))"
  have "bindE (freeEntry call p i t) ?ren s2 = (Inr (), s')"
    using assms on c g n unfolding Retire_def retirement_stamps_def
    by (simp add: bindE_def [of "ensureGraveyard call p"] del: stamp.simps)
  then obtain dst s3 where f: "freeEntry call p i t s2 = (Inr dst, s3)" and r: "?ren dst s3 = (Inr (), s')"
    by (rule bindE_InrE)
  obtain q s4 where q: "renameWhenReleased call now wait (DatasetPath i) dst s3 = (q, s4)" by fastforce
  from r q have "q = Inr ()" "s' = stamp call dst (retirement_stamps i dst t) s4"
    by (cases q; simp add: tryE_def failE_def)+
  with that on g n f q show thesis by blast
qed

lemma Retire_ok:
  assumes "wf s" "locals s (DatasetPath i) = Some ps" "childless (with_graveyard p (locals s)) (DatasetPath i)"
    and "Retire call now wait p i s = (Inr (), s')"
  shows "\<exists>t a dst k. On p \<and> wf s' \<and> time s \<le> t \<and> in_calendar t \<and> dst = entry_path p (entryName i t) a
    \<and> locals s dst = None \<and> k \<le> 3
    \<and> locals s' = (with_graveyard p (locals s))(DatasetPath i := None, dst \<mapsto> retired_props k i dst t ps)"
  using assms(4)
proof (rule Retire_parts)
  fix s1 t s2 dst s3 s4
  assume on: "On p" and g: "ensureGraveyard call p s = (Inr (), s1)" and n: "now s1 = (t, s2)"
    and f: "freeEntry call p i t s2 = (Inr dst, s3)"
    and r: "renameWhenReleased call now wait (DatasetPath i) dst s3 = (Inr (), s4)"
    and s': "s' = stamp call dst (retirement_stamps i dst t) s4"
  note kg = ensureGraveyard_ok [OF assms(1) g]
  note kn = now_keeps [OF n conjunct1 [OF kg]]
  from try_entries_ok [OF conjunct1 [OF kn] f [unfolded freeEntry_def]] obtain a where kf: "wf s3"
    "locals s3 = with_graveyard p (locals s)" "with_graveyard p (locals s) dst = None" "dst = entry_path p (entryName i t) a"
    using kg kn by auto
  have src: "locals s3 (DatasetPath i) = Some ps" using assms(2) kf(2) by (auto simp: with_graveyard_def)
  from renameWhenReleased_ok [OF kf(1) src _ _ r] assms(3) kf(2,3)
  have kr: "wf s4" "locals s4 = (with_graveyard p (locals s))(DatasetPath i := None, dst \<mapsto> ps)" by simp_all
  have d: "locals s4 dst = Some ps" using kr(2) by simp
  from stamp_ok [OF kr(1) d, of "retirement_stamps i dst t"] obtain k where
    k: "k \<le> length (retirement_stamps i dst t)" "wf s'" "locals s' = (locals s4)(dst \<mapsto> retired_props k i dst t ps)"
    unfolding s' retired_props_def by blast
  have "time s \<le> t"
    using forward_ensureGraveyard g now_reads [OF n] unfolding forward_def by (meson order_trans)
  moreover have "locals s dst = None" using kf(3) by (auto simp: with_graveyard_def split: if_splits)
  moreover have "k \<le> 3" using k(1) by (simp add: retirement_stamps_def)
  ultimately show ?thesis
    using on k(2,3) kr(2) kf(4) now_calendar [OF n conjunct1 [OF kg]]
    by (intro exI [of _ t] exI [of _ a] exI [of _ dst] exI [of _ k]) simp
qed

end

section \<open>Retired datasets and the reaper\<close>

lemma entry_path_direct:
  assumes "On p" "in_calendar t"
  shows "direct_entry p (entry_path p (entryName i t) a)"
proof -
  have sfx: "CHR ''/'' \<notin> set (if a > 1 then ''-'' @ FormatInt (int a) else [])"
    using nat_str_digits [of a] by (auto simp: FormatInt_def list_all_iff is_digit_def)
  let ?e = "entryName i t @ (if a > 1 then ''-'' @ FormatInt (int a) else [])"
  have "CHR ''/'' \<notin> set ?e" by (rule deletedAtFromEntryName_entry(2) [OF assms(2) sfx])
  moreover obtain leaf where "entryName i t = time_Format entry_layout t @ ''-'' @ leaf"
    by (rule entryName_shape [OF assms(2)])
  then have "?e \<noteq> []" by simp
  moreover have "entry_path p (entryName i t) a = Root p @ ''/'' @ ?e" by (simp add: entry_path_def)
  ultimately show ?thesis using assms(1) unfolding direct_entry_def by blast
qed

lemma direct_below: "direct_entry p x \<Longrightarrow> direct_entry p y \<Longrightarrow> below x y \<Longrightarrow> x = y"
  by (auto simp: direct_entry_def below_def has_prefix_iff)

lemma stamp_names: "OwnerIDProperty \<noteq> DeletedAtProperty" "OwnerIDProperty \<noteq> RetiredFromProperty"
  "DeletedAtProperty \<noteq> RetiredFromProperty" "OwnerProperty \<noteq> OwnerIDProperty"
  "OwnerProperty \<noteq> DeletedAtProperty" "OwnerProperty \<noteq> RetiredFromProperty"
  by (simp_all add: OwnerIDProperty_def DeletedAtProperty_def RetiredFromProperty_def OwnerProperty_def)

lemma retired_props_owner: "retired_props k i dst t ps OwnerProperty = ps OwnerProperty"
proof -
  have "OwnerProperty \<notin> fst ` set (take k (retirement_stamps i dst t))"
    using set_take_subset [of k "retirement_stamps i dst t"] stamp_names by (auto simp: retirement_stamps_def)
  then have "map_of (rev (take k (retirement_stamps i dst t))) OwnerProperty = None"
    by (simp add: map_of_eq_None_iff)
  then show ?thesis by (simp add: retired_props_def map_add_def)
qed

lemma retired_props_dated:
  assumes "2 \<le> k"
  shows "retired_props k i dst t ps OwnerIDProperty = Some dst"
    "retired_props k i dst t ps DeletedAtProperty = Some (FormatDeletedAt t)"
proof -
  obtain j where k: "k = Suc (Suc j)" using assms by (metis Suc_le_D numeral_2_eq_2 Suc_le_mono)
  have "retired_props k i dst t ps \<in>
      {ps ++ map_of (rev (take 2 (retirement_stamps i dst t))), ps ++ map_of (rev (retirement_stamps i dst t))}"
    unfolding k retired_props_def by (cases j) (simp_all add: retirement_stamps_def)
  then show "retired_props k i dst t ps OwnerIDProperty = Some dst"
    "retired_props k i dst t ps DeletedAtProperty = Some (FormatDeletedAt t)"
    using stamp_names by (auto simp: retirement_stamps_def)
qed

lemma retired_is_reapable:
  assumes "reports dst (retired_props k i dst t ps) d" "ps OwnerProperty = Some OwnerValue" "2 \<le> k"
    and "direct_entry p dst" "in_calendar t"
  shows "Reapable (Some d) p now' = Inr () \<longleftrightarrow> pol_Grace p \<le> time_Sub now' (t - t mod nanos)"
proof -
  have own: "vd_UserProperties (asVolumeDataset d) OwnerProperty = Some \<lparr>vp_Value = OwnerValue, vp_Source = ''LOCAL''\<rparr>"
    by (rule reports_view [OF assms(1)]) (simp add: retired_props_owner assms(2))
  have oid: "vd_UserProperties (asVolumeDataset d) OwnerIDProperty = Some \<lparr>vp_Value = dst, vp_Source = ''LOCAL''\<rparr>"
    by (rule reports_view [OF assms(1)]) (rule retired_props_dated [OF assms(3)])
  have ID: "ds_ID d = dst" by (rule reports_ID [OF assms(1)])
  have "owned (asVolumeDataset d)" unfolding owned_def own oid using ID by (simp add: asVolumeDataset_def)
  moreover have "LocalProperty d DeletedAtProperty = FormatDeletedAt t"
    by (rule reports_LocalProperty [OF assms(1)]) (rule retired_props_dated [OF assms(3)])
  then have "retirement_time d = Inr (t - t mod nanos)"
    using ParseDeletedAt_Format [OF assms(5)] by (simp add: retirement_time_def)
  ultimately show ?thesis using assms(4) by (simp add: Reapable_ok ID)
qed

text \<open>An entry that still carries the owner id of the volume it was is refused for good.\<close>

lemma unstamped_not_reapable:
  assumes "reports dst ps d" "ps OwnerIDProperty = Some x" "x \<noteq> dst"
  shows "Reapable (Some d) p now' \<noteq> Inr ()"
proof -
  have "vd_UserProperties (asVolumeDataset d) OwnerIDProperty = Some \<lparr>vp_Value = x, vp_Source = ''LOCAL''\<rparr>"
    by (rule reports_view [OF assms(1,2)])
  moreover have "vd_ID (asVolumeDataset d) = dst" using reports_ID [OF assms(1)] by (simp add: asVolumeDataset_def)
  ultimately have "\<not> owned (asVolumeDataset d)" using assms(3) by (simp add: owned_def)
  then show ?thesis by (simp add: Reapable_ok)
qed

lemma sweep_datasets_append:
  "sweep_datasets call p now (xs @ ys) s =
     (case sweep_datasets call p now xs s of (a, s1) \<Rightarrow>
      case sweep_datasets call p now ys s1 of (b, s2) \<Rightarrow> (a @ b, s2))"
  by (induction xs arbitrary: s) (simp_all split: sum.split prod.split)

text \<open>
  Whether the appliance lets a sweep have a dataset: it answers the listing, and the deletion of
  the dataset, made once the datasets listed before it have been dealt with, succeeds.
\<close>

definition released :: "'s transport \<Rightarrow> policy \<Rightarrow> int \<Rightarrow> string \<Rightarrow> 's \<Rightarrow> bool" where
  "released call p now dst s =
     (case DatasetList call (graveyard_prefix p) s of
        (Inl _, _) \<Rightarrow> False
      | (Inr ds, s1) \<Rightarrow>
          (case DatasetDelete call dst True False
                  (snd (sweep_datasets call p now (takeWhile (\<lambda>d. ds_ID d \<noteq> dst) ds) s1)) of
             (Inl _, _) \<Rightarrow> False
           | (Inr _, _) \<Rightarrow> True))"

context dataset_store
begin

lemma sweep_datasets_elsewhere:
  assumes "wf s" "\<forall>d \<in> set ds. Reapable (Some d) p now = Inr () \<longrightarrow> \<not> below (ds_ID d) x"
    and "sweep_datasets call p now ds s = (destroyed, s')"
  shows "wf s' \<and> locals s' x = locals s x \<and> x \<notin> set destroyed"
  using assms
proof (induction ds arbitrary: s destroyed s')
  case (Cons d ds)
  show ?case
  proof (cases "Reapable (Some d) p now")
    case (Inl e) with Cons.IH [of s destroyed s'] Cons.prems show ?thesis by simp
  next
    case (Inr u)
    obtain r s1 where q: "DatasetDelete call (ds_ID d) True False s = (r, s1)" by fastforce
    have away: "\<not> below (ds_ID d) x" using Cons.prems(2) Inr by simp
    note k = delete_outside [OF Cons.prems(1) q]
    obtain de s2 where rest: "sweep_datasets call p now ds s1 = (de, s2)" by fastforce
    have "wf s2 \<and> locals s2 x = locals s1 x \<and> x \<notin> set de"
      using Cons.IH [OF conjunct1 [OF k] _ rest] Cons.prems(2) by simp
    moreover have "x \<noteq> ds_ID d" using away by (auto simp: below_def)
    ultimately show ?thesis using k away Cons.prems(3) Inr q rest by (cases r) auto
  qed
qed simp

lemma sweep_at:
  assumes "wf s" "locals s dst = Some ps" "direct_entry p dst" "On p"
    and "\<And>d. reports dst ps d \<Longrightarrow> Reapable (Some d) p now = Inr () \<longleftrightarrow> due"
    and "sweep call p now s = (destroyed, s')"
  shows "(dst \<in> set destroyed \<longleftrightarrow> due \<and> released call p now dst s)
    \<and> (dst \<in> set destroyed \<longrightarrow> locals s' dst = None) \<and> (\<not> due \<longrightarrow> locals s' dst = locals s dst)"
proof -
  obtain l s1 where l: "DatasetList call (graveyard_prefix p) s = (l, s1)" by fastforce
  note k = list_keeps [OF assms(1) l]
  show ?thesis
  proof (cases l)
    case (Inl e) with l assms(4,6) k show ?thesis by (simp add: sweep_def released_def)
  next
    case (Inr ds)
    note listed = list_reports [OF assms(1) l [unfolded Inr]]
    have "has_prefix (graveyard_prefix p) dst"
      using assms(3) by (auto simp: direct_entry_def graveyard_prefix_def has_prefix_iff)
    then have "dst \<in> ds_ID ` set ds" using listed assms(2) by auto
    then obtain d where d: "d \<in> set ds" "ds_ID d = dst" by auto
    let ?xs = "takeWhile (\<lambda>d. ds_ID d \<noteq> dst) ds"
    obtain e zs where e: "dropWhile (\<lambda>d. ds_ID d \<noteq> dst) ds = e # zs" "ds_ID e = dst"
      using d by (metis (mono_tags, lifting) dropWhile_eq_Cons_conv dropWhile_eq_Nil_conv list.exhaust)
    have ds: "ds = ?xs @ e # zs" using e(1) takeWhile_dropWhile_id [of "\<lambda>d. ds_ID d \<noteq> dst" ds] by simp
    have "distinct (map ds_ID (?xs @ e # zs))" using listed ds by simp
    then have "dst \<notin> ds_ID ` set ?xs" "dst \<notin> ds_ID ` set zs" using e(2) by simp_all
    then have ne: "\<forall>f \<in> set ?xs \<union> set zs. ds_ID f \<noteq> dst" by blast
    have away: "\<not> below (ds_ID f) dst" if "f \<in> set ?xs \<union> set zs" "Reapable (Some f) p now = Inr ()" for f
      using that ne direct_below [OF _ assms(3), of "ds_ID f"] by (auto simp: Reapable_ok)
    have "e \<in> set ds" using ds by (metis in_set_conv_decomp)
    then have "reports dst ps e" using listed e(2) assms(2) by fastforce
    note due = assms(5) [OF this]
    obtain a s2 where a: "sweep_datasets call p now ?xs s1 = (a, s2)" by fastforce
    have ka: "wf s2 \<and> locals s2 dst = locals s dst \<and> dst \<notin> set a"
      using sweep_datasets_elsewhere [where x = dst, OF conjunct1 [OF k] _ a] away k by simp
    obtain r s3 where q: "DatasetDelete call dst True False s2 = (r, s3)" by fastforce
    note kd = delete_outside [OF conjunct1 [OF ka] q]
    have rel: "released call p now dst s \<longleftrightarrow> (\<exists>u. r = Inr u)"
      using l Inr a q by (cases r) (simp_all add: released_def)
    have run: "sweep_datasets call p now (?xs @ e # zs) s1 = (destroyed, s')"
      using assms(4,6) l Inr ds by (simp add: sweep_def)
    let ?s = "if due then s3 else s2"
    obtain b s4 where b: "sweep_datasets call p now zs ?s = (b, s4)" by fastforce
    have kb: "locals s4 dst = locals ?s dst \<and> dst \<notin> set b"
      using sweep_datasets_elsewhere [where x = dst, OF _ _ b] away ka kd by simp
    show ?thesis
    proof (cases due)
      case False
      then have "Reapable (Some e) p now \<noteq> Inr ()" using due by simp
      then obtain x where "Reapable (Some e) p now = Inl x" by (cases "Reapable (Some e) p now") auto
      with run a b False have "destroyed = a @ b" "s' = s4" by (auto simp: sweep_datasets_append)
      then show ?thesis using False ka kb by simp
    next
      case True
      then have y: "Reapable (Some e) p now = Inr ()" using due by simp
      show ?thesis
      proof (cases r)
        case (Inl x)
        with run a b True y q e(2) have "destroyed = a @ b" "s' = s4" by (auto simp: sweep_datasets_append)
        then show ?thesis using True ka kb rel Inl by simp
      next
        case r: (Inr x)
        with run a b True y q e(2) have "destroyed = a @ dst # b" "s' = s4" by (auto simp: sweep_datasets_append)
        moreover have "locals s3 dst = None" using delete_done [OF conjunct1 [OF ka]] q r by simp
        ultimately show ?thesis using True kb rel r by simp
      qed
    qed
  qed
qed

end

text \<open>The stand-in appliance with a clock in the range that is written with four-digit years: a
  sleep that would leave the range is interrupted.\<close>

definition timed_wf :: "nas \<times> int \<Rightarrow> bool" where
  "timed_wf s \<longleftrightarrow> nas_wf (fst s) \<and> in_calendar (snd s)"

definition calendar_wait :: "int \<Rightarrow> 's \<times> int \<Rightarrow> bool \<times> ('s \<times> int)" where
  "calendar_wait d sc = (if in_calendar (snd sc + d) then timed_wait d sc else (True, sc))"

interpretation calendar: clock "lift_call call" timed_now calendar_wait snd for call
  by unfold_locales
    (auto simp: timed_now_def timed_wait_def calendar_wait_def lift_call_def lifted_def
      split: prod.splits if_splits)

interpretation nas_retention: retention_store "lift_call nas_call" timed_wf
  "\<lambda>s. nas_locals (fst s)" timed_now calendar_wait snd
proof -
  show "retention_store (lift_call nas_call) timed_wf (\<lambda>s. nas_locals (fst s)) timed_now calendar_wait snd"
    by (intro retention_store.intro nas_store.lift_store [where K = in_calendar, folded timed_wf_def]
        calendar.clock_axioms retention_store_axioms.intro)
      (auto simp: timed_now_def timed_wait_def calendar_wait_def timed_wf_def split: if_splits)
qed

section \<open>From deletion to destruction\<close>

text \<open>
  C15. Deleting a protected volume and reaping it, end to end. If retiring a volume the driver
  owns reports success, its dataset is then an unoccupied direct child of the graveyard and nothing
  else has changed but the graveyard itself; the retirement is dated no earlier than the call, and
  the first \<open>k\<close> of the three stamps have been written. If the date is among them, a sweep destroys
  the dataset exactly when the grace period since that date is over and the appliance releases it;
  before that it leaves it untouched. If none was written and the dataset says which volume it was,
  no sweep ever destroys it. The appliance is any that keeps the contract of its dataset calls, in
  which every call may fail, and whose clock does not run backwards; the dataset has no children.
\<close>

theorem retire_then_reap:
  fixes wf :: "'s \<Rightarrow> bool"
  assumes "retention_store call wf locals now wait time"
    and "wf s" "locals s (DatasetPath i) = Some ps" "ps OwnerProperty = Some OwnerValue"
    and "childless (with_graveyard p (locals s)) (DatasetPath i)"
    and "Retire call now wait p i s = (Inr (), s')"
  shows "\<exists>t dst k. time s \<le> t \<and> direct_entry p dst \<and> locals s dst = None \<and> k \<le> 3
    \<and> locals s' = (with_graveyard p (locals s))(DatasetPath i := None, dst \<mapsto> retired_props k i dst t ps)
    \<and> (\<forall>now' destroyed s''. sweep call p now' s' = (destroyed, s'') \<longrightarrow>
         (2 \<le> k \<longrightarrow>
            (dst \<in> set destroyed \<longleftrightarrow>
               pol_Grace p \<le> time_Sub now' (t - t mod nanos) \<and> released call p now' dst s')
            \<and> (dst \<in> set destroyed \<longrightarrow> locals s'' dst = None)
            \<and> (time_Sub now' (t - t mod nanos) < pol_Grace p \<longrightarrow> locals s'' dst = locals s' dst))
         \<and> (k = 0 \<and> ps OwnerIDProperty = Some (DatasetPath i) \<longrightarrow>
              dst \<notin> set destroyed \<and> locals s'' dst = locals s' dst))"
proof -
  obtain t a dst k where r: "On p" "wf s'" "time s \<le> t" "in_calendar t" "dst = entry_path p (entryName i t) a"
    "locals s dst = None" "k \<le> 3"
    "locals s' = (with_graveyard p (locals s))(DatasetPath i := None, dst \<mapsto> retired_props k i dst t ps)"
    using retention_store.Retire_ok [OF assms(1-3,5,6)] by blast
  have dir: "direct_entry p dst" unfolding r(5) by (rule entry_path_direct [OF r(1,4)])
  have loc: "locals s' dst = Some (retired_props k i dst t ps)" by (simp add: r(8))
  note sw = dataset_store.sweep_at [OF retention_store.axioms(1) [OF assms(1)] r(2) loc dir r(1)]
  have dated: "(dst \<in> set destroyed \<longleftrightarrow>
        pol_Grace p \<le> time_Sub now' (t - t mod nanos) \<and> released call p now' dst s')
      \<and> (dst \<in> set destroyed \<longrightarrow> locals s'' dst = None)
      \<and> (time_Sub now' (t - t mod nanos) < pol_Grace p \<longrightarrow> locals s'' dst = locals s' dst)"
    if "sweep call p now' s' = (destroyed, s'')" "2 \<le> k" for now' destroyed s''
    using sw [where due = "pol_Grace p \<le> time_Sub now' (t - t mod nanos)", OF _ that(1)]
      retired_is_reapable [where i = i and t = t and ps = ps and k = k and dst = dst, OF _ assms(4) that(2) dir r(4)] by (simp add: not_le)
  have undated: "dst \<notin> set destroyed \<and> locals s'' dst = locals s' dst"
    if "sweep call p now' s' = (destroyed, s'')" "k = 0" "ps OwnerIDProperty = Some (DatasetPath i)"
    for now' destroyed s''
  proof -
    have "retired_props k i dst t ps = ps" using that(2) by (simp add: retired_props_def)
    moreover have "DatasetPath i \<noteq> dst" using assms(3) r(6) by auto
    ultimately have "Reapable (Some d) p now' = Inr () \<longleftrightarrow> False"
      if "reports dst (retired_props k i dst t ps) d" for d
      using unstamped_not_reapable that \<open>ps OwnerIDProperty = _\<close> by metis
    from sw [OF this that(1)] show ?thesis by blast
  qed
  show ?thesis
  proof (intro exI conjI allI impI)
    show "time s \<le> t" "direct_entry p dst" "locals s dst = None" "k \<le> 3"
      "locals s' = (with_graveyard p (locals s))(DatasetPath i := None, dst \<mapsto> retired_props k i dst t ps)"
      by (fact r(3) dir r(6,7,8))+
  qed (use dated undated in blast)+
qed

definition sample_policy :: policy where
  "sample_policy = \<lparr>pol_Pool = ''tank'', pol_Parent = ''k8s'', pol_Graveyard = ''.trash'',
     pol_Grace = 3600 * nanos, pol_ReapInterval = 60 * nanos\<rparr>"

definition sample_id :: vol_id where
  "sample_id = \<lparr>id_Backend = ''nas'', id_Protocol = ''nfs'', id_Pool = ''tank'', id_Parent = ''k8s'',
     id_Namespace = [], id_Name = ''pvc-1''\<rparr>"

definition sample_nas :: nas where
  "sample_nas = \<lparr>datasets = [(''tank/k8s'', []),
       (''tank/k8s/pvc-1'', [(OwnerProperty, OwnerValue), (OwnerIDProperty, ''tank/k8s/pvc-1'')])],
     clonedFrom = [], renameFail = None, forces = []\<rparr>"

text \<open>The same appliance once it has a graveyard, and the entry the volume goes to.\<close>

definition sample_trash :: nas where
  "sample_trash = sample_nas\<lparr>datasets := datasets sample_nas @
     [(''tank/k8s/.trash'', [(OwnerProperty, OwnerValue), (OwnerIDProperty, ''tank/k8s/.trash''),
        (GraveyardProperty, GraveyardValue)])]\<rparr>"

definition sample_entry :: string where
  "sample_entry = ''tank/k8s/.trash/20231114T221320Z-pvc-1''"

lemma sample_retirement:
  "\<exists>s'. Retire (lift_call nas_call) timed_now calendar_wait sample_policy sample_id
     (sample_nas, 1700000000000000000) = (Inr (), s')"
proof -
  let ?t = "1700000000000000000 :: int"
  have guards: "On sample_policy" "Confine sample_id (pol_Pool sample_policy) (pol_Parent sample_policy) = Inr ()"
    by code_simp+
  have graveyard: "ensureGraveyard (lift_call nas_call) sample_policy (sample_nas, ?t) = (Inr (), (sample_trash, ?t))"
    by code_simp
  have entry: "freeEntry (lift_call nas_call) sample_policy sample_id ?t (sample_trash, ?t) =
      (Inr sample_entry, (sample_trash, ?t))" by code_simp
  have moved: "fst (renameWhenReleased (lift_call nas_call) timed_now calendar_wait (DatasetPath sample_id)
      sample_entry (sample_trash, ?t)) = Inr ()" by code_simp
  obtain s1 where "renameWhenReleased (lift_call nas_call) timed_now calendar_wait (DatasetPath sample_id)
      sample_entry (sample_trash, ?t) = (Inr (), s1)" using moved by (metis prod.collapse)
  then show ?thesis
    by (simp add: Retire_def guards bindE_def tryE_def graveyard entry timed_now_def del: stamp.simps)
qed

theorem retire_then_reap_witness:
  "\<exists>s' dst. Retire (lift_call nas_call) timed_now calendar_wait sample_policy sample_id
      (sample_nas, 1700000000000000000) = (Inr (), s')
    \<and> direct_entry sample_policy dst \<and> nas_locals (fst s') dst \<noteq> None
    \<and> nas_locals (fst s') (DatasetPath sample_id) = None"
proof -
  let ?s = "(sample_nas, 1700000000000000000 :: int)"
  let ?run = "Retire (lift_call nas_call) timed_now calendar_wait sample_policy sample_id ?s"
  have path: "DatasetPath sample_id = ''tank/k8s/pvc-1''" by (simp add: DatasetPath_def sample_id_def)
  have root: "Root sample_policy = ''tank/k8s/.trash''" by (simp add: Root_def sample_policy_def)
  have 1: "timed_wf ?s"
    by (simp add: timed_wf_def nas_wf_def sample_nas_def in_calendar_def nanos_def)
  have 2: "nas_locals (fst ?s) (DatasetPath sample_id) =
      Some [OwnerProperty \<mapsto> OwnerValue, OwnerIDProperty \<mapsto> ''tank/k8s/pvc-1'']"
    unfolding path by (simp add: nas_locals_def sample_nas_def) (auto simp: fun_eq_iff)
  have 3: "[OwnerProperty \<mapsto> OwnerValue, OwnerIDProperty \<mapsto> ''tank/k8s/pvc-1''] OwnerProperty = Some OwnerValue"
    by (simp add: OwnerProperty_def OwnerIDProperty_def)
  have 4: "childless (with_graveyard sample_policy (nas_locals (fst ?s))) (DatasetPath sample_id)"
    unfolding childless_def path with_graveyard_def root
    by (simp add: nas_locals_def sample_nas_def has_prefix_iff)
  obtain s' where r: "?run = (Inr (), s')" using sample_retirement by blast
  from retire_then_reap [OF nas_retention.retention_store_axioms 1 2 3 4 r] obtain t dst k where
    d: "direct_entry sample_policy dst" "nas_locals (fst ?s) dst = None"
    "nas_locals (fst s') = (with_graveyard sample_policy (nas_locals (fst ?s)))
       (DatasetPath sample_id := None, dst \<mapsto> retired_props k sample_id dst t
          [OwnerProperty \<mapsto> OwnerValue, OwnerIDProperty \<mapsto> ''tank/k8s/pvc-1''])" by blast
  have "dst \<noteq> DatasetPath sample_id" using 2 d(2) by auto
  with d r show ?thesis by (intro exI [of _ s'] exI [of _ dst]) simp
qed

definition sample_retired :: dataset where
  "sample_retired =
     \<lparr>ds_ID = ''tank/k8s/.trash/20231114T221320Z-pvc-1'', ds_Type = ''FILESYSTEM'', ds_Mountpoint = [],
      ds_VolSize = 0, ds_RefQuota = 0, ds_Used = 0, ds_Available = 0, ds_Origin = [],
      ds_UserProperties =
        [OwnerProperty \<mapsto> \<lparr>pr_Value = OwnerValue, pr_Source = ''LOCAL'', pr_RawValue = []\<rparr>,
         OwnerIDProperty \<mapsto> \<lparr>pr_Value = ''tank/k8s/.trash/20231114T221320Z-pvc-1'', pr_Source = ''LOCAL'',
           pr_RawValue = []\<rparr>,
         DeletedAtProperty \<mapsto> \<lparr>pr_Value = ''2023-11-14T22:13:20Z'', pr_Source = ''LOCAL'', pr_RawValue = []\<rparr>],
      ds_Sync = property_zero, ds_Compression = property_zero, ds_ATime = property_zero,
      ds_RecordSize = property_zero\<rparr>"


section \<open>What a sweep may call\<close>

definition reaping_call :: "policy \<Rightarrow> int \<Rightarrow> dataset set \<Rightarrow> string \<times> json list \<Rightarrow> bool" where
  "reaping_call p now listed = (\<lambda>(m, ps). m = ''pool.dataset.query''
     \<or> m = ''pool.dataset.delete''
       \<and> (\<exists>ds \<in> listed. Reapable (Some ds) p now = Inr ()
            \<and> ps = [JStr (ds_ID ds), JObj [(''recursive'', JBool True), (''force'', JBool False)]]))"

lemma calls_sweep_datasets:
  "set dss \<subseteq> listed \<Longrightarrow> only_calls (reaping_call p now listed) (sweep_datasets (recording call) p now dss)"
proof (induction dss)
  case (Cons ds rest)
  have del: "only_calls (reaping_call p now listed) (DatasetDelete (recording call) (ds_ID ds) True False)"
    if "Reapable (Some ds) p now = Inr ()"
    using Cons.prems that by (intro calls_DatasetDelete) (auto simp: reaping_call_def)
  have rest: "only_calls (reaping_call p now listed) (sweep_datasets (recording call) p now rest)"
    using Cons by simp
  show ?case
    unfolding only_calls_def
    using only_callsD [OF rest] only_calls_seq [OF del _ rest]
    by (auto split: sum.splits prod.splits)
qed (simp add: only_calls_def)

text \<open>
  C16. Whatever the appliance answers, a sweep calls nothing but the dataset query and the
  dataset delete, and each delete names a dataset of the listing the sweep started from that was
  reapable at that moment, and is recursive and not forced.
\<close>

theorem sweep_deletes_only_reapable:
  assumes "sweep (recording call) p now (s, []) = (destroyed, (s', made))"
  shows "list_all (reaping_call p now
      (case fst (DatasetList call (graveyard_prefix p) s) of Inl _ \<Rightarrow> {} | Inr listed \<Rightarrow> set listed)) made"
proof -
  let ?listed = "case fst (DatasetList call (graveyard_prefix p) s) of Inl _ \<Rightarrow> {} | Inr listed \<Rightarrow> set listed"
  let ?P = "reaping_call p now ?listed"
  obtain l s1 where l: "DatasetList call (graveyard_prefix p) s = (l, s1)" by fastforce
  have "only_calls ?P (DatasetList (recording call) (graveyard_prefix p))"
    by (rule calls_Query) (simp add: reaping_call_def)
  from run_recording [OF tracks_Ops(2) this l]
  obtain new where 1: "DatasetList (recording call) (graveyard_prefix p) (s, []) = (l, (s1, [] @ new))" "list_all ?P new" .
  have "only_calls ?P (sweep_datasets (recording call) p now dss)" if "l = Inr dss" for dss
    by (rule calls_sweep_datasets) (simp add: l that)
  with assms 1 show ?thesis
    unfolding sweep_def by (auto dest!: only_callsD split: if_splits sum.splits)
qed

definition sample_graveyard :: nas where
  "sample_graveyard = \<lparr>datasets = [(''tank/k8s/.trash'', [(GraveyardProperty, GraveyardValue)]),
       (''tank/k8s/.trash/20231114T221320Z-pvc-1'',
          [(OwnerProperty, OwnerValue), (OwnerIDProperty, ''tank/k8s/.trash/20231114T221320Z-pvc-1''),
           (DeletedAtProperty, ''2023-11-14T22:13:20Z'')])],
     clonedFrom = [], renameFail = None, forces = []\<rparr>"

theorem sweep_deletes_only_reapable_witness:
  "\<exists>s' made. sweep (recording nas_call) sample_policy 1700003600000000000 (sample_graveyard, []) =
      ([''tank/k8s/.trash/20231114T221320Z-pvc-1''], (s', made))
    \<and> length made = 2
    \<and> list_all (\<lambda>(m, _). m = ''pool.dataset.query'' \<or> m = ''pool.dataset.delete'') made"
proof -
  have "fst (sweep (recording nas_call) sample_policy 1700003600000000000 (sample_graveyard, [])) =
      [''tank/k8s/.trash/20231114T221320Z-pvc-1'']"
    "length (snd (snd (sweep (recording nas_call) sample_policy 1700003600000000000 (sample_graveyard, [])))) = 2"
    by code_simp+
  then obtain s' made where r: "sweep (recording nas_call) sample_policy 1700003600000000000 (sample_graveyard, []) =
      ([''tank/k8s/.trash/20231114T221320Z-pvc-1''], (s', made))" "length made = 2"
    by (metis prod.collapse)
  moreover have "list_all (\<lambda>(m, _). m = ''pool.dataset.query'' \<or> m = ''pool.dataset.delete'') made"
    using sweep_deletes_only_reapable [OF r(1)]
    by (rule list.pred_mono_strong) (auto simp: reaping_call_def)
  ultimately show ?thesis by blast
qed

text \<open>
  A rename that is not followed by the stamp of the new owner id leaves a dataset the reaper
  refuses for ever: the entry name still tells the time of the deletion, but the recorded
  owner id is the old path, so the ownership check never passes.
\<close>

lemma unstamped_entry_never_reapable:
  assumes "ds_UserProperties ds OwnerIDProperty = Some q" "pr_Value q \<noteq> ds_ID ds"
  shows "Reapable (Some ds) p now \<noteq> Inr ()"
  using assms by (auto simp: Reapable_ok owned_def asVolumeDataset_def)

section \<open>What a retirement calls\<close>

lemma only_calls_state [calls]:
  assumes "only_calls P now" "\<And>t. only_calls P (f t)"
  shows "only_calls P (\<lambda>s. case now s of (t, s') \<Rightarrow> f t s')"
  using only_calls_seq [OF assms(1) _ assms(2)] unfolding only_calls_def by (auto split: prod.splits)

lemma calls_rename_loop:
  assumes "only_calls P now" "\<And>d. only_calls P (wait d)" "\<And>ps. P (''pool.dataset.rename'', ps)"
  shows "rename_loop (recording call) now wait n src dst deadline delay sl = Some (r, sl') \<Longrightarrow>
    \<exists>new. snd sl' = snd sl @ new \<and> list_all P new"
proof (induction n arbitrary: delay sl)
  case (Suc n)
  obtain a s1 where 1: "DatasetRename (recording call) src dst True sl = (a, s1)" by (meson surj_pair)
  obtain t s2 where 2: "now s1 = (t, s2)" by (meson surj_pair)
  obtain w s3 where 3: "wait delay s2 = (w, s3)" by (meson surj_pair)
  obtain n1 where n1: "snd s1 = snd sl @ n1" "list_all P n1"
    using only_callsD [OF calls_DatasetRename 1] assms(3) by blast
  obtain n2 where n2: "snd s2 = snd s1 @ n2" "list_all P n2" using only_callsD [OF assms(1) 2] by blast
  obtain n3 where n3: "snd s3 = snd s2 @ n3" "list_all P n3" using only_callsD [OF assms(2) 3] by blast
  note step = Suc.prems [unfolded rename_loop.simps 1 prod.case]
  consider "sl' = s1" | "sl' = s2" | "sl' = s3"
    | d where "rename_loop (recording call) now wait n src dst deadline d s3 = Some (r, sl')"
    using step 2 3 by (auto split: sum.splits if_splits bool.splits)
  then show ?case
  proof cases
    case 4
    from Suc.IH [OF this] n1 n2 n3 show ?thesis by auto
  qed (use n1 n2 n3 in auto)
qed simp

lemma calls_renameWhenReleased:
  assumes "only_calls P now" "\<And>d. only_calls P (wait d)" "\<And>ps. P (''pool.dataset.rename'', ps)"
  shows "only_calls P (renameWhenReleased (recording call) now wait src dst)"
  unfolding only_calls_def renameWhenReleased_def
  using only_callsD [OF assms(1)] calls_rename_loop [where P = P, OF assms]
  by (auto split: prod.splits option.splits) fastforce

lemma calls_stamp:
  assumes "\<And>ps. P (''pool.dataset.update'', ps)"
  shows "\<exists>new. snd (stamp (recording call) dst kvs sl) = snd sl @ new \<and> list_all P new"
proof (induction kvs arbitrary: sl)
  case (Cons kv kvs)
  obtain k v where kv: "kv = (k, v)" by fastforce
  obtain a s1 where 1: "SetUserProperty (recording call) dst k v sl = (a, s1)" by (meson surj_pair)
  obtain n1 where "snd s1 = snd sl @ n1" "list_all P n1"
    using only_callsD [OF calls_SetUserProperty 1] assms by blast
  with Cons.IH [of s1] show ?case by (auto simp: kv 1 split: sum.splits)
qed simp

lemma calls_try_entries:
  assumes "\<And>ps. P (''pool.dataset.query'', ps)"
  shows "only_calls P (try_entries (recording call) p base as)"
  by (induction as) (auto simp: Let_def intro!: calls calls_Query assms)

lemma calls_ensureGraveyard:
  assumes "\<And>ps. P (''pool.dataset.query'', ps)" "\<And>ps. P (''pool.dataset.create'', ps)"
  shows "only_calls P (ensureGraveyard (recording call) p)"
  unfolding ensureGraveyard_def Let_def by (intro calls calls_Query calls_DatasetCreate assms)

lemma calls_Retire:
  assumes "only_calls P now" "\<And>d. only_calls P (wait d)"
    and "\<And>ps. P (''pool.dataset.query'', ps)" "\<And>ps. P (''pool.dataset.create'', ps)"
    and "\<And>ps. P (''pool.dataset.rename'', ps)" "\<And>ps. P (''pool.dataset.update'', ps)"
  shows "only_calls P (Retire (recording call) now wait p i)"
proof -
  have st: "only_calls P (\<lambda>s. (Inr (), stamp (recording call) dst kvs s))" for dst kvs
    unfolding only_calls_def using calls_stamp [where P = P and call = call and dst = dst and kvs = kvs, OF assms(6)]
    by (metis prod.inject)
  show ?thesis
    unfolding Retire_def freeEntry_def
    by (intro calls assms(1) st calls_ensureGraveyard calls_try_entries calls_renameWhenReleased assms)
qed

end
