(* ===== verification/Config.thy ===== *)
theory Config
  imports GoNum Retention
begin

text \<open>
  \<^verbatim>\<open>internal/config\<close>: the configuration of the driver, its validation at start, and the reload of a
  changed file while the driver runs. A Go map is a list of pairs with distinct keys, in the order
  the map is ranged over. Reading the file and decoding its YAML is a parameter: \<open>file\<close> is the
  decoded configuration, or nothing when that fails. \<^verbatim>\<open>url.Parse\<close> is a parameter too, with the scheme
  and the host of the result, and so are the lower-case forms of letters beyond ASCII.
\<close>

section \<open>Lower case\<close>

definition lower_char :: "char \<Rightarrow> char" where
  "lower_char c = (let n = (of_char c :: nat) in if 65 \<le> n \<and> n \<le> 90 then char_of (n + 32) else c)"

definition ToLower :: "(nat \<Rightarrow> nat) \<Rightarrow> string \<Rightarrow> string" where
  "ToLower low s =
     (if ascii s then map lower_char s
      else concat (map (\<lambda>(r, bs). if r < 128 then map lower_char bs else encode_rune (low r)) (rune_chunks s)))"

section \<open>Delete protection\<close>

record DeleteProtection =
  dp_Enabled :: bool
  dp_GracePeriod :: string
  dp_GraveyardDataset :: string
  dp_ReapInterval :: string

definition DefaultGraveyardDataset :: string where
  "DefaultGraveyardDataset = ''.trash''"

definition DefaultReapInterval :: int where
  "DefaultReapInterval = 3600000000000"

definition Grace :: "DeleteProtection \<Rightarrow> int" where
  "Grace d =
     (if \<not> dp_Enabled d then 0
      else let s = TrimSpace (dp_GracePeriod d)
           in if s = [] then 0
              else case ParseDuration s of None \<Rightarrow> 0 | Some v \<Rightarrow> if v \<le> 0 then 0 else v)"

definition Graveyard :: "DeleteProtection \<Rightarrow> string" where
  "Graveyard d =
     (let s = TrimSpace (dp_GraveyardDataset d) in if s \<noteq> [] then s else DefaultGraveyardDataset)"

definition Reap :: "DeleteProtection \<Rightarrow> int" where
  "Reap d =
     (let s = TrimSpace (dp_ReapInterval d)
      in if s = [] then DefaultReapInterval
         else case ParseDuration s of
                None \<Rightarrow> DefaultReapInterval
              | Some v \<Rightarrow> if v \<le> 0 then DefaultReapInterval else v)"

definition DeleteProtection_Equal :: "DeleteProtection \<Rightarrow> DeleteProtection \<Rightarrow> bool" where
  "DeleteProtection_Equal d d' \<longleftrightarrow>
     dp_Enabled d = dp_Enabled d' \<and> Grace d = Grace d' \<and> Graveyard d = Graveyard d' \<and> Reap d = Reap d'"

definition maxGraveyardName :: nat where
  "maxGraveyardName = 64"

definition graveyard_rune :: "nat \<Rightarrow> bool" where
  "graveyard_rune r \<longleftrightarrow> 97 \<le> r \<and> r \<le> 122 \<or> 65 \<le> r \<and> r \<le> 90 \<or> 48 \<le> r \<and> r \<le> 57
     \<or> r = 45 \<or> r = 95 \<or> r = 46 \<or> r = 58"

definition validGraveyardName :: "string \<Rightarrow> go_error + unit" where
  "validGraveyardName name =
     (if name = [] then Inr ()
      else if length name > maxGraveyardName then Inl (Plain ''too long'')
      else if name = ''.'' \<or> name = ''..'' then Inl (Plain ''not a dataset name ZFS accepts'')
      else if \<not> list_all graveyard_rune (runes name) then Inl (Plain ''not legal in a ZFS dataset name'')
      else Inr ())"

definition duration_setting :: "string \<Rightarrow> bool" where
  "duration_setting value =
     (let s = TrimSpace value
      in s = [] \<or> (case ParseDuration s of None \<Rightarrow> False | Some v \<Rightarrow> 0 \<le> v))"

definition DeleteProtection_validate :: "DeleteProtection \<Rightarrow> go_error + unit" where
  "DeleteProtection_validate d =
     (if \<not> duration_setting (dp_GracePeriod d) then Inl (Plain ''gracePeriod is not a Go duration'')
      else if \<not> duration_setting (dp_ReapInterval d) then Inl (Plain ''reapInterval is not a Go duration'')
      else case validGraveyardName (dp_GraveyardDataset d) of
             Inl e \<Rightarrow> Inl (Wrapped [e])
           | Inr _ \<Rightarrow>
               if \<not> dp_Enabled d
               then (if TrimSpace (dp_GracePeriod d) \<noteq> [] \<or> TrimSpace (dp_GraveyardDataset d) \<noteq> []
                        \<or> TrimSpace (dp_ReapInterval d) \<noteq> []
                     then Inl (Plain ''deleteProtection is configured but enabled is false'')
                     else Inr ())
               else if Grace d \<le> 0 then Inl (Plain ''gracePeriod is not a positive duration'')
               else Inr ())"

section \<open>Quotas of namespaces\<close>

record NamespaceQuotas =
  nq_Enabled :: bool
  nq_DefaultBytes :: int
  nq_PerNamespace :: "(string \<times> int) list"

definition QuotaFor :: "NamespaceQuotas \<Rightarrow> string \<Rightarrow> int" where
  "QuotaFor q namespace =
     (case map_of (nq_PerNamespace q) namespace of Some v \<Rightarrow> v | None \<Rightarrow> nq_DefaultBytes q)"

definition NamespaceQuotas_Equal :: "NamespaceQuotas \<Rightarrow> NamespaceQuotas \<Rightarrow> bool" where
  "NamespaceQuotas_Equal q q' \<longleftrightarrow>
     nq_Enabled q = nq_Enabled q' \<and> nq_DefaultBytes q = nq_DefaultBytes q'
     \<and> length (nq_PerNamespace q) = length (nq_PerNamespace q')
     \<and> list_all (\<lambda>(k, v). map_of (nq_PerNamespace q') k = Some v) (nq_PerNamespace q)"

definition maxNamespaceKey :: nat where
  "maxNamespaceKey = 63"

definition validNamespaceKey :: "string \<Rightarrow> go_error + unit" where
  "validNamespaceKey ns =
     (if ns = [] then Inl (Plain ''namespace name must not be empty'')
      else if length ns > maxNamespaceKey then Inl (Plain ''namespace too long'')
      else if \<not> label_runes (length ns) 0 (rune_chunks ns) then Inl (Plain ''not a DNS-1123 label'')
      else Inr ())"

fun quota_entries :: "(string \<times> int) list \<Rightarrow> go_error + unit" where
  "quota_entries [] = Inr ()"
| "quota_entries ((ns, v) # r) =
     (case validNamespaceKey ns of
        Inl e \<Rightarrow> Inl (Wrapped [e])
      | Inr _ \<Rightarrow> if v < 0 then Inl (Plain ''quota must not be negative'') else quota_entries r)"

definition NamespaceQuotas_validate :: "NamespaceQuotas \<Rightarrow> go_error + unit" where
  "NamespaceQuotas_validate q =
     (if nq_DefaultBytes q < 0 then Inl (Plain ''defaultBytes must not be negative'')
      else case quota_entries (nq_PerNamespace q) of
             Inl e \<Rightarrow> Inl e
           | Inr _ \<Rightarrow>
               if \<not> nq_Enabled q \<and> (0 < nq_DefaultBytes q \<or> nq_PerNamespace q \<noteq> [])
               then Inl (Plain ''namespaceQuotas has quotas configured but enabled is false'')
               else Inr ())"

section \<open>One appliance\<close>

record cfg_backend =
  cb_Name :: string
  cb_Endpoint :: string
  cb_Username :: string
  cb_APIKey :: string
  cb_Pool :: string
  cb_ParentDataset :: string
  cb_ReservedBytes :: int
  cb_ReservedPercent :: rat
  cb_Flavour :: string
  cb_RateLimit :: rat
  cb_BreakerThreshold :: int
  cb_BreakerResetTimeout :: string
  cb_NamespaceQuotas :: NamespaceQuotas
  cb_DeleteProtection :: DeleteProtection
  cb_CACert :: string
  cb_InsecureSkipVerify :: bool

definition BreakerReset :: "cfg_backend \<Rightarrow> int" where
  "BreakerReset b =
     (if TrimSpace (cb_BreakerResetTimeout b) = [] then 0
      else case ParseDuration (cb_BreakerResetTimeout b) of None \<Rightarrow> 0 | Some d \<Rightarrow> if d \<le> 0 then 0 else d)"

definition FlavourSCALE :: string where "FlavourSCALE = ''scale''"
definition FlavourCORE :: string where "FlavourCORE = ''core''"

definition schemeForFlavour :: "string \<rightharpoonup> string" where
  "schemeForFlavour = map_of [(FlavourSCALE, ''wss''), (FlavourCORE, ''https'')]"

definition NormalisedFlavour :: "(nat \<Rightarrow> nat) \<Rightarrow> cfg_backend \<Rightarrow> string" where
  "NormalisedFlavour low b =
     (let f = ToLower low (TrimSpace (cb_Flavour b)) in if f = [] then FlavourSCALE else f)"

type_synonym url_parser = "string \<Rightarrow> (string \<times> string) option"

definition EqualFold_ascii :: "string \<Rightarrow> string \<Rightarrow> bool" where
  "EqualFold_ascii s want \<longleftrightarrow> map lower_char s = map lower_char want"

definition validateEndpoint :: "url_parser \<Rightarrow> string \<Rightarrow> string \<Rightarrow> go_error + unit" where
  "validateEndpoint url_Parse endpoint wantScheme =
     (if TrimSpace endpoint = [] then Inl (Wrapped [Sentinel ErrInsecureTransport])
      else case url_Parse endpoint of
             None \<Rightarrow> Inl (Wrapped [Sentinel ErrInsecureTransport])
           | Some (scheme, host) \<Rightarrow>
               if \<not> EqualFold_ascii scheme wantScheme then Inl (Wrapped [Sentinel ErrInsecureTransport])
               else if host = [] then Inl (Wrapped [Sentinel ErrInsecureTransport])
               else Inr ())"

definition cfg_backend_validate :: "(nat \<Rightarrow> nat) \<Rightarrow> url_parser \<Rightarrow> cfg_backend \<Rightarrow> go_error + unit" where
  "cfg_backend_validate low url_Parse b =
     (let flavour = NormalisedFlavour low b
      in case schemeForFlavour flavour of
           None \<Rightarrow> Inl (Wrapped [Sentinel ErrUnknownFlavour])
         | Some scheme \<Rightarrow>
      case validateEndpoint url_Parse (cb_Endpoint b) scheme of
        Inl e \<Rightarrow> Inl e
      | Inr _ \<Rightarrow>
      if list_ex (\<lambda>v. TrimSpace v = []) [cb_Username b, cb_APIKey b, cb_Pool b, cb_ParentDataset b]
      then Inl (Plain ''must be set'')
      else if contains_str ''..'' (cb_ParentDataset b) then Inl (Plain ''parentDataset must not contain ..'')
      else if contains_any [CHR ''/'', CHR 0x5C] (cb_ParentDataset b)
           then Inl (Plain ''parentDataset must be a single dataset name'')
      else if cb_ReservedBytes b < 0 then Inl (Plain ''reservedBytes must not be negative'')
      else if cb_ReservedPercent b < 0 \<or> 100 < cb_ReservedPercent b
           then Inl (Plain ''reservedPercent must be between 0 and 100'')
      else if cb_RateLimit b < 0 then Inl (Plain ''rateLimit must not be negative'')
      else case NamespaceQuotas_validate (cb_NamespaceQuotas b) of
        Inl e \<Rightarrow> Inl e
      | Inr _ \<Rightarrow>
      case DeleteProtection_validate (cb_DeleteProtection b) of
        Inl e \<Rightarrow> Inl e
      | Inr _ \<Rightarrow>
      if 0 < Grace (cb_DeleteProtection b) \<and> flavour = FlavourCORE
      then Inl (Plain ''deleteProtection is not supported on CORE'')
      else let s = TrimSpace (cb_BreakerResetTimeout b)
           in if s = [] \<or> (case ParseDuration s of None \<Rightarrow> False | Some d \<Rightarrow> 0 < d) then Inr ()
              else Inl (Plain ''breakerResetTimeout is not a positive Go duration''))"

definition PolicyFor :: "cfg_backend \<Rightarrow> policy" where
  "PolicyFor b =
     \<lparr>pol_Pool = cb_Pool b, pol_Parent = cb_ParentDataset b, pol_Graveyard = Graveyard (cb_DeleteProtection b),
      pol_Grace = Grace (cb_DeleteProtection b), pol_ReapInterval = Reap (cb_DeleteProtection b)\<rparr>"

section \<open>The configuration\<close>

record config =
  cf_Backends :: "(string \<times> cfg_backend) list"
  cf_NodeID :: string
  cf_LogLevel :: string
  cf_MetricsAddr :: string
  cf_MetricsInterval :: string

definition DefaultMetricsInterval :: int where
  "DefaultMetricsInterval = 60000000000"

definition MetricsPollInterval :: "config \<Rightarrow> int" where
  "MetricsPollInterval c =
     (if cf_MetricsInterval c = [] then DefaultMetricsInterval
      else case ParseDuration (cf_MetricsInterval c) of
             None \<Rightarrow> DefaultMetricsInterval
           | Some d \<Rightarrow> if d \<le> 0 then DefaultMetricsInterval else d)"

fun validate_backends :: "(nat \<Rightarrow> nat) \<Rightarrow> url_parser \<Rightarrow> (string \<times> cfg_backend) list \<Rightarrow> go_error + unit" where
  "validate_backends low url_Parse [] = Inr ()"
| "validate_backends low url_Parse ((name, b) # r) =
     (case cfg_backend_validate low url_Parse b of
        Inl e \<Rightarrow> Inl (Wrapped [e])
      | Inr _ \<Rightarrow> validate_backends low url_Parse r)"

definition Validate :: "(nat \<Rightarrow> nat) \<Rightarrow> url_parser \<Rightarrow> config \<Rightarrow> go_error + unit" where
  "Validate low url_Parse c =
     (if cf_Backends c = [] then Inl (Plain ''no backends configured'')
      else validate_backends low url_Parse (cf_Backends c))"

definition ValidateNode :: "(nat \<Rightarrow> nat) \<Rightarrow> url_parser \<Rightarrow> config \<Rightarrow> go_error + unit" where
  "ValidateNode low url_Parse c =
     (case Validate low url_Parse c of
        Inl e \<Rightarrow> Inl e
      | Inr _ \<Rightarrow> if cf_NodeID c = [] then Inl (Plain ''nodeID must be set'') else Inr ())"

definition name_backend :: "string \<times> cfg_backend \<Rightarrow> string \<times> cfg_backend" where
  "name_backend = (\<lambda>(name, b). (name, if cb_Name b = [] then b\<lparr>cb_Name := name\<rparr> else b))"

definition Load :: "(nat \<Rightarrow> nat) \<Rightarrow> url_parser \<Rightarrow> config option \<Rightarrow> go_error + config" where
  "Load low url_Parse file =
     (case file of
        None \<Rightarrow> Inl (Plain ''read config'')
      | Some c \<Rightarrow>
          let c1 = c\<lparr>cf_Backends := map name_backend (cf_Backends c),
                    cf_LogLevel := (if cf_LogLevel c = [] then ''info'' else cf_LogLevel c),
                    cf_MetricsAddr := (if cf_MetricsAddr c = [] then '':9090'' else cf_MetricsAddr c)\<rparr>
          in if cf_MetricsInterval c \<noteq> []
                \<and> (case ParseDuration (cf_MetricsInterval c) of None \<Rightarrow> True | Some d \<Rightarrow> d \<le> 0)
             then Inl (Plain ''metricsInterval is not a positive Go duration'')
             else case Validate low url_Parse c1 of Inl e \<Rightarrow> Inl e | Inr _ \<Rightarrow> Inr c1)"

section \<open>Rotating credentials\<close>

record Credential =
  cr_Username :: string
  cr_APIKey :: string
  cr_CACert :: string
  cr_InsecureSkipVerify :: bool

definition Credentials :: "cfg_backend \<Rightarrow> Credential" where
  "Credentials b =
     \<lparr>cr_Username = cb_Username b, cr_APIKey = cb_APIKey b, cr_CACert = cb_CACert b,
      cr_InsecureSkipVerify = cb_InsecureSkipVerify b\<rparr>"

text \<open>The process-wide store of rotated credentials, keyed by the name of the backend.\<close>

type_synonym creds = "string \<rightharpoonup> Credential"

definition SetCredential :: "string \<Rightarrow> Credential \<Rightarrow> creds \<Rightarrow> creds" where
  "SetCredential name c creds = creds(name \<mapsto> c)"

definition ForgetCredential :: "string \<Rightarrow> creds \<Rightarrow> creds" where
  "ForgetCredential name creds = creds(name := None)"

definition Current :: "creds \<Rightarrow> cfg_backend \<Rightarrow> cfg_backend" where
  "Current creds b =
     (case creds (cb_Name b) of
        None \<Rightarrow> b
      | Some c \<Rightarrow> b\<lparr>cb_Username := cr_Username c, cb_APIKey := cr_APIKey c, cb_CACert := cr_CACert c,
                   cb_InsecureSkipVerify := cr_InsecureSkipVerify c\<rparr>)"

section \<open>Reloading\<close>

text \<open>The fields of one backend that differ and need a restart.\<close>

definition backend_changes :: "(nat \<Rightarrow> nat) \<Rightarrow> cfg_backend \<Rightarrow> cfg_backend \<Rightarrow> string list" where
  "backend_changes low cb nb =
     concat (map (\<lambda>(field, differs). if differs then [field] else [])
       [(''name'', cb_Name cb \<noteq> cb_Name nb),
        (''endpoint'', cb_Endpoint cb \<noteq> cb_Endpoint nb),
        (''flavour'', NormalisedFlavour low cb \<noteq> NormalisedFlavour low nb),
        (''pool'', cb_Pool cb \<noteq> cb_Pool nb),
        (''parentDataset'', cb_ParentDataset cb \<noteq> cb_ParentDataset nb),
        (''reservedBytes'', cb_ReservedBytes cb \<noteq> cb_ReservedBytes nb),
        (''reservedPercent'', cb_ReservedPercent cb \<noteq> cb_ReservedPercent nb),
        (''rateLimit'', cb_RateLimit cb \<noteq> cb_RateLimit nb),
        (''breakerThreshold'', cb_BreakerThreshold cb \<noteq> cb_BreakerThreshold nb),
        (''breakerResetTimeout'', BreakerReset cb \<noteq> BreakerReset nb),
        (''namespaceQuotas'', \<not> NamespaceQuotas_Equal (cb_NamespaceQuotas cb) (cb_NamespaceQuotas nb)),
        (''deleteProtection'', \<not> DeleteProtection_Equal (cb_DeleteProtection cb) (cb_DeleteProtection nb))])"

definition restart_changes :: "(nat \<Rightarrow> nat) \<Rightarrow> config \<Rightarrow> config \<Rightarrow> (string \<times> string) list" where
  "restart_changes low cur nxt =
     (if cf_NodeID cur \<noteq> cf_NodeID nxt then [([], ''nodeID'')] else [])
     @ (if cf_MetricsAddr cur \<noteq> cf_MetricsAddr nxt then [([], ''metricsAddr'')] else [])
     @ (if MetricsPollInterval cur \<noteq> MetricsPollInterval nxt then [([], ''metricsInterval'')] else [])
     @ concat (map (\<lambda>(name, cb). case map_of (cf_Backends nxt) name of
           None \<Rightarrow> [(name, ''(removed)'')]
         | Some nb \<Rightarrow> map (Pair name) (backend_changes low cb nb)) (cf_Backends cur))
     @ concat (map (\<lambda>(name, _). if map_of (cf_Backends cur) name = None then [(name, ''(added)'')] else [])
         (cf_Backends nxt))"

definition CheckReloadable :: "(nat \<Rightarrow> nat) \<Rightarrow> config \<Rightarrow> config \<Rightarrow> go_error + unit" where
  "CheckReloadable low cur nxt =
     (if restart_changes low cur nxt = [] then Inr () else Inl (Wrapped [Sentinel ErrRestartRequired]))"

definition RotatedCredentials :: "config \<Rightarrow> config \<Rightarrow> (string \<times> Credential) list" where
  "RotatedCredentials cur nxt =
     concat (map (\<lambda>(name, nb). case map_of (cf_Backends cur) name of
         None \<Rightarrow> []
       | Some cb \<Rightarrow> if Credentials cb \<noteq> Credentials nb then [(name, Credentials nb)] else []) (cf_Backends nxt))"

text \<open>The state of the reloader is the configuration in force.\<close>

definition Reload ::
  "(nat \<Rightarrow> nat) \<Rightarrow> url_parser \<Rightarrow> config option \<Rightarrow> (config, go_error, (string \<times> Credential) list \<times> config) op" where
  "Reload low url_Parse file cur =
     (case Load low url_Parse file of
        Inl e \<Rightarrow> (Inl (Wrapped [e]), cur)
      | Inr next0 \<Rightarrow>
          let nxt = (if cf_NodeID next0 = [] then next0\<lparr>cf_NodeID := cf_NodeID cur\<rparr> else next0)
          in case CheckReloadable low cur nxt of
               Inl e \<Rightarrow> (Inl (Wrapped [e]), cur)
             | Inr _ \<Rightarrow> (Inr (RotatedCredentials cur nxt, nxt), nxt))"

text \<open>
  What \<^verbatim>\<open>applyRotatedCredentials\<close> (\<^verbatim>\<open>cmd/truenas-csi/hardening.go\<close>) records before it touches a
  connection. A rejected reload records nothing.
\<close>

definition record_rotated :: "go_error + (string \<times> Credential) list \<times> config \<Rightarrow> creds \<Rightarrow> creds" where
  "record_rotated r creds =
     (case r of Inl _ \<Rightarrow> creds | Inr (rotated, _) \<Rightarrow> fold (\<lambda>(name, cred). SetCredential name cred) rotated creds)"

section \<open>What validation guarantees\<close>

lemma ToLower_scale: "ToLower low [] = []"
  by (simp add: ToLower_def ascii_def)

lemma validate_backend_parts:
  assumes "cfg_backend_validate low url_Parse b = Inr ()"
  shows "NormalisedFlavour low b \<in> {FlavourSCALE, FlavourCORE}"
    and "\<exists>scheme host. url_Parse (cb_Endpoint b) = Some (scheme, host) \<and> host \<noteq> []
      \<and> map lower_char scheme = (if NormalisedFlavour low b = FlavourSCALE then ''wss'' else ''https'')"
    and "cb_Pool b \<noteq> []" "cb_ParentDataset b \<noteq> []"
    and "\<not> contains_str ''..'' (cb_ParentDataset b)" "\<not> contains_any [CHR ''/'', CHR 0x5C] (cb_ParentDataset b)"
    and "0 \<le> cb_ReservedBytes b" "0 \<le> cb_ReservedPercent b" "cb_ReservedPercent b \<le> 100"
    and "NamespaceQuotas_validate (cb_NamespaceQuotas b) = Inr ()"
    and "DeleteProtection_validate (cb_DeleteProtection b) = Inr ()"
    and "0 < Grace (cb_DeleteProtection b) \<Longrightarrow> NormalisedFlavour low b = FlavourSCALE"
proof -
  have lit: "map lower_char ''wss'' = ''wss''" "map lower_char ''https'' = ''https''"
    by (simp_all add: lower_char_def)
  note v = assms [unfolded cfg_backend_validate_def Let_def]
  obtain scheme where s: "schemeForFlavour (NormalisedFlavour low b) = Some scheme"
    and e: "validateEndpoint url_Parse (cb_Endpoint b) scheme = Inr ()"
    using v by (auto split: option.splits sum.splits)
  show fl: "NormalisedFlavour low b \<in> {FlavourSCALE, FlavourCORE}"
    using s by (auto simp: schemeForFlavour_def split: if_splits)
  have "scheme = (if NormalisedFlavour low b = FlavourSCALE then ''wss'' else ''https'')"
    using s by (auto simp: schemeForFlavour_def split: if_splits)
  with e lit show "\<exists>scheme host. url_Parse (cb_Endpoint b) = Some (scheme, host) \<and> host \<noteq> []
      \<and> map lower_char scheme = (if NormalisedFlavour low b = FlavourSCALE then ''wss'' else ''https'')"
    by (auto simp: validateEndpoint_def EqualFold_ascii_def split: if_splits option.splits prod.splits)
  note v' = v [unfolded s e option.case sum.case]
  have set: "TrimSpace (cb_Pool b) \<noteq> []" "TrimSpace (cb_ParentDataset b) \<noteq> []"
    using v' by (auto split: if_splits)
  then show "cb_Pool b \<noteq> []" "cb_ParentDataset b \<noteq> []" by force+
  show "\<not> contains_str ''..'' (cb_ParentDataset b)" "\<not> contains_any [CHR ''/'', CHR 0x5C] (cb_ParentDataset b)"
    "0 \<le> cb_ReservedBytes b" "0 \<le> cb_ReservedPercent b" "cb_ReservedPercent b \<le> 100"
    "NamespaceQuotas_validate (cb_NamespaceQuotas b) = Inr ()"
    "DeleteProtection_validate (cb_DeleteProtection b) = Inr ()"
    using v' by (auto split: if_splits sum.splits)
  show "NormalisedFlavour low b = FlavourSCALE" if "0 < Grace (cb_DeleteProtection b)"
    using v' that fl by (auto split: if_splits sum.splits)
qed

lemma validate_protection:
  assumes "DeleteProtection_validate d = Inr ()"
  shows "0 < Grace d \<longleftrightarrow> dp_Enabled d" and "validGraveyardName (dp_GraveyardDataset d) = Inr ()"
  using assms by (auto simp: DeleteProtection_validate_def Grace_def split: if_splits sum.splits)

lemma small_runes_ascii: "list_all (\<lambda>r. r < 128) (runes s) \<Longrightarrow> ascii s"
proof (induction s rule: rune_chunks.induct)
  case (1 s)
  show ?case
  proof (cases s)
    case Nil
    then show ?thesis by (simp add: ascii_def)
  next
    case (Cons c t)
    obtain r w where rw: "decode_rune (map of_char s) = (r, w)" by fastforce
    have ne: "s \<noteq> []" using Cons by simp
    have lr: "r < 128" "list_all (\<lambda>r. r < 128) (runes (drop (max 1 w) s))"
      using "1.prems" ne rw by (subst (asm) runes_def, subst (asm) rune_chunks.simps, simp add: Let_def runes_def)+
    then have w: "of_char c = r" "w = 1"
      using decode_rune_ascii [of "of_char c" "map of_char t" r w] rw Cons by auto
    have "ascii (drop (max 1 w) s)" using "1.IH" [OF ne rw [symmetric] refl] lr(2) by blast
    with w lr(1) Cons show ?thesis by (simp add: ascii_def)
  qed
qed

lemma validGraveyardName_comp:
  assumes "validGraveyardName (dp_GraveyardDataset d) = Inr ()"
  shows "valid_comp (Graveyard d)"
proof (cases "dp_GraveyardDataset d = []")
  case True
  then show ?thesis by (simp add: Graveyard_def DefaultGraveyardDataset_def valid_comp_def)
next
  case False
  let ?n = "dp_GraveyardDataset d"
  have g: "list_all graveyard_rune (runes ?n)" "?n \<noteq> ''.''" "?n \<noteq> ''..''"
    using assms False by (auto simp: validGraveyardName_def split: if_splits)
  have "list_all (\<lambda>r. r < 128) (runes ?n)"
    using g(1) by (rule list.pred_mono_strong) (auto simp: graveyard_rune_def)
  then have a: "ascii ?n" by (rule small_runes_ascii)
  then have c: "\<forall>c \<in> set ?n. graveyard_rune (of_char c)"
    using g(1) by (simp add: list_all_iff)
  have "\<not> is_space_rune r" if "graveyard_rune r" for r
    using that by (auto simp: graveyard_rune_def is_space_rune_def)
  then have "TrimSpace ?n = ?n" using c by (intro TrimSpace_id [OF a]) (simp add: list_all_iff)
  moreover have "\<not> graveyard_rune (of_char (CHR ''/''))" "\<not> graveyard_rune (of_char (CHR 0x5C))"
    by (simp_all add: graveyard_rune_def)
  ultimately show ?thesis using False g(2,3) c by (auto simp: Graveyard_def valid_comp_def)
qed


definition sample_cfg :: cfg_backend where
  "sample_cfg =
     \<lparr>cb_Name = ''nas'', cb_Endpoint = ''wss://nas/api/current'', cb_Username = ''csi'', cb_APIKey = ''1-key'',
      cb_Pool = ''tank'', cb_ParentDataset = ''k8s'', cb_ReservedBytes = 0, cb_ReservedPercent = 10, cb_Flavour = [],
      cb_RateLimit = 0, cb_BreakerThreshold = 0, cb_BreakerResetTimeout = [],
      cb_NamespaceQuotas = \<lparr>nq_Enabled = True, nq_DefaultBytes = 0, nq_PerNamespace = [(''team-a'', 1099511627776)]\<rparr>,
      cb_DeleteProtection = \<lparr>dp_Enabled = True, dp_GracePeriod = ''168h'', dp_GraveyardDataset = [], dp_ReapInterval = []\<rparr>,
      cb_CACert = [], cb_InsecureSkipVerify = False\<rparr>"

definition sample_url :: url_parser where
  "sample_url endpoint = (if endpoint = ''wss://nas/api/current'' then Some (''wss'', ''nas'') else None)"


section \<open>What a reload keeps\<close>

definition wf_config :: "config \<Rightarrow> bool" where
  "wf_config c \<longleftrightarrow> distinct (map fst (cf_Backends c))
     \<and> (\<forall>(_, b) \<in> set (cf_Backends c). distinct (map fst (nq_PerNamespace (cb_NamespaceQuotas b))))"

text \<open>The driver over time: each change of the file is a reload, and its credentials are recorded.\<close>

inductive reload_run :: "(nat \<Rightarrow> nat) \<Rightarrow> url_parser \<Rightarrow> config \<Rightarrow> config \<times> creds \<Rightarrow> bool" for low url_Parse c0 where
  start: "reload_run low url_Parse c0 (c0, Map.empty)"
| reload: "reload_run low url_Parse c0 (c, creds) \<Longrightarrow> (\<And>f. loaded = Some f \<Longrightarrow> wf_config f) \<Longrightarrow>
    Reload low url_Parse loaded c = (r, c') \<Longrightarrow> reload_run low url_Parse c0 (c', record_rotated r creds)"

definition same_identity :: "(nat \<Rightarrow> nat) \<Rightarrow> cfg_backend \<Rightarrow> cfg_backend \<Rightarrow> bool" where
  "same_identity low b b' \<longleftrightarrow>
     cb_Name b' = cb_Name b \<and> cb_Endpoint b' = cb_Endpoint b \<and> NormalisedFlavour low b' = NormalisedFlavour low b
     \<and> PolicyFor b' = PolicyFor b \<and> cb_ReservedBytes b' = cb_ReservedBytes b
     \<and> cb_ReservedPercent b' = cb_ReservedPercent b
     \<and> nq_Enabled (cb_NamespaceQuotas b') = nq_Enabled (cb_NamespaceQuotas b)
     \<and> QuotaFor (cb_NamespaceQuotas b') = QuotaFor (cb_NamespaceQuotas b)"

lemma same_identity_trans: "same_identity low a b \<Longrightarrow> same_identity low b c \<Longrightarrow> same_identity low a c"
  by (simp add: same_identity_def)

lemma quotas_equal:
  assumes "NamespaceQuotas_Equal q q'" "distinct (map fst (nq_PerNamespace q))" "distinct (map fst (nq_PerNamespace q'))"
  shows "QuotaFor q' = QuotaFor q"
proof -
  let ?m = "nq_PerNamespace q" and ?m' = "nq_PerNamespace q'"
  have sub: "set ?m \<subseteq> set ?m'"
    using assms(1) by (auto simp: NamespaceQuotas_Equal_def list_all_iff dest: map_of_SomeD)
  have card: "card (set ?m) = card (set ?m')"
    using assms distinct_card [of ?m] distinct_card [of ?m']
    by (simp add: NamespaceQuotas_Equal_def distinct_map)
  have "set ?m = set ?m'" by (rule card_subset_eq [OF _ sub card]) simp
  then have "map_of ?m = map_of ?m'" using assms(2,3) by (simp add: map_of_inject_set)
  moreover have "nq_DefaultBytes q = nq_DefaultBytes q'" using assms(1) by (simp add: NamespaceQuotas_Equal_def)
  ultimately show ?thesis by (auto simp: QuotaFor_def fun_eq_iff split: option.split)
qed

lemma no_backend_changes:
  assumes "backend_changes low b b' = []"
    and "distinct (map fst (nq_PerNamespace (cb_NamespaceQuotas b)))" "distinct (map fst (nq_PerNamespace (cb_NamespaceQuotas b')))"
  shows "same_identity low b b'"
proof -
  have "NamespaceQuotas_Equal (cb_NamespaceQuotas b) (cb_NamespaceQuotas b')"
    using assms(1) by (simp add: backend_changes_def split: if_splits)
  with assms show ?thesis
    using quotas_equal [of "cb_NamespaceQuotas b" "cb_NamespaceQuotas b'"]
    by (auto simp: backend_changes_def same_identity_def PolicyFor_def DeleteProtection_Equal_def
        NamespaceQuotas_Equal_def split: if_splits)
qed

lemma CheckReloadable_keeps:
  assumes "CheckReloadable low cur nxt = Inr ()" "wf_config cur" "wf_config nxt"
  shows "dom (map_of (cf_Backends nxt)) = dom (map_of (cf_Backends cur))"
    and "map_of (cf_Backends cur) n = Some b \<Longrightarrow> map_of (cf_Backends nxt) n = Some b' \<Longrightarrow> same_identity low b b'"
proof -
  have none: "restart_changes low cur nxt = []"
    using assms(1) by (simp add: CheckReloadable_def split: if_splits)
  have kept: "\<forall>(n, b) \<in> set (cf_Backends cur). \<exists>b'. map_of (cf_Backends nxt) n = Some b' \<and> backend_changes low b b' = []"
    using none by (auto simp: restart_changes_def split: option.splits)
  have old: "\<forall>(n, b) \<in> set (cf_Backends nxt). map_of (cf_Backends cur) n \<noteq> None"
    using none by (force simp: restart_changes_def split: if_splits)
  show "dom (map_of (cf_Backends nxt)) = dom (map_of (cf_Backends cur))"
    using kept old by (fastforce dest: map_of_SomeD)
  assume b: "map_of (cf_Backends cur) n = Some b" "map_of (cf_Backends nxt) n = Some b'"
  then have "backend_changes low b b' = []" using kept by (fastforce dest: map_of_SomeD)
  moreover have "distinct (map fst (nq_PerNamespace (cb_NamespaceQuotas b)))"
    "distinct (map fst (nq_PerNamespace (cb_NamespaceQuotas b')))"
    using assms(2,3) b by (auto simp: wf_config_def dest!: map_of_SomeD)
  ultimately show "same_identity low b b'" by (rule no_backend_changes)
qed

lemma Load_ok:
  assumes "Load low url_Parse file = Inr c" "\<And>f. file = Some f \<Longrightarrow> wf_config f"
  shows "wf_config c" "Validate low url_Parse c = Inr ()"
proof -
  obtain f where f: "file = Some f" using assms(1) by (auto simp: Load_def split: option.splits)
  have b: "cf_Backends c = map name_backend (cf_Backends f)" and "Validate low url_Parse c = Inr ()"
    using assms(1) f by (auto simp: Load_def Let_def split: if_splits sum.splits)
  then show "Validate low url_Parse c = Inr ()" by simp
  have "map fst (cf_Backends c) = map fst (cf_Backends f)"
    by (auto simp: b name_backend_def)
  moreover have "distinct (map fst (nq_PerNamespace (cb_NamespaceQuotas b)))" if "(n, b) \<in> set (cf_Backends c)" for n b
    using that assms(2) [OF f] by (auto simp: wf_config_def b name_backend_def split: if_splits)
  ultimately show "wf_config c" using assms(2) [OF f] by (auto simp: wf_config_def)
qed

lemma map_of_concat_pairs:
  assumes "distinct (map fst xs)"
  shows "map_of (concat (map (\<lambda>(k, v). case f k v of None \<Rightarrow> [] | Some w \<Rightarrow> [(k, w)]) xs)) k =
    (case map_of xs k of None \<Rightarrow> None | Some v \<Rightarrow> f k v)"
    and "distinct (map fst (concat (map (\<lambda>(k, v). case f k v of None \<Rightarrow> [] | Some w \<Rightarrow> [(k, w)]) xs)))"
proof -
  let ?g = "\<lambda>xs. concat (map (\<lambda>(k, v). case f k v of None \<Rightarrow> [] | Some w \<Rightarrow> [(k, w)]) xs)"
  have sub: "fst ` set (?g xs) \<subseteq> fst ` set xs" for xs by (auto split: option.splits intro: rev_image_eqI)
  show "map_of (?g xs) k = (case map_of xs k of None \<Rightarrow> None | Some v \<Rightarrow> f k v)"
    using assms
  proof (induction xs)
    case (Cons x xs)
    obtain a v where "x = (a, v)" by fastforce
    have "a \<notin> fst ` set xs" using Cons.prems \<open>x = (a, v)\<close> by simp
    with sub [of xs] have "a \<notin> fst ` set (?g xs)" by blast
    then have "map_of (?g xs) a = None" by (rule iffD2 [OF map_of_eq_None_iff])
    with \<open>x = (a, v)\<close> Cons show ?case by (cases "a = k") (auto split: option.splits)
  qed simp
  show "distinct (map fst (?g xs))"
    using assms
  proof (induction xs)
    case (Cons x xs)
    obtain a v where "x = (a, v)" by fastforce
    then have "a \<notin> fst ` set xs" using Cons.prems by simp
    with sub [of xs] have "a \<notin> fst ` set (?g xs)" by blast
    with \<open>x = (a, v)\<close> Cons show ?case by (cases "f a v") (simp_all del: set_concat)
  qed simp
qed

lemma RotatedCredentials_exact:
  assumes "wf_config nxt"
  shows "map_of (RotatedCredentials cur nxt) n =
    (case (map_of (cf_Backends cur) n, map_of (cf_Backends nxt) n) of
       (Some b, Some b') \<Rightarrow> if Credentials b \<noteq> Credentials b' then Some (Credentials b') else None
     | _ \<Rightarrow> None)"
    and "distinct (map fst (RotatedCredentials cur nxt))"
proof -
  let ?f = "\<lambda>name nb. case map_of (cf_Backends cur) name of
      None \<Rightarrow> None | Some cb \<Rightarrow> if Credentials cb \<noteq> Credentials nb then Some (Credentials nb) else None"
  have r: "RotatedCredentials cur nxt =
      concat (map (\<lambda>(k, v). case ?f k v of None \<Rightarrow> [] | Some w \<Rightarrow> [(k, w)]) (cf_Backends nxt))"
    unfolding RotatedCredentials_def
    by (intro arg_cong [where f = concat] map_cong refl) (auto split: option.split)
  have d: "distinct (map fst (cf_Backends nxt))" using assms by (simp add: wf_config_def)
  show "distinct (map fst (RotatedCredentials cur nxt))" unfolding r by (rule map_of_concat_pairs(2) [OF d])
  show "map_of (RotatedCredentials cur nxt) n =
    (case (map_of (cf_Backends cur) n, map_of (cf_Backends nxt) n) of
       (Some b, Some b') \<Rightarrow> if Credentials b \<noteq> Credentials b' then Some (Credentials b') else None
     | _ \<Rightarrow> None)"
    unfolding r map_of_concat_pairs(1) [OF d] by (auto split: option.split)
qed

lemma fold_SetCredential:
  "distinct (map fst rs) \<Longrightarrow>
     fold (\<lambda>(name, cred). SetCredential name cred) rs creds n = (case map_of rs n of Some c \<Rightarrow> Some c | None \<Rightarrow> creds n)"
proof (induction rs arbitrary: creds)
  case (Cons r rs)
  obtain a c where r: "r = (a, c)" by fastforce
  with Cons.prems have "map_of rs a = None" by (simp add: map_of_eq_None_iff)
  with Cons r show ?case by (cases "a = n") (auto simp: SetCredential_def split: option.splits)
qed simp

definition reload_invariant :: "(nat \<Rightarrow> nat) \<Rightarrow> url_parser \<Rightarrow> config \<Rightarrow> config \<times> creds \<Rightarrow> bool" where
  "reload_invariant low url_Parse c0 = (\<lambda>(c, creds).
     wf_config c \<and> (c = c0 \<or> Validate low url_Parse c = Inr ())
     \<and> dom (map_of (cf_Backends c)) = dom (map_of (cf_Backends c0))
     \<and> (\<forall>n b b'. map_of (cf_Backends c0) n = Some b \<and> map_of (cf_Backends c) n = Some b' \<longrightarrow>
          same_identity low b b' \<and> (case creds n of None \<Rightarrow> Credentials b' = Credentials b | Some k \<Rightarrow> k = Credentials b')))"

lemma reload_run_invariant:
  assumes "reload_run low url_Parse c0 cs" "wf_config c0"
  shows "reload_invariant low url_Parse c0 cs"
  using assms(1)
proof (induction rule: reload_run.induct)
  case start
  then show ?case using assms(2) by (auto simp: reload_invariant_def same_identity_def)
next
  case (reload c creds fl r c')
  show ?case
  proof (cases "r")
    case (Inl e)
    then have "c' = c" using reload(3) by (auto simp: Reload_def Let_def split: sum.splits)
    with Inl reload(4) show ?thesis by (simp add: record_rotated_def)
  next
    case (Inr x)
    obtain next0 where l: "Load low url_Parse fl = Inr next0"
      using reload(3) Inr by (auto simp: Reload_def split: sum.splits)
    have c': "cf_Backends c' = cf_Backends next0" "x = (RotatedCredentials c c', c')" "CheckReloadable low c c' = Inr ()"
      using reload(3) Inr l by (auto simp: Reload_def Let_def split: sum.splits if_splits)
    have ok: "wf_config c'" "Validate low url_Parse c' = Inr ()"
      using Load_ok [OF l reload(2)] c'(1) unfolding wf_config_def Validate_def by (simp_all split: if_splits)
    have wf: "wf_config c" using reload(4) by (simp add: reload_invariant_def)
    note keep = CheckReloadable_keeps [OF c'(3) wf ok(1)]
    have cr: "record_rotated r creds n = (case map_of (RotatedCredentials c c') n of Some k \<Rightarrow> Some k | None \<Rightarrow> creds n)" for n
      using fold_SetCredential [OF RotatedCredentials_exact(2) [OF ok(1)]] by (simp add: record_rotated_def Inr c'(2))
    have "same_identity low b b'' \<and> (case record_rotated r creds n of
          None \<Rightarrow> Credentials b'' = Credentials b | Some k \<Rightarrow> k = Credentials b'')"
      if b: "map_of (cf_Backends c0) n = Some b" "map_of (cf_Backends c') n = Some b''" for n b b''
    proof -
      obtain b' where b': "map_of (cf_Backends c) n = Some b'" using keep(1) b(2) by blast
      have 1: "same_identity low b b'" "case creds n of None \<Rightarrow> Credentials b' = Credentials b | Some k \<Rightarrow> k = Credentials b'"
        using reload(4) b(1) b' by (auto simp: reload_invariant_def)
      show ?thesis
        using same_identity_trans [OF 1(1) keep(2) [OF b' b(2)]] 1(2)
        by (auto simp: cr RotatedCredentials_exact(1) [OF ok(1)] b' b(2) split: option.splits if_splits)
    qed
    moreover have "dom (map_of (cf_Backends c')) = dom (map_of (cf_Backends c0))"
      using keep(1) reload(4) by (simp add: reload_invariant_def)
    ultimately show ?thesis using ok by (auto simp: reload_invariant_def)
  qed
qed


definition sample_config :: "cfg_backend \<Rightarrow> config" where
  "sample_config b =
     \<lparr>cf_Backends = [(''nas'', b)], cf_NodeID = [], cf_LogLevel = ''info'', cf_MetricsAddr = '':9090'', cf_MetricsInterval = []\<rparr>"

definition rotate_key :: "cfg_backend \<Rightarrow> cfg_backend" where
  "rotate_key b = b\<lparr>cb_APIKey := ''2-key''\<rparr>"

lemma sample_reload:
  assumes "Load id sample_url (Some (sample_config (rotate_key b))) = Inr (sample_config (rotate_key b))"
    and "CheckReloadable id (sample_config b) (sample_config (rotate_key b)) = Inr ()"
    and "wf_config (sample_config (rotate_key b))"
  shows "reload_run id sample_url (sample_config b)
    (sample_config (rotate_key b), record_rotated (Inr (RotatedCredentials (sample_config b) (sample_config (rotate_key b)),
       sample_config (rotate_key b))) Map.empty)"
  by (rule reload_run.reload [OF reload_run.start, where loaded = "Some (sample_config (rotate_key b))"])
    (use assms in \<open>auto simp: Reload_def sample_config_def Let_def\<close>)


text \<open>
  The condition on the name is needed. The store is written under the key of the entry and read
  under the name inside it, so an appliance whose entry carries another name keeps dialling with
  the key it had at the start.
\<close>

lemma misnamed_backend_keeps_old_key:
  "\<exists>creds. reload_run id sample_url (sample_config (sample_cfg\<lparr>cb_Name := ''filer''\<rparr>))
       (sample_config (rotate_key (sample_cfg\<lparr>cb_Name := ''filer''\<rparr>)), creds)
     \<and> cr_APIKey (Credentials (Current creds (sample_cfg\<lparr>cb_Name := ''filer''\<rparr>))) = ''1-key''"
proof -
  let ?b = "sample_cfg\<lparr>cb_Name := ''filer''\<rparr>"
  let ?creds = "record_rotated (Inr (RotatedCredentials (sample_config ?b) (sample_config (rotate_key ?b)),
       sample_config (rotate_key ?b))) Map.empty"
  have wf: "wf_config (sample_config (rotate_key ?b))"
    by (simp add: wf_config_def sample_config_def rotate_key_def sample_cfg_def)
  have "cfg_backend_validate id sample_url (rotate_key ?b) = Inr ()" by code_simp
  then have load: "Load id sample_url (Some (sample_config (rotate_key ?b))) = Inr (sample_config (rotate_key ?b))"
    by (simp add: Load_def Validate_def sample_config_def name_backend_def rotate_key_def sample_cfg_def)
  have chk: "CheckReloadable id (sample_config ?b) (sample_config (rotate_key ?b)) = Inr ()" by code_simp
  have run: "reload_run id sample_url (sample_config ?b) (sample_config (rotate_key ?b), ?creds)"
    by (rule sample_reload [OF load chk wf])
  have "cr_APIKey (Credentials (Current ?creds ?b)) = ''1-key''"
    by (simp add: record_rotated_def RotatedCredentials_def sample_config_def rotate_key_def Credentials_def
        SetCredential_def Current_def) (simp add: sample_cfg_def)
  with run show ?thesis by blast
qed

text \<open>A padded timeout passes validation, which trims it, and is then not read.\<close>

lemma padded_reset_timeout_ignored:
  "cfg_backend_validate id sample_url (sample_cfg\<lparr>cb_BreakerResetTimeout := '' 10s''\<rparr>) = Inr ()
   \<and> BreakerReset (sample_cfg\<lparr>cb_BreakerResetTimeout := '' 10s''\<rparr>) = 0"
  by code_simp

text \<open>
  The rule for the keys of the quota table is the rule for the namespaces met at run time, so
  a key that passes validation can match and one that could match passes.
\<close>

lemma validNamespaceKey_agrees:
  "validNamespaceKey ns = Inr () \<longleftrightarrow> ValidateNamespace ns = Inr ()"
  by (simp add: validNamespaceKey_def ValidateNamespace_def maxNamespaceKey_def)

end
