(* ===== verification/Registry.thy ===== *)
theory Registry
  imports Config TrueNAS
begin

text \<open>
  \<^verbatim>\<open>internal/backend/registry.go\<close>: one connection per configured appliance, dialled on first use. The
  dial is a parameter, and the state is the world it acts on with the connections made so far.
\<close>

definition reg_Backend :: "config \<Rightarrow> string \<Rightarrow> go_error + cfg_backend" where
  "reg_Backend cfg name =
     (case map_of (cf_Backends cfg) name of
        None \<Rightarrow> Inl (Wrapped [Sentinel ErrUnknownBackend])
      | Some b \<Rightarrow> Inr b)"

definition Names :: "config \<Rightarrow> string list" where
  "Names cfg = map fst (cf_Backends cfg)"

type_synonym 'c connections = "string \<rightharpoonup> 'c"

definition Client ::
  "(cfg_backend \<Rightarrow> ('w, go_error, 'c) op) \<Rightarrow> config \<Rightarrow> string \<Rightarrow> ('w \<times> 'c connections, go_error, 'c) op" where
  "Client dial cfg name = (\<lambda>(w, clients).
     case reg_Backend cfg name of
       Inl e \<Rightarrow> (Inl e, (w, clients))
     | Inr b \<Rightarrow>
         (case clients name of
            Some c \<Rightarrow> (Inr c, (w, clients))
          | None \<Rightarrow>
              (case dial b w of
                 (Inl e, w') \<Rightarrow> (Inl (Wrapped [e]), (w', clients))
               | (Inr c, w') \<Rightarrow> (Inr c, (w', clients(name \<mapsto> c))))))"

record options =
  opt_Pool :: string
  opt_Parent :: string
  opt_Retention :: policy

definition Options :: "cfg_backend \<Rightarrow> options" where
  "Options b = \<lparr>opt_Pool = cb_Pool b, opt_Parent = cb_ParentDataset b, opt_Retention = PolicyFor b\<rparr>"

text \<open>A protocol's factory makes a backend of a client and the options; none is kept.\<close>

definition For ::
  "(string \<rightharpoonup> ('c \<Rightarrow> options \<Rightarrow> 'b)) \<Rightarrow> (cfg_backend \<Rightarrow> ('w, go_error, 'c) op) \<Rightarrow> config \<Rightarrow> string \<Rightarrow> string
     \<Rightarrow> ('w \<times> 'c connections, go_error, 'b) op" where
  "For factoryFor dial cfg name protocol =
     bindE (liftE (reg_Backend cfg name)) (\<lambda>b.
     case factoryFor protocol of
       None \<Rightarrow> failE (Wrapped [Sentinel ErrUnsupportedProtocol])
     | Some f \<Rightarrow> bindE (Client dial cfg name) (\<lambda>c. retE (f c (Options b))))"

fun retention_targets ::
  "(cfg_backend \<Rightarrow> ('w, go_error, 'c) op) \<Rightarrow> config \<Rightarrow> string list
     \<Rightarrow> ('w \<times> 'c connections, go_error, (string \<times> 'c \<times> policy) list) op" where
  "retention_targets dial cfg [] = retE []"
| "retention_targets dial cfg (name # names) =
     (case reg_Backend cfg name of
        Inl _ \<Rightarrow> retention_targets dial cfg names
      | Inr b \<Rightarrow>
          if \<not> On (PolicyFor b) then retention_targets dial cfg names
          else tryE (Client dial cfg name) (\<lambda>r.
               case r of
                 Inl _ \<Rightarrow> retention_targets dial cfg names
               | Inr c \<Rightarrow> bindE (retention_targets dial cfg names) (\<lambda>ts. retE ((name, c, PolicyFor b) # ts))))"

definition RetentionTargets ::
  "(cfg_backend \<Rightarrow> ('w, go_error, 'c) op) \<Rightarrow> config \<Rightarrow> ('w \<times> 'c connections, go_error, (string \<times> 'c \<times> policy) list) op" where
  "RetentionTargets dial cfg = retention_targets dial cfg (sort_strings (Names cfg))"

definition Close :: "'c connections \<Rightarrow> 'c connections" where
  "Close clients = Map.empty"

text \<open>A connection made is used again without another dial, and touches no other appliance.\<close>

lemma Client_again:
  assumes "Client dial cfg name s = (Inr c, s')"
  shows "Client dial cfg name s' = (Inr c, s')" "\<And>m. m \<noteq> name \<Longrightarrow> snd s' m = snd s m"
  using assms by (auto simp: Client_def split: prod.splits sum.splits option.splits)

lemma Client_failed: "Client dial cfg name s = (Inl e, s') \<Longrightarrow> snd s' = snd s"
  by (auto simp: Client_def split: prod.splits sum.splits option.splits)

text \<open>
  Every target of the reaper is a configured appliance with its protection on, and its client is
  the one the registry holds.
\<close>

lemma retention_targets_ok:
  assumes "retention_targets dial cfg names s = (Inr ts, s')"
  shows "\<forall>(name, c, p) \<in> set ts. name \<in> set names \<and> (\<exists>b. map_of (cf_Backends cfg) name = Some b \<and> p = PolicyFor b \<and> On p)"
  using assms
proof (induction names arbitrary: s ts s')
  case (Cons n ns)
  note IH = Cons.IH
  from Cons.prems show ?case
    by (fastforce simp: reg_Backend_def tryE_def bindE_def retE_def
        split: option.splits if_splits prod.splits sum.splits dest: IH)
qed (simp add: retE_def)

section \<open>The registry as its clients see it\<close>

record 's registry =
  reg_Config :: config
  reg_Client :: "string \<Rightarrow> ('s, go_error, 's transport) op"

end
