(* ===== verification/Grants.thy ===== *)
theory Grants
  imports VolumeID Json
begin

text \<open>
  \<^verbatim>\<open>internal/volume/publish.go\<close>: the publish ledger kept in a ZFS user property, which records
  the nodes that hold access to a volume and what each was granted, and the SMB mount options
  kept beside it.
\<close>

definition PublishedProperty :: string where "PublishedProperty = ''io.truenas.csi:published''"
definition LUNProperty :: string where "LUNProperty = ''io.truenas.csi:lun''"
definition NVMePortProperty :: string where "NVMePortProperty = ''io.truenas.csi:nvmeport''"
definition NetworksProperty :: string where "NetworksProperty = ''io.truenas.csi:networks''"
definition NFSVersionProperty :: string where "NFSVersionProperty = ''io.truenas.csi:nfsversion''"
definition SMBMountProperty :: string where "SMBMountProperty = ''io.truenas.csi:smbmount''"
definition FSTypeProperty :: string where "FSTypeProperty = ''io.truenas.csi:fstype''"

definition maxGrantsBytes :: nat where "maxGrantsBytes = 1024"

text \<open>
  A Go slice of strings, with \<open>None\<close> the nil slice, which \<^verbatim>\<open>json.Marshal\<close> writes as \<^verbatim>\<open>null\<close>.
  A ledger is a Go map: an association list with at most one entry per node.
\<close>

type_synonym slice = "string list option"
type_synonym grants = "(string \<times> slice) list"

definition elems :: "slice \<Rightarrow> string list" where
  "elems s = (case s of None \<Rightarrow> [] | Some xs \<Rightarrow> xs)"

definition grants_lookup :: "grants \<Rightarrow> string \<Rightarrow> slice" where
  "grants_lookup g k = (case map_of g k of Some v \<Rightarrow> v | None \<Rightarrow> None)"

section \<open>Decoding\<close>

definition decode_elem :: "json \<Rightarrow> string option" where
  "decode_elem j = (case j of JStr s \<Rightarrow> Some s | JNull \<Rightarrow> Some [] | _ \<Rightarrow> None)"

fun decode_elems :: "json list \<Rightarrow> string list option" where
  "decode_elems [] = Some []"
| "decode_elems (j # js) =
     (case (decode_elem j, decode_elems js) of (Some s, Some ss) \<Rightarrow> Some (s # ss) | _ \<Rightarrow> None)"

text \<open>The outer option is a type error; the inner one is the nil slice.\<close>

definition decode_slice :: "json \<Rightarrow> slice option" where
  "decode_slice j =
     (case j of
        JNull \<Rightarrow> Some None
      | JArr js \<Rightarrow> map_option Some (decode_elems js)
      | _ \<Rightarrow> None)"

fun decode_entries :: "(string \<times> json) list \<Rightarrow> grants \<Rightarrow> grants option" where
  "decode_entries [] g = Some g"
| "decode_entries ((k, j) # kvs) g =
     (case decode_slice j of None \<Rightarrow> None | Some v \<Rightarrow> decode_entries kvs (put k v g))"

definition DecodeGrants :: "string \<Rightarrow> go_error + grants" where
  "DecodeGrants s =
     (if s = [] then Inr []
      else case json_parse s of
             Some JNull \<Rightarrow> Inr []
           | Some (JObj kvs) \<Rightarrow>
               (case decode_entries kvs [] of
                  Some g \<Rightarrow> Inr g
                | None \<Rightarrow> Inl (Wrapped [Plain ''json: cannot unmarshal'']))
           | Some _ \<Rightarrow> Inl (Wrapped [Plain ''json: cannot unmarshal''])
           | None \<Rightarrow> Inl (Wrapped [Plain ''json: syntax error'']))"

section \<open>Encoding and reading\<close>

definition slice_json :: "slice \<Rightarrow> json" where
  "slice_json s = (case s of None \<Rightarrow> JNull | Some xs \<Rightarrow> JArr (map JStr xs))"

text \<open>\<^verbatim>\<open>json.Marshal\<close> writes the members of a map sorted by key.\<close>

definition grants_json :: "grants \<Rightarrow> json" where
  "grants_json g = JObj (map (\<lambda>k. (k, slice_json (grants_lookup g k))) (sort_strings (map fst g)))"

definition Encode :: "grants \<Rightarrow> go_error + string" where
  "Encode g =
     (if length g = 0 then Inr ''{}''
      else let b = json_text (grants_json g)
           in if length b > maxGrantsBytes then Inl (Wrapped [Sentinel ErrGrantsTooLarge]) else Inr b)"

definition Nodes :: "grants \<Rightarrow> string list" where
  "Nodes g = sort_strings (map fst g)"

definition Others :: "grants \<Rightarrow> string \<Rightarrow> string list" where
  "Others g nodeID = sort_strings (filter (\<lambda>i. i \<noteq> nodeID) (map fst g))"

section \<open>SMB mount options\<close>

record SMBMount =
  smb_UID :: int
  smb_GID :: int
  smb_FileMode :: string
  smb_DirMode :: string

definition EncodeSMBMount :: "SMBMount \<Rightarrow> string" where
  "EncodeSMBMount m = json_text (JObj
     [(''uid'', JInt (smb_UID m)), (''gid'', JInt (smb_GID m)),
      (''fileMode'', JStr (smb_FileMode m)), (''dirMode'', JStr (smb_DirMode m))])"

definition SMBMount_zero :: SMBMount where
  "SMBMount_zero = \<lparr>smb_UID = 0, smb_GID = 0, smb_FileMode = [], smb_DirMode = []\<rparr>"

definition DecodeSMBMount :: "string \<Rightarrow> go_error + SMBMount \<times> bool" where
  "DecodeSMBMount s =
     (if TrimSpace s = [] then Inr (SMBMount_zero, False)
      else case json_parse s of
             Some JNull \<Rightarrow> Inr (SMBMount_zero, True)
           | Some (JObj kvs) \<Rightarrow>
               (case (int_field ''uid'' kvs, int_field ''gid'' kvs,
                      string_field ''fileMode'' kvs, string_field ''dirMode'' kvs) of
                  (Some u, Some g, Some f, Some d) \<Rightarrow>
                    Inr (\<lparr>smb_UID = u, smb_GID = g, smb_FileMode = f, smb_DirMode = d\<rparr>, True)
                | _ \<Rightarrow> Inl (Wrapped [Plain ''json: cannot unmarshal'']))
           | _ \<Rightarrow> Inl (Wrapped [Plain ''json: cannot decode'']))"

section \<open>The ledger reads back\<close>

lemma decode_elems_JStr [simp]: "decode_elems (map JStr xs) = Some xs"
  by (induction xs) (simp_all add: decode_elem_def)

lemma decode_slice_json [simp]: "decode_slice (slice_json s) = Some s"
  by (cases s) (simp_all add: slice_json_def decode_slice_def)

lemma decode_entries_json:
  "\<exists>g'. decode_entries (map (\<lambda>k. (k, slice_json (f k))) ks) g = Some g'
     \<and> map_of g' = (\<lambda>k. if k \<in> set ks then Some (f k) else map_of g k)
     \<and> (distinct (map fst g) \<longrightarrow> distinct (map fst g'))"
proof (induction ks arbitrary: g)
  case (Cons k ks)
  from Cons.IH [of "put k (f k) g"] show ?case by (auto simp: fun_eq_iff)
qed simp

definition ascii_grants :: "grants \<Rightarrow> bool" where
  "ascii_grants g \<longleftrightarrow> list_all (\<lambda>(k, v). ascii k \<and> list_all ascii (elems v)) g"

lemma plain_grants_json:
  assumes "ascii_grants g"
  shows "plain_json (grants_json g)"
proof -
  have "plain_json (slice_json (grants_lookup g k))" if "(k, v) \<in> set g" for k v
  proof (cases "map_of g k")
    case None
    then show ?thesis by (simp add: grants_lookup_def slice_json_def)
  next
    case (Some w)
    then have "(k, w) \<in> set g" by (rule map_of_SomeD)
    with assms have "list_all ascii (elems w)" by (auto simp: ascii_grants_def list_all_iff)
    with Some show ?thesis
      by (cases w) (auto simp: grants_lookup_def slice_json_def elems_def list_all_iff)
  qed
  moreover have "ascii k" if "(k, v) \<in> set g" for k v
    using that assms by (auto simp: ascii_grants_def list_all_iff)
  ultimately show ?thesis by (auto simp: grants_json_def list_all_iff)
qed

lemma json_text_JObj_head: "\<exists>t. json_text (JObj kvs) = CHR ''{'' # t"
  by simp

lemma DecodeGrants_json:
  assumes "distinct (map fst g)" "ascii_grants g"
  shows "\<exists>g'. DecodeGrants (json_text (grants_json g)) = Inr g' \<and> map_of g' = map_of g
    \<and> distinct (map fst g')"
proof -
  let ?ks = "sort_strings (map fst g)"
  obtain g' where g': "decode_entries (map (\<lambda>k. (k, slice_json (grants_lookup g k))) ?ks) [] = Some g'"
    "map_of g' = (\<lambda>k. if k \<in> set ?ks then Some (grants_lookup g k) else map_of [] k)"
    "distinct (map fst g')"
    using decode_entries_json [of "grants_lookup g" ?ks "[]"] by auto
  have "map_of g' = map_of g"
  proof
    fix k show "map_of g' k = map_of g k"
      using map_of_eq_None_iff [of g k]
      by (cases "map_of g k") (simp_all add: g'(2) grants_lookup_def)
  qed
  moreover have "json_parse (json_text (grants_json g)) = Some (grants_json g)"
    by (rule json_roundtrip [OF plain_grants_json [OF assms(2)]])
  moreover have "json_text (grants_json g) \<noteq> []" by (simp add: grants_json_def)
  ultimately show ?thesis
    using g'(1,3) by (simp add: DecodeGrants_def) (simp add: grants_json_def)
qed

lemma DecodeGrants_empty: "DecodeGrants ''{}'' = Inr []"
  using json_roundtrip [of "JObj []"] by (simp add: DecodeGrants_def)

lemma Encode_decode:
  assumes "distinct (map fst g)" "ascii_grants g" "Encode g = Inr s"
  shows "\<exists>g'. DecodeGrants s = Inr g' \<and> map_of g' = map_of g \<and> distinct (map fst g')"
proof (cases "g = []")
  case True
  with assms(3) show ?thesis using DecodeGrants_empty by (simp add: Encode_def)
next
  case False
  then show ?thesis
    using DecodeGrants_json [OF assms(1,2)] assms(3)
    by (simp add: Encode_def Let_def split: if_splits)
qed

text \<open>
  C11. The publish ledger survives its journey through a ZFS user property: whatever is written
  fits the 1024 bytes the middleware stores, and reading it back gives the same grants for the
  same nodes (node ids and addresses being ASCII); a ledger that does not fit is refused with
  \<^verbatim>\<open>ErrGrantsTooLarge\<close> and nothing else ever makes the encoder fail.
\<close>

theorem Grants_roundtrip:
  assumes "distinct (map fst g)" "ascii_grants g"
  shows "(\<forall>s. Encode g = Inr s \<longrightarrow> length s \<le> 1024
        \<and> (\<exists>g'. DecodeGrants s = Inr g' \<and> map_of g' = map_of g \<and> distinct (map fst g')))
    \<and> (\<forall>e. Encode g = Inl e \<longrightarrow> errors_Is e ErrGrantsTooLarge
        \<and> length (json_text (grants_json g)) > 1024)"
proof (intro conjI allI impI)
  fix s assume s: "Encode g = Inr s"
  then show "length s \<le> 1024"
    by (auto simp: Encode_def Let_def maxGrantsBytes_def split: if_splits)
  show "\<exists>g'. DecodeGrants s = Inr g' \<and> map_of g' = map_of g \<and> distinct (map fst g')"
    by (rule Encode_decode [OF assms s])
next
  fix e assume "Encode g = Inl e"
  then show "errors_Is e ErrGrantsTooLarge" "length (json_text (grants_json g)) > 1024"
    by (auto simp: Encode_def Let_def maxGrantsBytes_def split: if_splits)
qed

definition sample_grants :: grants where
  "sample_grants = [(''worker-2'', Some [''10.0.0.2'', ''fd7c::2'']), (''worker-1'', None)]"

theorem Grants_roundtrip_witness:
  "\<exists>g'. DecodeGrants (json_text (grants_json sample_grants)) = Inr g'
     \<and> map_of g' = map_of sample_grants"
proof -
  have d: "distinct (map fst sample_grants)" "ascii_grants sample_grants"
    by (simp_all add: sample_grants_def ascii_grants_def ascii_def elems_def)
  have "length (json_text (grants_json sample_grants)) \<le> 1024" by code_simp
  then have "Encode sample_grants = Inr (json_text (grants_json sample_grants))"
    by (simp add: Encode_def Let_def maxGrantsBytes_def sample_grants_def)
  with Grants_roundtrip [OF d] show ?thesis by blast
qed

lemma Nodes_iff: "n \<in> set (Nodes g) \<longleftrightarrow> n \<in> dom (map_of g)"
  by (auto simp: Nodes_def dom_map_of_conv_image_fst)

lemma Others_iff: "n \<in> set (Others g i) \<longleftrightarrow> n \<in> dom (map_of g) \<and> n \<noteq> i"
  by (auto simp: Others_def dom_map_of_conv_image_fst)

lemma Others_empty: "Others g i = [] \<longleftrightarrow> dom (map_of g) \<subseteq> {i}"
  using Others_iff [of _ g i] by (metis (no_types, lifting) empty_iff empty_set insertCI list.set_intros(1)
      neq_Nil_conv singletonD subset_iff)

end
