(* ===== verification/Publisher.thy ===== *)
theory Publisher
  imports Grants Calls
begin

text \<open>
  \<^verbatim>\<open>internal/backend/publisher.go\<close>: the node an access grant is for, and the publish ledger of a
  volume as it is read from and written to the volume's own dataset.
\<close>

record NodeRef =
  nr_ID :: string
  nr_Addrs :: slice
  nr_IQN :: string
  nr_NQN :: string

definition ReadGrants :: "'s transport \<Rightarrow> vol_id \<Rightarrow> ('s, go_error, grants) op" where
  "ReadGrants call i =
     tryE (DatasetQuery call (DatasetPath i)) (\<lambda>r.
       case r of
         Inl e \<Rightarrow> failE (Wrapped [e])
       | Inr None \<Rightarrow> failE (Wrapped [Sentinel ErrVolumeGone])
       | Inr (Some ds) \<Rightarrow> liftE (DecodeGrants (LocalProperty ds PublishedProperty)))"

definition SaveGrants :: "'s transport \<Rightarrow> vol_id \<Rightarrow> grants \<Rightarrow> ('s, go_error, unit) op" where
  "SaveGrants call i g =
     bindE (liftE (Encode g)) (\<lambda>encoded.
     tryE (SetUserProperty call (DatasetPath i) PublishedProperty encoded) (\<lambda>r.
       case r of Inl e \<Rightarrow> failE (Wrapped [e]) | Inr _ \<Rightarrow> retE ()))"

end
