(* ===== verification/Attach.thy ===== *)
theory Attach
  imports Publisher
begin

text \<open>
  Granting and revoking a node's access, \<^verbatim>\<open>internal/csi/controller.go\<close> from
  \<^verbatim>\<open>ControllerPublishVolume\<close> to \<^verbatim>\<open>ValidateVolumeCapabilities\<close>, with the access modes of
  \<^verbatim>\<open>accessmode.go\<close> and the per-volume lock of \<^verbatim>\<open>locks.go\<close>. The registry of appliances, the node
  resolver and the protocol's publisher are fields of the controller; each is a call on the
  state of the world.
\<close>

section \<open>Access modes\<close>

datatype access_mode =
    MODE_UNKNOWN | SINGLE_NODE_WRITER | SINGLE_NODE_READER_ONLY | MULTI_NODE_READER_ONLY
  | MULTI_NODE_SINGLE_WRITER | MULTI_NODE_MULTI_WRITER | SINGLE_NODE_SINGLE_WRITER | SINGLE_NODE_MULTI_WRITER

datatype accessClass = classRawBlock | classSharedFilesystem

definition accessClassOf :: "string \<Rightarrow> accessClass" where
  "accessClassOf protocol =
     (if protocol = ''nfs'' \<or> protocol = ''smb'' then classSharedFilesystem else classRawBlock)"

definition singleNode :: "access_mode \<Rightarrow> bool" where
  "singleNode m \<longleftrightarrow> m \<in> {SINGLE_NODE_WRITER, SINGLE_NODE_READER_ONLY, SINGLE_NODE_SINGLE_WRITER, SINGLE_NODE_MULTI_WRITER}"

definition supportsAccessMode :: "string \<Rightarrow> access_mode \<Rightarrow> bool" where
  "supportsAccessMode protocol m =
     (if accessClassOf protocol = classSharedFilesystem then m \<noteq> MODE_UNKNOWN else singleNode m)"

text \<open>
  A volume capability: the kind of access, with the filesystem named for a mount, and the
  access mode. A capability without an access type reads as a mount with no filesystem named.
\<close>

datatype access_type = NoType | Block | Mount string

record capability =
  cap_Type :: access_type
  cap_Mode :: access_mode

definition cap_FsType :: "capability \<Rightarrow> string" where
  "cap_FsType c = (case cap_Type c of Mount fs \<Rightarrow> fs | _ \<Rightarrow> [])"

datatype node_capability = CapExt4 | CapXFS

definition CapabilityForFS :: "string \<Rightarrow> node_capability option" where
  "CapabilityForFS fs =
     (if fs = ''ext4'' \<or> fs = ''ext3'' \<or> fs = ''ext2'' then Some CapExt4
      else if fs = ''xfs'' then Some CapXFS else None)"

fun requireSupportedCapabilities :: "string \<Rightarrow> capability list \<Rightarrow> go_error + unit" where
  "requireSupportedCapabilities protocol [] = Inr ()"
| "requireSupportedCapabilities protocol (c # cs) =
     (if cap_Type c = Block then
        (if accessClassOf protocol = classSharedFilesystem then Inl (Status InvalidArgument)
         else requireSupportedCapabilities protocol cs)
      else if cap_FsType c = [] then requireSupportedCapabilities protocol cs
      else if CapabilityForFS (cap_FsType c) = None then Inl (Status InvalidArgument)
      else requireSupportedCapabilities protocol cs)"

section \<open>The controller\<close>

record 's publisher =
  pub_Publish :: "vol_id \<Rightarrow> NodeRef \<Rightarrow> ('s, go_error, (string \<times> string) list) op"
  pub_Unpublish :: "vol_id \<Rightarrow> NodeRef \<Rightarrow> ('s, go_error, unit) op"

text \<open>
  What the controller calls: the client of a backend, the node behind an id, and the protocol's
  publisher, which is absent when the backend cannot grant access.
\<close>

record 's controller =
  ctl_Client :: "string \<Rightarrow> ('s, go_error, 's transport) op"
  ctl_Resolve :: "string \<Rightarrow> ('s, go_error, NodeRef) op"
  ctl_For :: "string \<Rightarrow> string \<Rightarrow> ('s, go_error, 's publisher option) op"

definition toStatus :: "go_error \<Rightarrow> go_error" where
  "toStatus e =
     (if status_Code e \<noteq> Unknown then e
      else if errors_Is e ErrShrinkNotAllowed then Status InvalidArgument
      else Status Internal)"

definition on_err :: "(go_error \<Rightarrow> go_error) \<Rightarrow> ('s, go_error, 'a) op \<Rightarrow> ('s, go_error, 'a) op" where
  "on_err f m = tryE m (\<lambda>r. case r of Inl e \<Rightarrow> failE (f e) | Inr x \<Rightarrow> retE x)"

definition requireVolumeExists :: "'s controller \<Rightarrow> vol_id \<Rightarrow> ('s, go_error, unit) op" where
  "requireVolumeExists c i =
     bindE (on_err toStatus (ctl_Client c (id_Backend i))) (\<lambda>cl.
     bindE (on_err toStatus (DatasetQuery cl (DatasetPath i))) (\<lambda>ds.
     case ds of None \<Rightarrow> failE (Status NotFound) | Some _ \<Rightarrow> retE ()))"

definition ctl_publisher :: "'s controller \<Rightarrow> vol_id \<Rightarrow> ('s, go_error, 's publisher) op" where
  "ctl_publisher c i =
     bindE (on_err toStatus (ctl_For c (id_Backend i) (id_Protocol i))) (\<lambda>be.
       case be of None \<Rightarrow> failE (Status Internal) | Some pub \<Rightarrow> retE pub)"

definition union_addrs :: "string list \<Rightarrow> string list \<Rightarrow> string list" where
  "union_addrs a b = sort_strings (remdups (filter (\<lambda>v. v \<noteq> []) (a @ b)))"

text \<open>
  The lock of one volume, \<^verbatim>\<open>VolumeLocks\<close>, around the body of a handler. The set of held ids is a
  component of the state; the lock is given back however the body ends.
\<close>

definition TryAcquire :: "string \<Rightarrow> string set \<Rightarrow> string set option" where
  "TryAcquire i held = (if i \<in> held then None else Some (insert i held))"

definition release :: "string \<Rightarrow> string set \<Rightarrow> string set" where
  "release i held = held - {i}"

definition with_lock :: "string \<Rightarrow> ('s, go_error, 'a) op \<Rightarrow> ('s \<times> string set, go_error, 'a) op" where
  "with_lock i body sl =
     (case TryAcquire i (snd sl) of
        None \<Rightarrow> (Inl (Status Aborted), sl)
      | Some held \<Rightarrow> (case body (fst sl) of (r, s') \<Rightarrow> (r, (s', release i held))))"

section \<open>Publishing\<close>

text \<open>From the single-writer check to the ledger entry.\<close>

definition grant_access ::
  "'s controller \<Rightarrow> 's transport \<Rightarrow> vol_id \<Rightarrow> access_mode \<Rightarrow> NodeRef \<Rightarrow> grants
     \<Rightarrow> ('s, go_error, (string \<times> string) list) op" where
  "grant_access c cl i mode node grants =
     (if Others grants (nr_ID node) \<noteq> [] \<and> singleNode mode then failE (Status FailedPrecondition)
      else bindE (ctl_publisher c i) (\<lambda>pub.
           bindE (on_err toStatus (pub_Publish pub i node)) (\<lambda>pc.
           bindE (on_err toStatus (SaveGrants cl i (put (nr_ID node) (nr_Addrs node) grants))) (\<lambda>_.
           retE pc))))"

definition publish_body ::
  "'s controller \<Rightarrow> vol_id \<Rightarrow> string \<Rightarrow> access_mode \<Rightarrow> ('s, go_error, (string \<times> string) list) op" where
  "publish_body c i nodeID mode =
     bindE (requireVolumeExists c i) (\<lambda>_.
     bindE (on_err (\<lambda>e. if errors_Is e ErrNodeNotFound then Status NotFound else Status Internal)
              (ctl_Resolve c nodeID)) (\<lambda>node.
     bindE (on_err toStatus (ctl_Client c (id_Backend i))) (\<lambda>cl.
     bindE (on_err toStatus (ReadGrants cl i)) (grant_access c cl i mode node))))"

record publish_request =
  pq_VolumeId :: string
  pq_NodeId :: string
  pq_Capability :: "capability option"

definition ControllerPublishVolume ::
  "'s controller \<Rightarrow> publish_request \<Rightarrow> ('s \<times> string set, go_error, (string \<times> string) list) op" where
  "ControllerPublishVolume c req =
     (if pq_VolumeId req = [] \<or> pq_NodeId req = [] \<or> pq_Capability req = None
      then failE (Status InvalidArgument)
      else case ParseID (pq_VolumeId req) of
             Inl _ \<Rightarrow> failE (Status NotFound)
           | Inr i \<Rightarrow>
               let mode = cap_Mode (the (pq_Capability req))
               in if \<not> supportsAccessMode (id_Protocol i) mode then failE (Status InvalidArgument)
                  else with_lock (ID_String i) (publish_body c i (pq_NodeId req) mode))"

section \<open>Unpublishing\<close>

definition node_of_ledger :: "'s controller \<Rightarrow> grants \<Rightarrow> string \<Rightarrow> ('s, go_error, NodeRef) op" where
  "node_of_ledger c grants nodeID =
     tryE (ctl_Resolve c nodeID) (\<lambda>r.
       let recorded = grants_lookup grants nodeID
       in case r of
            Inl _ \<Rightarrow> retE \<lparr>nr_ID = nodeID, nr_Addrs = recorded, nr_IQN = [], nr_NQN = []\<rparr>
          | Inr live \<Rightarrow> retE \<lparr>nr_ID = nodeID, nr_Addrs = Some (union_addrs (elems recorded) (elems (nr_Addrs live))),
                             nr_IQN = nr_IQN live, nr_NQN = nr_NQN live\<rparr>)"

fun unpublish_nodes ::
  "'s controller \<Rightarrow> 's publisher \<Rightarrow> vol_id \<Rightarrow> string list \<Rightarrow> grants \<Rightarrow> ('s, go_error, grants) op" where
  "unpublish_nodes c pub i [] grants = retE grants"
| "unpublish_nodes c pub i (nodeID # targets) grants =
     bindE (node_of_ledger c grants nodeID) (\<lambda>node.
     bindE (on_err toStatus (pub_Unpublish pub i node)) (\<lambda>_.
     unpublish_nodes c pub i targets (del nodeID grants)))"

definition unpublish_body :: "'s controller \<Rightarrow> vol_id \<Rightarrow> string \<Rightarrow> ('s, go_error, unit) op" where
  "unpublish_body c i nodeID =
     bindE (on_err toStatus (ctl_Client c (id_Backend i))) (\<lambda>cl.
     tryE (ReadGrants cl i) (\<lambda>r.
     case r of
       Inl e \<Rightarrow> if errors_Is e ErrVolumeGone then retE () else failE (toStatus e)
     | Inr grants \<Rightarrow>
         let targets = (if nodeID = [] then Nodes grants else [nodeID])
         in if targets = [] then retE ()
            else bindE (ctl_publisher c i) (\<lambda>pub.
                 bindE (unpublish_nodes c pub i targets grants) (\<lambda>grants'.
                 on_err toStatus (SaveGrants cl i grants')))))"

definition ControllerUnpublishVolume ::
  "'s controller \<Rightarrow> string \<Rightarrow> string \<Rightarrow> ('s \<times> string set, go_error, unit) op" where
  "ControllerUnpublishVolume c volumeID nodeID =
     (if volumeID = [] then failE (Status InvalidArgument)
      else case ParseID volumeID of
             Inl _ \<Rightarrow> retE ()
           | Inr i \<Rightarrow> with_lock (ID_String i) (unpublish_body c i nodeID))"

text \<open>\<open>Inr True\<close> confirms the capabilities, \<open>Inr False\<close> is an answer without confirmation.\<close>

definition ValidateVolumeCapabilities ::
  "'s controller \<Rightarrow> string \<Rightarrow> capability list \<Rightarrow> ('s, go_error, bool) op" where
  "ValidateVolumeCapabilities c volumeID caps =
     (if volumeID = [] \<or> caps = [] then failE (Status InvalidArgument)
      else case ParseID volumeID of
             Inl _ \<Rightarrow> failE (Status NotFound)
           | Inr i \<Rightarrow>
               bindE (requireVolumeExists c i) (\<lambda>_.
               retE (requireSupportedCapabilities (id_Protocol i) caps = Inr ()
                 \<and> list_all (\<lambda>cap. supportsAccessMode (id_Protocol i) (cap_Mode cap)) caps)))"

section \<open>What the controller relies on\<close>

text \<open>
  Addresses as the cluster reports them: ASCII, not empty and without surrounding white space.
\<close>

definition clean_slice :: "slice \<Rightarrow> bool" where
  "clean_slice v \<longleftrightarrow> list_all (\<lambda>a. ascii a \<and> a \<noteq> [] \<and> TrimSpace a = a) (elems v)"

definition clean_ledger :: "(string \<rightharpoonup> slice) \<Rightarrow> bool" where
  "clean_ledger m \<longleftrightarrow> (\<forall>n v. m n = Some v \<longrightarrow> ascii n \<and> clean_slice v)"

definition addresses :: "slice \<Rightarrow> string set" where
  "addresses v = set (elems v)"

text \<open>
  The contract for one volume \<open>i\<close>. \<open>admitted\<close> are the addresses the appliance serves the volume
  to, \<open>ledger\<close> is the recorded publish ledger. Every call may fail; a failed write has either
  happened or not. Reads change nothing; the publisher leaves the ledger alone, admits at most
  the node's addresses on top of those admitted before, and a revocation that reports success
  takes exactly the node's addresses away.
\<close>

lemma wp_on_err: "wp (on_err f m) s Q = wp m s (\<lambda>r s'. Q (case r of Inl e \<Rightarrow> Inl (f e) | Inr x \<Rightarrow> Inr x) s')"
  by (simp add: on_err_def wp_rules) (auto simp: wp_def retE_def failE_def split: prod.splits sum.splits)

lemma wp_bind_step:
  assumes "wp m s R" "\<And>e s'. R (Inl e) s' \<Longrightarrow> Q (Inl e) s'" "\<And>x s'. R (Inr x) s' \<Longrightarrow> wp (k x) s' Q"
  shows "wp (bindE m k) s Q"
  unfolding wp_bindE by (rule wp_mono [OF assms(1)]) (auto intro: assms split: sum.split)

lemma wp_try_step:
  assumes "wp m s R" "\<And>r s'. R r s' \<Longrightarrow> wp (k r) s' Q"
  shows "wp (tryE m k) s Q"
  unfolding wp_tryE by (rule wp_mono [OF assms(1)]) (rule assms)

lemma wp_bind_on_err:
  assumes "wp m s R" "\<And>e s'. R (Inl e) s' \<Longrightarrow> Q (Inl (f e)) s'" "\<And>x s'. R (Inr x) s' \<Longrightarrow> wp (k x) s' Q"
  shows "wp (bindE (on_err f m) k) s Q"
  unfolding wp_bindE wp_on_err by (rule wp_mono [OF assms(1)]) (auto intro: assms split: sum.split)

locale attach_world =
  fixes ctl :: "'s controller"
    and call :: "'s transport"
    and pub :: "'s publisher"
    and i :: vol_id
    and wf :: "'s \<Rightarrow> bool"
    and admitted :: "'s \<Rightarrow> string set"
    and ledger :: "'s \<Rightarrow> string \<rightharpoonup> slice"
  assumes client: "wf s \<Longrightarrow> ctl_Client ctl (id_Backend i) s = (r1, s') \<Longrightarrow> s' = s \<and> (\<forall>cl. r1 = Inr cl \<longrightarrow> cl = call)"
    and resolve: "wf s \<Longrightarrow> ctl_Resolve ctl n s = (r2, s') \<Longrightarrow>
      s' = s \<and> (\<forall>nd. r2 = Inr nd \<longrightarrow> nr_ID nd = n \<and> ascii n \<and> clean_slice (nr_Addrs nd))"
    and for_protocol: "wf s \<Longrightarrow> ctl_For ctl (id_Backend i) (id_Protocol i) s = (r3, s') \<Longrightarrow>
      s' = s \<and> (\<forall>p. r3 = Inr (Some p) \<longrightarrow> p = pub)"
    and query: "wf s \<Longrightarrow> DatasetQuery call (DatasetPath i) s = (r4, s') \<Longrightarrow> s' = s"
    and read: "wf s \<Longrightarrow> ReadGrants call i s = (r5, s') \<Longrightarrow>
      s' = s \<and> (\<forall>g. r5 = Inr g \<longrightarrow> map_of g = ledger s \<and> distinct (map fst g))"
    and gone: "wf s \<Longrightarrow> ReadGrants call i s = (Inl e, s') \<Longrightarrow> errors_Is e ErrVolumeGone \<Longrightarrow> admitted s = {}"
    and ledger_clean: "wf s \<Longrightarrow> clean_ledger (ledger s)"
    and save: "wf s \<Longrightarrow> distinct (map fst g) \<Longrightarrow> clean_ledger (map_of g) \<Longrightarrow> SaveGrants call i g s = (r7, s') \<Longrightarrow>
      wf s' \<and> admitted s' = admitted s \<and> (r7 = Inr () \<longrightarrow> ledger s' = map_of g)
        \<and> ledger s' \<in> {ledger s, map_of g}"
    and publish: "wf s \<Longrightarrow> clean_slice (nr_Addrs nd) \<Longrightarrow> pub_Publish pub i nd s = (r8, s') \<Longrightarrow>
      wf s' \<and> ledger s' = ledger s \<and> admitted s' \<subseteq> admitted s \<union> addresses (nr_Addrs nd)"
    and unpublish: "wf s \<Longrightarrow> clean_slice (nr_Addrs nd) \<Longrightarrow> pub_Unpublish pub i nd s = (r9, s') \<Longrightarrow>
      wf s' \<and> ledger s' = ledger s \<and> admitted s' \<subseteq> admitted s
        \<and> (r9 = Inr () \<longrightarrow> admitted s' = admitted s - addresses (nr_Addrs nd))"
begin

text \<open>Every address served is one of the addresses the ledger has for some node.\<close>

definition covered :: "'s \<Rightarrow> bool" where
  "covered s \<longleftrightarrow> admitted s \<subseteq> (\<Union>v \<in> ran (ledger s). addresses v)"

definition resolves :: "'s \<Rightarrow> string \<Rightarrow> slice \<Rightarrow> bool" where
  "resolves s n v \<longleftrightarrow> (\<exists>nd s'. ctl_Resolve ctl n s = (Inr nd, s') \<and> nr_Addrs nd = v)"

lemma wp_laws:
  assumes "wf s"
  shows wp_client: "wp (ctl_Client ctl (id_Backend i)) s (\<lambda>r s'. s' = s \<and> (\<forall>cl. r = Inr cl \<longrightarrow> cl = call))"
    and wp_resolve: "wp (ctl_Resolve ctl n) s (\<lambda>r s'. s' = s
      \<and> (\<forall>nd. r = Inr nd \<longrightarrow> nr_ID nd = n \<and> ascii n \<and> clean_slice (nr_Addrs nd) \<and> resolves s n (nr_Addrs nd)))"
    and wp_for: "wp (ctl_For ctl (id_Backend i) (id_Protocol i)) s (\<lambda>r s'. s' = s \<and> (\<forall>p. r = Inr (Some p) \<longrightarrow> p = pub))"
    and wp_query: "wp (DatasetQuery call (DatasetPath i)) s (\<lambda>r s'. s' = s)"
    and wp_read: "wp (ReadGrants call i) s (\<lambda>r s'. s' = s \<and> (\<forall>g. r = Inr g \<longrightarrow> map_of g = ledger s \<and> distinct (map fst g)))"
proof -
  show "wp (ctl_Resolve ctl n) s (\<lambda>r s'. s' = s
      \<and> (\<forall>nd. r = Inr nd \<longrightarrow> nr_ID nd = n \<and> ascii n \<and> clean_slice (nr_Addrs nd) \<and> resolves s n (nr_Addrs nd)))"
    using resolve [OF assms] by (intro wpI) (auto simp: resolves_def)
qed (rule wpI, erule client [OF assms] for_protocol [OF assms] query [OF assms] read [OF assms])+

lemma wp_publisher:
  assumes "wf s"
  shows "wp (ctl_publisher ctl i) s (\<lambda>r s'. s' = s \<and> (\<forall>p. r = Inr p \<longrightarrow> p = pub))"
  unfolding ctl_publisher_def
  by (rule wp_bind_on_err [OF wp_for [OF assms]]) (auto simp: wp_rules split: option.split)

lemma wp_requireVolumeExists:
  assumes "wf s"
  shows "wp (requireVolumeExists ctl i) s (\<lambda>r s'. s' = s)"
proof -
  have "wp (bindE (on_err toStatus (DatasetQuery call (DatasetPath i)))
      (\<lambda>ds. case ds of None \<Rightarrow> failE (Status NotFound) | Some _ \<Rightarrow> retE ())) s (\<lambda>r s'. s' = s)"
    by (rule wp_bind_on_err [OF wp_query [OF assms]]) (simp_all add: wp_rules split: option.split)
  then show ?thesis
    unfolding requireVolumeExists_def by (intro wp_bind_on_err [OF wp_client [OF assms]]) auto
qed

text \<open>
  Publishing. A reply of success recorded the node, and in a single-node mode no other node was
  recorded; a refusal or failure before the grant changes nothing; a failure after the grant
  admits at most the node's addresses.
\<close>

definition published :: "string \<Rightarrow> access_mode \<Rightarrow> 's \<Rightarrow> go_error + 'a \<Rightarrow> 's \<Rightarrow> bool" where
  "published n mode s r s' \<longleftrightarrow> wf s' \<and>
     (s' = s \<and> isl r
      \<or> (\<exists>v. resolves s n v \<and> admitted s' \<subseteq> admitted s \<union> addresses v
           \<and> ledger s' \<in> {ledger s, (ledger s)(n \<mapsto> v)} \<and> (\<not> isl r \<longrightarrow> ledger s' = (ledger s)(n \<mapsto> v))
           \<and> (singleNode mode \<longrightarrow> dom (ledger s) \<subseteq> {n})))"

lemma wp_save:
  assumes "wf s" "distinct (map fst g)" "clean_ledger (map_of g)"
    and "\<And>r s'. wf s' \<Longrightarrow> admitted s' = admitted s \<Longrightarrow> (r = Inr () \<longrightarrow> ledger s' = map_of g) \<Longrightarrow>
      ledger s' \<in> {ledger s, map_of g} \<Longrightarrow> Q r s'"
  shows "wp (SaveGrants call i g) s Q"
proof (rule wpI)
  fix r s' assume "SaveGrants call i g s = (r, s')"
  from save [OF assms(1-3) this] show "Q r s'" by (intro assms(4)) simp_all
qed

lemma wp_grant:
  assumes "wf s" "nr_ID nd = n" "ascii n" "clean_slice (nr_Addrs nd)" "map_of g = ledger s" "distinct (map fst g)"
    and "resolves s n (nr_Addrs nd)" "singleNode mode \<Longrightarrow> dom (ledger s) \<subseteq> {n}"
  shows "wp (bindE (on_err toStatus (pub_Publish pub i nd)) (\<lambda>pc.
      bindE (on_err toStatus (SaveGrants call i (put (nr_ID nd) (nr_Addrs nd) g))) (\<lambda>_. retE pc))) s (published n mode s)"
  unfolding wp_bindE wp_on_err
proof (rule wpI)
  fix r s1 assume "pub_Publish pub i nd s = (r, s1)"
  note s1 = publish [OF assms(1,4) this]
  have clean: "clean_ledger (map_of (put n (nr_Addrs nd) g))"
    using ledger_clean [OF assms(1)] assms(3-5) by (auto simp: clean_ledger_def)
  have g: "map_of (put n (nr_Addrs nd) g) = (ledger s)(n \<mapsto> nr_Addrs nd)" "distinct (map fst (put n (nr_Addrs nd) g))"
    using assms(5,6) by simp_all
  have fail: "published n mode s (Inl e) s1" for e
    using s1 assms(7,8) by (auto simp: published_def)
  have ok: "published n mode s r' s2"
    if "wf s2" "admitted s2 = admitted s1" "\<not> isl r' \<longrightarrow> ledger s2 = map_of (put n (nr_Addrs nd) g)"
      "ledger s2 \<in> {ledger s1, map_of (put n (nr_Addrs nd) g)}" for r' s2
    unfolding published_def using that s1 assms(7,8) g(1)
    by (intro conjI disjI2 exI [of _ "nr_Addrs nd"]) auto
  show "case (case r of Inl e \<Rightarrow> Inl (toStatus e) | Inr x \<Rightarrow> Inr x) of
      Inl e \<Rightarrow> published n mode s (Inl e) s1
    | Inr pc \<Rightarrow> wp (SaveGrants call i (put (nr_ID nd) (nr_Addrs nd) g)) s1 (\<lambda>r s'.
        case (case r of Inl e \<Rightarrow> Inl (toStatus e) | Inr x \<Rightarrow> Inr x) of
          Inl e \<Rightarrow> published n mode s (Inl e) s' | Inr x \<Rightarrow> wp (retE pc) s' (published n mode s))"
  proof (cases r)
    case (Inl e)
    then show ?thesis by (simp add: fail)
  next
    case (Inr pc)
    show ?thesis
      unfolding Inr sum.case assms(2)
      by (rule wp_save [OF _ g(2) clean]) (use s1 in \<open>auto simp: wp_rules intro!: ok split: sum.split\<close>)
  qed
qed

lemma publish_outcome:
  assumes "wf s"
  shows "wp (publish_body ctl i n mode) s (published n mode s)"
proof -
  have err: "published n mode s (Inl e) s" for e using assms by (simp add: published_def)
  have grant: "wp (grant_access ctl call i mode nd g) s (published n mode s)"
    if "nr_ID nd = n" "ascii n" "clean_slice (nr_Addrs nd)" "map_of g = ledger s" "distinct (map fst g)"
      "resolves s n (nr_Addrs nd)" for nd g
  proof (cases "Others g (nr_ID nd) \<noteq> [] \<and> singleNode mode")
    case True
    then show ?thesis by (simp add: grant_access_def wp_rules err)
  next
    case False
    then have "singleNode mode \<Longrightarrow> dom (ledger s) \<subseteq> {n}" using that(1,4) Others_empty by metis
    then have "wp (bindE (ctl_publisher ctl i) (\<lambda>pub. bindE (on_err toStatus (pub_Publish pub i nd)) (\<lambda>pc.
        bindE (on_err toStatus (SaveGrants call i (put (nr_ID nd) (nr_Addrs nd) g))) (\<lambda>_. retE pc)))) s (published n mode s)"
      using wp_grant [OF assms that] by (intro wp_bind_step [OF wp_publisher [OF assms]]) (auto simp: err)
    with False show ?thesis unfolding grant_access_def by (subst if_not_P) auto
  qed
  have read: "wp (bindE (on_err toStatus (ReadGrants call i)) (grant_access ctl call i mode nd)) s (published n mode s)"
    if "nr_ID nd = n" "ascii n" "clean_slice (nr_Addrs nd)" "resolves s n (nr_Addrs nd)" for nd
    by (rule wp_bind_on_err [OF wp_read [OF assms]]) (use grant [OF that(1-3) _ _ that(4)] err in auto)
  have client: "wp (bindE (on_err toStatus (ctl_Client ctl (id_Backend i))) (\<lambda>cl.
      bindE (on_err toStatus (ReadGrants cl i)) (grant_access ctl cl i mode nd))) s (published n mode s)"
    if "nr_ID nd = n" "ascii n" "clean_slice (nr_Addrs nd)" "resolves s n (nr_Addrs nd)" for nd
    by (rule wp_bind_on_err [OF wp_client [OF assms]]) (use read [OF that] err in auto)
  have "wp (bindE (on_err (\<lambda>e. if errors_Is e ErrNodeNotFound then Status NotFound else Status Internal) (ctl_Resolve ctl n))
      (\<lambda>nd. bindE (on_err toStatus (ctl_Client ctl (id_Backend i))) (\<lambda>cl.
        bindE (on_err toStatus (ReadGrants cl i)) (grant_access ctl cl i mode nd)))) s (published n mode s)"
    by (rule wp_bind_on_err [OF wp_resolve [OF assms]]) (use client err in auto)
  then show ?thesis
    unfolding publish_body_def by (intro wp_bind_step [OF wp_requireVolumeExists [OF assms]]) (auto simp: err)
qed

text \<open>Revoking. \<open>recorded g N\<close> are the addresses the ledger \<open>g\<close> has for the nodes in \<open>N\<close>.\<close>

definition recorded :: "(string \<rightharpoonup> slice) \<Rightarrow> string set \<Rightarrow> string set" where
  "recorded g N = {a. \<exists>n \<in> N. \<exists>v. g n = Some v \<and> a \<in> addresses v}"

lemma clean_union: "clean_slice v \<Longrightarrow> clean_slice w \<Longrightarrow> clean_slice (Some (union_addrs (elems v) (elems w)))"
  by (auto simp: clean_slice_def union_addrs_def elems_def [of "Some _"] list_all_iff)

lemma wp_node_of_ledger:
  assumes "wf s" "map_of g = ledger s |` N"
  shows "wp (node_of_ledger ctl g n) s (\<lambda>r s'. s' = s \<and> \<not> isl r
    \<and> (\<forall>nd. r = Inr nd \<longrightarrow> clean_slice (nr_Addrs nd) \<and> recorded (map_of g) {n} \<subseteq> addresses (nr_Addrs nd)
          \<and> (\<forall>v. resolves s n v \<longrightarrow> addresses v \<subseteq> addresses (nr_Addrs nd))))"
proof -
  have c: "clean_slice (grants_lookup g n)"
    using ledger_clean [OF assms(1)] assms(2)
    by (auto simp: clean_ledger_def grants_lookup_def clean_slice_def elems_def restrict_map_def split: option.splits if_splits)
  have r: "recorded (map_of g) {n} = addresses (grants_lookup g n)"
    by (auto simp: recorded_def grants_lookup_def addresses_def elems_def split: option.splits)
  have u: "addresses (grants_lookup g n) \<subseteq> addresses (Some (union_addrs (elems (grants_lookup g n)) w))" for w
    using c by (auto simp: addresses_def union_addrs_def elems_def [of "Some _"] clean_slice_def list_all_iff)
  show ?thesis
    unfolding node_of_ledger_def Let_def wp_tryE
  proof (rule wpI)
    fix q s' assume q: "ctl_Resolve ctl n s = (q, s')"
    note l = resolve [OF assms(1) q]
    have live: "resolves s n v \<longleftrightarrow> (\<exists>nd. q = Inr nd \<and> v = nr_Addrs nd)" for v
      using q by (auto simp: resolves_def)
    have w: "clean_slice v \<Longrightarrow> addresses v \<subseteq> addresses (Some (union_addrs (elems (grants_lookup g n)) (elems v)))" for v
      by (auto simp: addresses_def union_addrs_def elems_def [of "Some _"] clean_slice_def list_all_iff)
    show "wp (case q of Inl _ \<Rightarrow> retE \<lparr>nr_ID = n, nr_Addrs = grants_lookup g n, nr_IQN = [], nr_NQN = []\<rparr>
        | Inr live \<Rightarrow> retE \<lparr>nr_ID = n, nr_Addrs = Some (union_addrs (elems (grants_lookup g n)) (elems (nr_Addrs live))),
                           nr_IQN = nr_IQN live, nr_NQN = nr_NQN live\<rparr>) s'
      (\<lambda>r s'. s' = s \<and> \<not> isl r \<and> (\<forall>nd. r = Inr nd \<longrightarrow> clean_slice (nr_Addrs nd)
          \<and> recorded (map_of g) {n} \<subseteq> addresses (nr_Addrs nd)
          \<and> (\<forall>v. resolves s n v \<longrightarrow> addresses v \<subseteq> addresses (nr_Addrs nd))))"
    proof (cases q)
      case (Inl e)
      with l c r live show ?thesis by (simp add: wp_rules)
    next
      case (Inr nd)
      with l r u w clean_union [OF c] live show ?thesis by (simp add: wp_rules)
    qed
  qed
qed

definition revoked :: "string list \<Rightarrow> grants \<Rightarrow> 's \<Rightarrow> go_error + grants \<Rightarrow> 's \<Rightarrow> bool" where
  "revoked targets g s r s' \<longleftrightarrow> wf s' \<and> ledger s' = ledger s \<and> admitted s' \<subseteq> admitted s
     \<and> (\<forall>g'. r = Inr g' \<longrightarrow> map_of g' = map_of g |` (- set targets) \<and> distinct (map fst g')
          \<and> admitted s' \<inter> recorded (map_of g) (set targets) = {}
          \<and> (\<forall>v. targets \<noteq> [] \<and> resolves s (hd targets) v \<longrightarrow> admitted s' \<inter> addresses v = {}))"

lemma revoked_Cons:
  assumes "revoked targets (del n g) s' r s''" "wf s'" "ledger s' = ledger s" "admitted s' = admitted s - addresses w"
    and "recorded (map_of g) {n} \<subseteq> addresses w" "\<forall>v. resolves s n v \<longrightarrow> addresses v \<subseteq> addresses w"
  shows "revoked (n # targets) g s r s''"
proof -
  have rec: "recorded (map_of g) (set (n # targets)) =
      recorded (map_of g) {n} \<union> recorded (map_of (del n g)) (set targets)"
    by (auto simp: recorded_def)
  have cut: "map_of (del n g) |` (- set targets) = map_of g |` (- set (n # targets))"
    by (auto simp: restrict_map_def fun_eq_iff)
  have adm: "admitted s'' \<subseteq> admitted s - addresses w" using assms(1,4) by (simp add: revoked_def)
  show ?thesis
    using assms(1,3,5,6) adm unfolding revoked_def rec cut [symmetric] by (auto 0 3)
qed

lemma wp_unpublish_nodes:
  assumes "wf s" "map_of g = ledger s |` N" "distinct (map fst g)"
  shows "wp (unpublish_nodes ctl pub i targets g) s (revoked targets g s)"
  using assms
proof (induction targets arbitrary: s g N)
  case Nil
  then show ?case by (simp add: wp_rules revoked_def recorded_def)
next
  case (Cons n targets)
  have sub: "map_of (del n g) = ledger s |` (N - {n})"
    using Cons.prems(2) by (auto simp: restrict_map_def fun_eq_iff)
  have dist: "distinct (map fst (del n g))" using Cons.prems(3) by simp
  have step: "wp (bindE (on_err toStatus (pub_Unpublish pub i nd)) (\<lambda>_. unpublish_nodes ctl pub i targets (del n g))) s
      (revoked (n # targets) g s)"
    if nd: "clean_slice (nr_Addrs nd)" "recorded (map_of g) {n} \<subseteq> addresses (nr_Addrs nd)"
      "\<forall>v. resolves s n v \<longrightarrow> addresses v \<subseteq> addresses (nr_Addrs nd)" for nd
  proof (rule wp_bind_on_err [OF wpI [OF unpublish [OF Cons.prems(1) nd(1)]]])
    fix e :: go_error and s' assume "wf s' \<and> ledger s' = ledger s \<and> admitted s' \<subseteq> admitted s
        \<and> (Inl e = Inr () \<longrightarrow> admitted s' = admitted s - addresses (nr_Addrs nd))"
    then show "revoked (n # targets) g s (Inl (toStatus e)) s'" by (simp add: revoked_def)
  next
    fix x s' assume "wf s' \<and> ledger s' = ledger s \<and> admitted s' \<subseteq> admitted s
        \<and> (Inr x = Inr () \<longrightarrow> admitted s' = admitted s - addresses (nr_Addrs nd))"
    then have s': "wf s'" "ledger s' = ledger s" "admitted s' = admitted s - addresses (nr_Addrs nd)" by auto
    have "wp (unpublish_nodes ctl pub i targets (del n g)) s' (revoked targets (del n g) s')"
      using Cons.IH [OF s'(1) _ dist] sub s'(2) by metis
    then show "wp (unpublish_nodes ctl pub i targets (del n g)) s' (revoked (n # targets) g s)"
      by (rule wp_mono) (rule revoked_Cons [OF _ s' nd(2,3)])
  qed
  show ?case
    unfolding unpublish_nodes.simps
    by (rule wp_bind_step [OF wp_node_of_ledger [OF Cons.prems(1,2)]]) (use step in auto)
qed

definition revoke_targets :: "string \<Rightarrow> 's \<Rightarrow> string set" where
  "revoke_targets n s = (if n = [] then dom (ledger s) else {n})"

definition unpublished :: "string \<Rightarrow> 's \<Rightarrow> go_error + unit \<Rightarrow> 's \<Rightarrow> bool" where
  "unpublished n s r s' \<longleftrightarrow> wf s' \<and> admitted s' \<subseteq> admitted s
     \<and> (ledger s' = ledger s
        \<or> ledger s' = ledger s |` (- revoke_targets n s) \<and> admitted s' \<inter> recorded (ledger s) (revoke_targets n s) = {})
     \<and> (r = Inr () \<longrightarrow> admitted s' = {}
        \<or> ledger s' = ledger s |` (- revoke_targets n s) \<and> admitted s' \<inter> recorded (ledger s) (revoke_targets n s) = {}
          \<and> (\<forall>v. n \<noteq> [] \<and> resolves s n v \<longrightarrow> admitted s' \<inter> addresses v = {}))"

lemma wp_revoke:
  assumes "wf s" "map_of g = ledger s" "distinct (map fst g)" "targets = (if n = [] then Nodes g else [n])"
  shows "wp (bindE (unpublish_nodes ctl pub i targets g) (\<lambda>g'. on_err toStatus (SaveGrants call i g'))) s (unpublished n s)"
proof (rule wp_bind_step [OF wp_unpublish_nodes [OF assms(1) _ assms(3)]])
  show "map_of g = ledger s |` UNIV" by (simp add: assms(2) restrict_map_def fun_eq_iff)
next
  fix e s' assume "revoked targets g s (Inl e) s'"
  then show "unpublished n s (Inl e) s'" by (simp add: revoked_def unpublished_def)
next
  fix g' s' assume "revoked targets g s (Inr g') s'"
  then have s': "wf s'" "ledger s' = ledger s" "admitted s' \<subseteq> admitted s" "map_of g' = map_of g |` (- set targets)"
    "distinct (map fst g')" "admitted s' \<inter> recorded (map_of g) (set targets) = {}"
    "\<forall>v. targets \<noteq> [] \<and> resolves s (hd targets) v \<longrightarrow> admitted s' \<inter> addresses v = {}"
    by (simp_all add: revoked_def)
  have t: "set targets = revoke_targets n s"
    using Nodes_iff [of _ g] assms(2) unfolding assms(4) by (auto simp: revoke_targets_def)
  have clean: "clean_ledger (map_of g')"
    using ledger_clean [OF assms(1)] assms(2) s'(4) by (auto simp: clean_ledger_def restrict_map_def split: if_splits)
  have live: "n \<noteq> [] \<Longrightarrow> resolves s n v \<Longrightarrow> admitted s' \<inter> addresses v = {}" for v
    using s'(7) by (simp add: assms(4))
  show "wp (on_err toStatus (SaveGrants call i g')) s' (unpublished n s)"
    unfolding wp_on_err
    by (rule wp_save [OF s'(1,5) clean])
       (use s'(2-4,6) assms(2) t live in \<open>auto simp: unpublished_def split: sum.split\<close>)
qed

lemma unpublish_outcome:
  assumes "wf s"
  shows "wp (unpublish_body ctl i n) s (unpublished n s)"
proof -
  have same: "unpublished n s (Inl e) s" for e using assms by (simp add: unpublished_def)
  have revoke: "wp (let targets = (if n = [] then Nodes g else [n])
      in if targets = [] then retE ()
         else bindE (ctl_publisher ctl i) (\<lambda>pub.
              bindE (unpublish_nodes ctl pub i targets g) (\<lambda>g'. on_err toStatus (SaveGrants call i g')))) s (unpublished n s)"
    if g: "map_of g = ledger s" "distinct (map fst g)" for g
  proof -
    let ?t = "if n = [] then Nodes g else [n]"
    show ?thesis
    proof (cases "?t = []")
      case True
      then have "revoke_targets n s = {}" "n = []"
        using Nodes_iff [of _ g] g(1) by (auto simp: revoke_targets_def split: if_splits)
      then have "unpublished n s (Inr ()) s" using assms by (simp add: unpublished_def recorded_def restrict_map_def)
      with True show ?thesis by (simp add: wp_rules)
    next
      case False
      have "wp (bindE (ctl_publisher ctl i) (\<lambda>pub.
          bindE (unpublish_nodes ctl pub i ?t g) (\<lambda>g'. on_err toStatus (SaveGrants call i g')))) s (unpublished n s)"
        using wp_revoke [OF assms g refl] by (intro wp_bind_step [OF wp_publisher [OF assms]]) (auto simp: same)
      with False show ?thesis unfolding Let_def by (subst if_not_P) auto
    qed
  qed
  have gone: "unpublished n s (Inr ()) s" if "ReadGrants call i s = (Inl e, s')" "errors_Is e ErrVolumeGone" for e s'
    using gone [OF assms that] assms by (simp add: unpublished_def)
  have "wp (tryE (ReadGrants call i) (\<lambda>r. case r of
       Inl e \<Rightarrow> if errors_Is e ErrVolumeGone then retE () else failE (toStatus e)
     | Inr grants \<Rightarrow>
         let targets = (if n = [] then Nodes grants else [n])
         in if targets = [] then retE ()
            else bindE (ctl_publisher ctl i) (\<lambda>pub.
                 bindE (unpublish_nodes ctl pub i targets grants) (\<lambda>grants'.
                 on_err toStatus (SaveGrants call i grants'))))) s (unpublished n s)"
    unfolding wp_tryE
  proof (rule wpI)
    fix r s' assume r: "ReadGrants call i s = (r, s')"
    from read [OF assms this] have s': "s' = s" "\<And>g. r = Inr g \<Longrightarrow> map_of g = ledger s \<and> distinct (map fst g)" by auto
    show "wp (case r of
       Inl e \<Rightarrow> if errors_Is e ErrVolumeGone then retE () else failE (toStatus e)
     | Inr grants \<Rightarrow>
         let targets = (if n = [] then Nodes grants else [n])
         in if targets = [] then retE ()
            else bindE (ctl_publisher ctl i) (\<lambda>pub.
                 bindE (unpublish_nodes ctl pub i targets grants) (\<lambda>grants'.
                 on_err toStatus (SaveGrants call i grants')))) s' (unpublished n s)"
    proof (cases r)
      case (Inl e)
      with r gone show ?thesis unfolding s' by (auto simp: wp_rules same)
    next
      case (Inr g)
      with s'(2) revoke [of g] show ?thesis unfolding s' by simp
    qed
  qed
  then show ?thesis
    unfolding unpublish_body_def by (intro wp_bind_on_err [OF wp_client [OF assms]]) (auto simp: same)
qed

lemma single_invariant_publish:
  assumes "wf s" "\<And>n v. resolves s n v \<Longrightarrow> v = addr n"
    and inv: "N \<subseteq> {n}" "dom (ledger s) \<subseteq> N" "\<And>m v. ledger s m = Some v \<Longrightarrow> v = addr m"
      "admitted s \<subseteq> (\<Union>m \<in> N. addresses (addr m))"
    and "published n mode s r s'"
  shows "wf s' \<and> dom (ledger s') \<subseteq> {n} \<and> (\<forall>m v. ledger s' m = Some v \<longrightarrow> v = addr m)
    \<and> admitted s' \<subseteq> addresses (addr n) \<and> (\<not> isl r \<longrightarrow> dom (ledger s') = {n})"
proof -
  have a: "admitted s \<subseteq> addresses (addr n)" using inv(1,4) by auto
  have d: "dom (ledger s) \<subseteq> {n}" using inv(1,2) by blast
  from assms(7) consider "s' = s" "isl r"
    | v where "resolves s n v" "admitted s' \<subseteq> admitted s \<union> addresses v"
        "ledger s' \<in> {ledger s, (ledger s)(n \<mapsto> v)}" "\<not> isl r \<longrightarrow> ledger s' = (ledger s)(n \<mapsto> v)"
    unfolding published_def by blast
  then show ?thesis
  proof cases
    case 1
    then show ?thesis using a d inv(3) assms(1) by simp
  next
    case 2
    have v: "v = addr n" by (rule assms(2) [OF 2(1)])
    have "wf s'" using assms(7) by (simp add: published_def)
    moreover have "dom ((ledger s)(n \<mapsto> v)) = {n}" using d by (simp only: dom_fun_upd option.distinct if_False) blast
    then have "dom (ledger s') \<subseteq> {n}" "\<not> isl r \<longrightarrow> dom (ledger s') = {n}" by (use 2(3,4) d in force)+
    moreover have "w = addr m" if "ledger s' m = Some w" for m w
      using 2(3) that inv(3) v by (auto split: if_splits)
    moreover have "admitted s' \<subseteq> addresses (addr n)" using 2(2) a v by auto
    ultimately show ?thesis by blast
  qed
qed

lemma single_invariant_unpublish:
  assumes "\<And>n v. resolves s n v \<Longrightarrow> v = addr n"
    and inv: "N \<subseteq> {m}" "N = dom (ledger s) \<union> X" "\<And>m v. ledger s m = Some v \<Longrightarrow> v = addr m"
      "admitted s \<subseteq> (\<Union>m \<in> N. addresses (addr m))"
    and "unpublished n s r s'"
    and X': "X' = (if r = Inr () \<and> n \<noteq> [] \<and> (\<exists>v. resolves s n v) then X - {n} else X)"
  shows "wf s' \<and> dom (ledger s') \<union> X' \<subseteq> N \<and> (\<forall>m v. ledger s' m = Some v \<longrightarrow> v = addr m)
    \<and> admitted s' \<subseteq> (\<Union>m \<in> dom (ledger s') \<union> X'. addresses (addr m))"
proof -
  let ?T = "revoke_targets n s"
  have u: "wf s'" "admitted s' \<subseteq> admitted s"
    and led: "ledger s' = ledger s \<or> ledger s' = ledger s |` (- ?T) \<and> admitted s' \<inter> recorded (ledger s) ?T = {}"
    and live: "r = Inr () \<Longrightarrow> n \<noteq> [] \<Longrightarrow> resolves s n v \<Longrightarrow> admitted s' \<inter> addresses v = {}" for v
    using assms(6) unfolding unpublished_def by auto
  have dom: "dom (ledger s') \<subseteq> dom (ledger s)" using led by (auto simp: restrict_map_def split: if_splits)
  have X: "X' \<subseteq> X" by (auto simp: X')
  have vals: "v = addr m" if "ledger s' m = Some v" for m v
    using led that inv(3) [of m v] by (auto simp: restrict_map_def split: if_splits)
  have am: "admitted s' \<subseteq> addresses (addr m)" using u(2) inv(1,4) by fast
  have "admitted s' = {}" if out: "m \<notin> dom (ledger s')" "m \<notin> X'"
  proof -
    consider (recorded) v where "ledger s m = Some v" | (pending) "m \<in> X" | (free) "m \<notin> N" using inv(2) by blast
    then show ?thesis
    proof cases
      case recorded
      then have "ledger s' \<noteq> ledger s" using out(1) by auto
      with led have l: "ledger s' = ledger s |` (- ?T)" and no: "admitted s' \<inter> recorded (ledger s) ?T = {}" by auto
      have "m \<in> ?T" using recorded out(1) unfolding l by (auto simp: restrict_map_def)
      then have "addresses (addr m) \<subseteq> recorded (ledger s) ?T"
        using recorded inv(3) [OF recorded] by (auto simp: recorded_def)
      then show ?thesis using am no by blast
    next
      case pending
      then have n: "n = m" "r = Inr ()" "n \<noteq> []" "\<exists>v. resolves s n v" using out(2) by (auto simp: X' split: if_splits)
      then obtain v where "resolves s n v" "v = addr m" using assms(1) by blast
      then show ?thesis using live [OF n(2,3)] am by blast
    next
      case free
      then have "N = {}" using inv(1) by blast
      then show ?thesis using u(2) inv(4) by simp
    qed
  qed
  then have "admitted s' \<subseteq> (\<Union>m \<in> dom (ledger s') \<union> X'. addresses (addr m))" using am by blast
  with u(1) dom X vals inv(2) show ?thesis by blast
qed

end

section \<open>Attach and detach in any order\<close>

text \<open>
  The calls the orchestrator makes for one volume in a single-node mode, in any order and with
  any outcome, starting from a state. The second index holds the node a publish failed for after
  the appliance may already have granted access. The orchestrator keeps to the rule of the CSI
  specification: after such a failure it repeats the publish for that node, or unpublishes the
  node while it still resolves, before it publishes elsewhere.
\<close>

inductive attach_run :: "'s controller \<Rightarrow> vol_id \<Rightarrow> 's \<Rightarrow> string set \<Rightarrow> 's \<Rightarrow> bool" for ctl i s where
  start: "attach_run ctl i s {} s"
| publish_ok: "attach_run ctl i s X t \<Longrightarrow> X \<subseteq> {n} \<Longrightarrow> singleNode mode \<Longrightarrow>
    publish_body ctl i n mode t = (Inr pc, t') \<Longrightarrow> attach_run ctl i s {} t'"
| publish_failed: "attach_run ctl i s X t \<Longrightarrow> X \<subseteq> {n} \<Longrightarrow> singleNode mode \<Longrightarrow>
    publish_body ctl i n mode t = (Inl e, t') \<Longrightarrow> attach_run ctl i s (if t' = t then X else {n}) t'"
| unpublish: "attach_run ctl i s X t \<Longrightarrow> unpublish_body ctl i n t = (r, t') \<Longrightarrow>
    attach_run ctl i s
      (if r = Inr () \<and> n \<noteq> [] \<and> (\<exists>nd t''. ctl_Resolve ctl n t = (Inr nd, t'')) then X - {n} else X) t'"

context attach_world
begin

lemma attach_run_invariant:
  assumes "attach_run ctl i s X t" "wf s" "ledger s = Map.empty" "admitted s = {}"
    and stable: "\<And>t n v. wf t \<Longrightarrow> resolves t n v \<Longrightarrow> v = addr n"
  shows "\<exists>m. wf t \<and> dom (ledger t) \<union> X \<subseteq> {m} \<and> (\<forall>m v. ledger t m = Some v \<longrightarrow> v = addr m)
    \<and> admitted t \<subseteq> (\<Union>m \<in> dom (ledger t) \<union> X. addresses (addr m))"
  using assms(1)
proof (induction rule: attach_run.induct)
  case start
  then show ?case using assms(2-4) by simp
next
  case (publish_ok X t n mode pc t')
  from publish_ok.IH obtain m where m: "wf t" "dom (ledger t) \<union> X \<subseteq> {m}"
    "\<forall>m v. ledger t m = Some v \<longrightarrow> v = addr m" "admitted t \<subseteq> (\<Union>m \<in> dom (ledger t) \<union> X. addresses (addr m))" by blast
  have p: "published n mode t (Inr pc) t'" by (rule wpD [OF publish_outcome [OF m(1)] publish_ok.hyps(4)])
  then have d: "dom (ledger t) \<union> X \<subseteq> {n}" using publish_ok.hyps(2,3) by (auto simp: published_def)
  have "wf t' \<and> dom (ledger t') \<subseteq> {n} \<and> (\<forall>m v. ledger t' m = Some v \<longrightarrow> v = addr m)
    \<and> admitted t' \<subseteq> addresses (addr n) \<and> (\<not> isl (Inr pc :: go_error + (string \<times> string) list) \<longrightarrow> dom (ledger t') = {n})"
    by (rule single_invariant_publish [OF m(1) stable [OF m(1)] d _ _ m(4) p]) (use m(3) in auto)
  then show ?case by (intro exI [of _ n]) auto
next
  case (publish_failed X t n mode e t')
  from publish_failed.IH obtain m where m: "wf t" "dom (ledger t) \<union> X \<subseteq> {m}"
    "\<forall>m v. ledger t m = Some v \<longrightarrow> v = addr m" "admitted t \<subseteq> (\<Union>m \<in> dom (ledger t) \<union> X. addresses (addr m))" by blast
  have p: "published n mode t (Inl e :: go_error + (string \<times> string) list) t'" by (rule wpD [OF publish_outcome [OF m(1)] publish_failed.hyps(4)])
  show ?case
  proof (cases "t' = t")
    case True
    then show ?thesis using m by auto
  next
    case False
    then have d: "dom (ledger t) \<union> X \<subseteq> {n}" using p publish_failed.hyps(2,3) by (auto simp: published_def)
    have "wf t' \<and> dom (ledger t') \<subseteq> {n} \<and> (\<forall>m v. ledger t' m = Some v \<longrightarrow> v = addr m)
      \<and> admitted t' \<subseteq> addresses (addr n) \<and> (\<not> isl (Inl e :: go_error + (string \<times> string) list) \<longrightarrow> dom (ledger t') = {n})"
      by (rule single_invariant_publish [OF m(1) stable [OF m(1)] d _ _ m(4) p]) (use m(3) in auto)
    with False show ?thesis by (intro exI [of _ n]) auto
  qed
next
  case (unpublish X t n r t')
  from unpublish.IH obtain m where m: "wf t" "dom (ledger t) \<union> X \<subseteq> {m}"
    "\<forall>m v. ledger t m = Some v \<longrightarrow> v = addr m" "admitted t \<subseteq> (\<Union>m \<in> dom (ledger t) \<union> X. addresses (addr m))" by blast
  have u: "unpublished n t r t'" by (rule wpD [OF unpublish_outcome [OF m(1)] unpublish.hyps(2)])
  define X' where "X' = (if r = Inr () \<and> n \<noteq> [] \<and> (\<exists>v. resolves t n v) then X - {n} else X)"
  have inv: "wf t' \<and> dom (ledger t') \<union> X' \<subseteq> dom (ledger t) \<union> X \<and> (\<forall>m v. ledger t' m = Some v \<longrightarrow> v = addr m)
    \<and> admitted t' \<subseteq> (\<Union>m \<in> dom (ledger t') \<union> X'. addresses (addr m))"
    by (rule single_invariant_unpublish [OF stable [OF m(1)] m(2) refl _ m(4) u X'_def]) (use m(3) in auto)
  have X': "X' = (if r = Inr () \<and> n \<noteq> [] \<and> (\<exists>nd t''. ctl_Resolve ctl n t = (Inr nd, t'')) then X - {n} else X)"
    by (auto simp: X'_def resolves_def)
  show ?case unfolding X' [symmetric] using inv m(2) by (meson subset_trans)
qed

end



end
