(* ===== verification/Provision.thy ===== *)
theory Provision
  imports Calls
begin

text \<open>
  What the protocol backends share: the request and the volume of \<^verbatim>\<open>internal/backend/backend.go\<close>,
  the records a new dataset gets (\<^verbatim>\<open>internal/backend/identity.go\<close>), and the one call of the
  middleware that is a job, with its polling loop (\<^verbatim>\<open>internal/truenas/job.go\<close>).
\<close>

record Volume =
  v_ID :: vol_id
  v_CapacityBytes :: int
  v_Context :: "(string \<times> string) list"

record CreateRequest =
  r_ID :: vol_id
  r_CapacityBytes :: int
  r_Params :: "string \<rightharpoonup> string"
  r_SourceSnapshot :: string

section \<open>Identity, markers and abandoned clones\<close>

definition RecordIdentity :: "'s transport \<Rightarrow> string \<Rightarrow> identity \<Rightarrow> ('s, go_error, unit) op" where
  "RecordIdentity call dsPath i =
     (if Identity_Empty i then retE ()
      else tryE (DatasetUpdate call dsPath
             (JObj [(''user_properties_update'',
                     props_json (map (\<lambda>k. (k, the (map_of (Identity_Properties i) k))) (PropertyKeys i))),
                    (''comments'', JStr (Description i))]))
             (\<lambda>_. retE ()))"

fun stamp_all :: "'s transport \<Rightarrow> string \<Rightarrow> (string \<times> string) list \<Rightarrow> ('s, go_error, unit) op" where
  "stamp_all call dsPath [] = retE ()"
| "stamp_all call dsPath ((k, v) # ps) =
     tryE (SetUserProperty call dsPath k v) (\<lambda>r.
       case r of Inl e \<Rightarrow> failE (Wrapped [e]) | Inr _ \<Rightarrow> stamp_all call dsPath ps)"

definition StampClone :: "'s transport \<Rightarrow> string \<Rightarrow> string \<Rightarrow> ('s, go_error, unit) op" where
  "StampClone call dsPath protocol =
     stamp_all call dsPath
       [(OwnerIDProperty, dsPath), (OwnerProperty, OwnerValue), (ProtocolProperty, protocol)]"

definition AbandonedCloneOf :: "dataset option \<Rightarrow> CreateRequest \<Rightarrow> bool" where
  "AbandonedCloneOf ods r =
     (case ods of
        None \<Rightarrow> False
      | Some ds \<Rightarrow>
          if r_SourceSnapshot r = [] then False
          else if ds_UserProperties ds OwnerProperty \<noteq> None then False
          else OriginSnapshot ds = r_SourceSnapshot r)"

section \<open>Jobs\<close>

record jobState =
  job_ID :: int
  job_State :: string
  job_Error :: string

definition decode_job :: "json \<Rightarrow> jobState option" where
  "decode_job j =
     (case j of
        JNull \<Rightarrow> Some \<lparr>job_ID = 0, job_State = [], job_Error = []\<rparr>
      | JObj kvs \<Rightarrow>
          (case (int_field ''id'' kvs, string_field ''state'' kvs, string_field ''error'' kvs) of
             (Some i, Some st, Some e) \<Rightarrow> Some \<lparr>job_ID = i, job_State = st, job_Error = e\<rparr>
           | _ \<Rightarrow> None)
      | _ \<Rightarrow> None)"

definition decode_int :: "json \<Rightarrow> int option" where
  "decode_int j = (case j of JNull \<Rightarrow> Some 0 | JInt n \<Rightarrow> if in_int64 n then Some n else None | _ \<Rightarrow> None)"

text \<open>
  The loop of \<^verbatim>\<open>waitForJob\<close>. \<open>tick\<close> is the \<^verbatim>\<open>select\<close> between the end of the context and the
  next tick of the poll timer, with the answer whether the context ended. The timer ticks every
  300 ms and the context ends after two minutes, so the context ends at the latest on the round
  after the 400th tick.
\<close>

definition jobPollInterval :: int where "jobPollInterval = 300000000"
definition jobTimeout :: int where "jobTimeout = 120000000000"
definition job_rounds :: nat where "job_rounds = 400"

fun poll_job :: "'s transport \<Rightarrow> ('s \<Rightarrow> bool \<times> 's) \<Rightarrow> nat \<Rightarrow> int \<Rightarrow> ('s, go_error, unit) op" where
  "poll_job call tick n i =
     tryE (CallJSON call (decode_list decode_job) ''core.get_jobs''
             [JArr [JArr [JStr ''id'', JStr ''='', JInt i]], JObj []]) (\<lambda>r.
       case r of
         Inl e \<Rightarrow> failE (Wrapped [e])
       | Inr jobs \<Rightarrow>
           if jobs \<noteq> [] \<and> job_State (hd jobs) = ''SUCCESS'' then retE ()
           else if jobs \<noteq> [] \<and> (job_State (hd jobs) = ''FAILED'' \<or> job_State (hd jobs) = ''ABORTED'')
                then failE (Plain (job_Error (hd jobs)))
           else (\<lambda>s. case tick s of
                   (True, s') \<Rightarrow> (Inl (Plain ''did not finish''), s')
                 | (False, s') \<Rightarrow>
                     (case n of
                        0 \<Rightarrow> (Inl (Plain ''did not finish''), s')
                      | Suc m \<Rightarrow> poll_job call tick m i s')))"

declare poll_job.simps [simp del]

definition waitForJob :: "'s transport \<Rightarrow> ('s \<Rightarrow> bool \<times> 's) \<Rightarrow> int \<Rightarrow> ('s, go_error, unit) op" where
  "waitForJob call tick i = poll_job call tick job_rounds i"

definition SetPerm ::
  "'s transport \<Rightarrow> ('s \<Rightarrow> bool \<times> 's) \<Rightarrow> string \<Rightarrow> string \<Rightarrow> int \<Rightarrow> int \<Rightarrow> ('s, go_error, unit) op" where
  "SetPerm call tick path mode uid gid =
     tryE (CallJSON call decode_int ''filesystem.setperm''
             [JObj [(''path'', JStr path), (''mode'', JStr mode), (''uid'', JInt uid), (''gid'', JInt gid),
                    (''options'', JObj [(''recursive'', JBool True), (''traverse'', JBool False)])]]) (\<lambda>r.
       case r of Inl e \<Rightarrow> failE (Wrapped [e]) | Inr jobID \<Rightarrow> waitForJob call tick jobID)"

section \<open>What these call\<close>

lemma calls_RecordIdentity:
  assumes "\<And>v. P (''pool.dataset.update'', [JStr dsPath, v])"
  shows "only_calls P (RecordIdentity (recording call) dsPath i)"
  unfolding RecordIdentity_def by (intro calls calls_DatasetUpdate assms)

lemma calls_stamp_all:
  assumes "\<And>v. P (''pool.dataset.update'', [JStr dsPath, v])"
  shows "only_calls P (stamp_all (recording call) dsPath ps)"
  by (induction ps) (auto intro!: calls calls_SetUserProperty assms)

lemma calls_waitForJob:
  assumes "only_calls P tick" "\<And>ps. P (''core.get_jobs'', ps)"
  shows "only_calls P (waitForJob (recording call) tick i)"
proof -
  have "only_calls P (poll_job (recording call) tick n i)" for n
  proof (induction n)
    case 0
    have "only_calls P (\<lambda>s. case tick s of (True, s') \<Rightarrow> (Inl (Plain ''did not finish''), s')
        | (False, s') \<Rightarrow> (case 0 of 0 \<Rightarrow> (Inl (Plain ''did not finish''), s') | Suc m \<Rightarrow> poll_job (recording call) tick m i s'))"
      using only_callsD [OF assms(1)] unfolding only_calls_def by (auto split: prod.splits bool.splits)
    then show ?case by (subst poll_job.simps) (intro calls only_calls_CallJSON assms)
  next
    case (Suc k)
    have "only_calls P (\<lambda>s. case tick s of (True, s') \<Rightarrow> (Inl (Plain ''did not finish''), s')
        | (False, s') \<Rightarrow> (case Suc k of 0 \<Rightarrow> (Inl (Plain ''did not finish''), s') | Suc m \<Rightarrow> poll_job (recording call) tick m i s'))"
      using only_callsD [OF assms(1)] only_calls_seq [OF assms(1) _ Suc]
      unfolding only_calls_def by (auto split: prod.splits bool.splits)
    then show ?case by (subst poll_job.simps) (intro calls only_calls_CallJSON assms)
  qed
  then show ?thesis unfolding waitForJob_def .
qed

lemma calls_SetPerm:
  assumes "only_calls P tick" "\<And>ps. P (''core.get_jobs'', ps)" "\<And>ps. P (''filesystem.setperm'', ps)"
  shows "only_calls P (SetPerm (recording call) tick path mode uid gid)"
  unfolding SetPerm_def by (intro calls only_calls_CallJSON calls_waitForJob assms)

end
