(* ===== verification/Params.thy ===== *)
theory Params
  imports Registry Attach Provision
begin

text \<open>
  The parameters of a StorageClass as \<^verbatim>\<open>internal/csi/controller.go\<close> reads them: which volume id
  a request names (\<open>resolveID\<close>), which keys are known, with the suggestion for a misspelt one, and
  the node capabilities a volume requires. The constants of \<^verbatim>\<open>internal/node\<close> that the controller
  names are here too. Request maps are association lists with distinct keys.
\<close>

type_synonym params = "(string \<times> string) list"

lemma in_set_put: "x \<in> set (put k v m) \<Longrightarrow> x = (k, v) \<or> x \<in> set m"
  by (induction k v m rule: put.induct) (auto split: if_splits)

section \<open>The volume a request names\<close>

definition namespaceFor :: "cfg_backend \<Rightarrow> params \<Rightarrow> string" where
  "namespaceFor b ps =
     (if \<not> nq_Enabled (cb_NamespaceQuotas b) then []
      else let ns = PVCNamespace (IdentityFrom (map_of ps))
           in if ns = [] then [] else case ValidateNamespace ns of Inl _ \<Rightarrow> [] | Inr _ \<Rightarrow> ns)"

text \<open>The backend a StorageClass selects: the one it names, or the only one configured.\<close>

definition select_backend :: "config \<Rightarrow> params \<Rightarrow> go_error + string \<times> cfg_backend" where
  "select_backend cfg ps =
     (let n = param (map_of ps) ''backend''
      in if n = [] \<and> length (cf_Backends cfg) \<noteq> 1 then Inl (Status InvalidArgument)
         else let name = (if n = [] then fst (hd (cf_Backends cfg)) else n)
              in case map_of (cf_Backends cfg) name of
                   None \<Rightarrow> Inl (Status InvalidArgument)
                 | Some b \<Rightarrow> Inr (name, b))"

definition resolveID :: "config \<Rightarrow> string \<Rightarrow> params \<Rightarrow> go_error + vol_id" where
  "resolveID cfg name ps =
     (case select_backend cfg ps of
        Inl e \<Rightarrow> Inl e
      | Inr (backendName, b) \<Rightarrow>
          let pool = param (map_of ps) ''pool''; parent = param (map_of ps) ''parentDataset'';
              proto = param (map_of ps) ''protocol''
          in if pool \<noteq> [] \<and> pool \<noteq> cb_Pool b then Inl (Status InvalidArgument)
             else if parent \<noteq> [] \<and> parent \<noteq> cb_ParentDataset b then Inl (Status InvalidArgument)
             else if proto = [] then Inl (Status InvalidArgument)
             else let i = \<lparr>id_Backend = backendName, id_Protocol = proto, id_Pool = cb_Pool b,
                           id_Parent = cb_ParentDataset b, id_Namespace = namespaceFor b ps, id_Name = name\<rparr>
                  in case Confine i (cb_Pool b) (cb_ParentDataset b) of
                       Inl _ \<Rightarrow> Inl (Status InvalidArgument)
                     | Inr _ \<Rightarrow> Inr i)"

section \<open>Known parameters\<close>

definition commonParameters :: "string list" where
  "commonParameters = [''backend'', ''protocol'', ''pool'', ''parentDataset'', ''fsType'', ''multipath'']"

definition NodeParameterKeys :: "string list" where
  "NodeParameterKeys = [''bandwidthLimit'', ''readBandwidthLimit'', ''writeBandwidthLimit'',
     ''iopsLimit'', ''readIOPSLimit'', ''writeIOPSLimit'']"

definition sensitivePublishKeys :: "string \<Rightarrow> bool" where
  "sensitivePublishKeys k \<longleftrightarrow> k = ''chapSecret'' \<or> k = ''password''"

text \<open>
  One row of the distance table from the row before it: \<open>left\<close> is the entry just written. The
  two slices of the code change places after each row, and every entry of the new row is
  overwritten, so a row is a new list here.
\<close>

fun edit_row :: "char \<Rightarrow> string \<Rightarrow> nat list \<Rightarrow> nat \<Rightarrow> nat list" where
  "edit_row x (y # ys) (p # q # ps) left =
     (let d = min (min (left + 1) (q + 1)) (p + (if x = y then 0 else 1)) in d # edit_row x ys (q # ps) d)"
| "edit_row x ys ps left = []"

fun edit_rows :: "nat \<Rightarrow> string \<Rightarrow> string \<Rightarrow> nat list \<Rightarrow> nat list" where
  "edit_rows i [] b prev = prev"
| "edit_rows i (x # xs) b prev = edit_rows (i + 1) xs b (i # edit_row x b prev i)"

definition editDistance :: "string \<Rightarrow> string \<Rightarrow> nat" where
  "editDistance a b = edit_rows 1 a b [0..<length b + 1] ! length b"

fun nearest :: "(nat \<Rightarrow> nat) \<Rightarrow> string \<Rightarrow> string \<times> nat \<Rightarrow> string list \<Rightarrow> string \<times> nat" where
  "nearest low got best [] = best"
| "nearest low got (best, bestDist) (cand # cands) =
     (let d = editDistance (ToLower low got) (ToLower low cand)
      in nearest low got (if best = [] \<or> d < bestDist then (cand, d) else (best, bestDist)) cands)"

definition nearestParameter :: "(nat \<Rightarrow> nat) \<Rightarrow> string \<Rightarrow> string list \<Rightarrow> string" where
  "nearestParameter low got accepted =
     (case nearest low got ([], 0) accepted of (best, bestDist) \<Rightarrow>
        if 0 < bestDist \<and> bestDist \<le> 1 + length got div 3 then best else [])"

definition known_parameters :: "string list \<Rightarrow> string list" where
  "known_parameters accepted = commonParameters @ accepted @ NodeParameterKeys"

definition unknown_parameters :: "string list \<Rightarrow> params \<Rightarrow> string list" where
  "unknown_parameters accepted ps =
     filter (\<lambda>k. \<not> has_prefix ''csi.storage.k8s.io/'' k \<and> k \<notin> set (known_parameters accepted)) (map fst ps)"

text \<open>The refusal carries the suggestion, the only part of its text that is computed.\<close>

definition requireKnownParameters :: "(nat \<Rightarrow> nat) \<Rightarrow> string list \<Rightarrow> params \<Rightarrow> go_error + unit" where
  "requireKnownParameters low accepted ps =
     (case sort_strings (unknown_parameters accepted ps) of
        [] \<Rightarrow> Inr ()
      | u # _ \<Rightarrow>
          Inl (WithStatus InvalidArgument
            (Plain (nearestParameter low u (sort_strings (remdups (known_parameters accepted)))))))"

section \<open>Topology\<close>

definition topologyPrefix :: string where "topologyPrefix = ''csi.truenas.watteel.com/''"

definition TopologyKey :: "string \<Rightarrow> string" where
  "TopologyKey c = topologyPrefix @ c"

definition BackendTopologyKey :: "string \<Rightarrow> string" where
  "BackendTopologyKey name = topologyPrefix @ ''backend-'' @ name"

definition capability_name :: "node_capability \<Rightarrow> string" where
  "capability_name c = (case c of CapExt4 \<Rightarrow> ''ext4'' | CapXFS \<Rightarrow> ''xfs'')"

fun capabilityFSType :: "capability list \<Rightarrow> string" where
  "capabilityFSType [] = []"
| "capabilityFSType (c # cs) = (if cap_FsType c \<noteq> [] then cap_FsType c else capabilityFSType cs)"

definition requiredTopology :: "string \<Rightarrow> string \<Rightarrow> params \<Rightarrow> capability list \<Rightarrow> params" where
  "requiredTopology backendName protocol ps caps =
     (let seg0 = [(TopologyKey protocol, ''true'')];
          seg1 = (if backendName \<noteq> [] then put (BackendTopologyKey backendName) ''true'' seg0 else seg0);
          fs0 = capabilityFSType caps;
          fs = (if fs0 = [] then param (map_of ps) ''fsType'' else fs0);
          seg2 = (case CapabilityForFS fs of
                    Some c \<Rightarrow> put (TopologyKey (capability_name c)) ''true'' seg1
                  | None \<Rightarrow> if fs = [] \<and> (protocol = ''iscsi'' \<or> protocol = ''nvme'')
                            then put (TopologyKey ''ext4'') ''true'' seg1 else seg1)
      in if param (map_of ps) ''multipath'' = ''true'' then put (TopologyKey ''multipath'') ''true'' seg2 else seg2)"

record topology_requirement =
  tr_Requisite :: "params list"
  tr_Preferred :: "params list"

text \<open>A candidate serves a volume unless it publishes a required key with another value.\<close>

definition serves :: "params \<Rightarrow> params \<Rightarrow> bool" where
  "serves wanted have \<longleftrightarrow>
     list_all (\<lambda>(k, v). case map_of have k of None \<Rightarrow> True | Some got \<Rightarrow> got = v) wanted"

definition requireTopologyReachable :: "topology_requirement option \<Rightarrow> params \<Rightarrow> go_error + unit" where
  "requireTopologyReachable req wanted =
     (case req of
        None \<Rightarrow> Inr ()
      | Some r \<Rightarrow>
          let candidates = (if tr_Requisite r = [] then tr_Preferred r else tr_Requisite r)
          in if candidates = [] then Inr ()
             else if list_ex (serves wanted) candidates then Inr () else Inl (Status ResourceExhausted))"

section \<open>The suggestion is a nearest key\<close>

text \<open>The reference: one insertion, deletion or replacement anywhere in a string.\<close>

inductive edit1 :: "string \<Rightarrow> string \<Rightarrow> bool" where
  insert: "edit1 (u @ v) (u @ c # v)"
| delete: "edit1 (u @ c # v) (u @ v)"
| replace: "edit1 (u @ c # v) (u @ d # v)"

text \<open>An alignment of two strings and its cost.\<close>

inductive align :: "nat \<Rightarrow> string \<Rightarrow> string \<Rightarrow> bool" where
  nil: "align 0 [] []"
| del: "align n a b \<Longrightarrow> align (n + 1) (x # a) b"
| ins: "align n a b \<Longrightarrow> align (n + 1) a (y # b)"
| sub: "align n a b \<Longrightarrow> align (n + (if x = y then 0 else 1)) (x # a) (y # b)"

lemma align_append: "align n a b \<Longrightarrow> align m c d \<Longrightarrow> align (n + m) (a @ c) (b @ d)"
proof (induction rule: align.induct)
  case (sub n a b x y)
  then show ?case using align.sub [of "n + m" "a @ c" "b @ d" x y] by (simp add: ac_simps)
qed (use align.del align.ins in \<open>fastforce+\<close>)

lemma align_one: "align 1 [x] []" "align 1 [] [y]" "align (if x = y then 0 else 1) [x] [y]"
  using align.del [OF align.nil, of x] align.ins [OF align.nil, of y] align.sub [OF align.nil, of x y] by simp_all

lemma align_rev: "align n a b \<Longrightarrow> align n (rev a) (rev b)"
proof (induction rule: align.induct)
  case (sub n a b x y)
  then show ?case using align_append [OF sub.IH align_one(3) [of x y]] by simp
qed (use align.nil align_append [OF _ align_one(1)] align_append [OF _ align_one(2)] in fastforce)+

lemma align_split: "align n a (u @ v) \<Longrightarrow> \<exists>k l a1 a2. a = a1 @ a2 \<and> n = k + l \<and> align k a1 u \<and> align l a2 v"
proof (induction n a "u @ v" arbitrary: u rule: align.induct)
  case nil
  then show ?case using align.nil by auto
next
  case (del n a x)
  then obtain k l a1 a2 where "a = a1 @ a2" "n = k + l" "align k a1 u" "align l a2 v" by blast
  then have "x # a = (x # a1) @ a2" "n + 1 = (k + 1) + l" "align (k + 1) (x # a1) u" "align l a2 v"
    using align.del by auto
  then show ?case by blast
next
  case (ins n a b y)
  show ?case
  proof (cases u)
    case Nil
    then have "align (n + 1) a v" using align.ins [OF ins(1), of y] ins(3) by simp
    then show ?thesis using Nil align.nil by (metis add.left_neutral append_Nil)
  next
    case (Cons z u')
    then obtain k l a1 a2 where "a = a1 @ a2" "n = k + l" "align k a1 u'" "align l a2 v" using ins by auto
    then have "a = a1 @ a2" "n + 1 = (k + 1) + l" "align (k + 1) a1 u" "align l a2 v"
      using align.ins Cons by auto
    then show ?thesis by blast
  qed
next
  case (sub n a b x y)
  show ?case
  proof (cases u)
    case Nil
    then have "align (n + (if x = y then 0 else 1)) (x # a) v"
      using align.sub [OF sub(1), of x y] sub(3) by simp
    then show ?thesis using Nil align.nil by (metis add.left_neutral append_Nil)
  next
    case (Cons z u')
    then obtain k l a1 a2 where "a = a1 @ a2" "n = k + l" "align k a1 u'" "align l a2 v" using sub by auto
    then have "x # a = (x # a1) @ a2" "n + (if x = y then 0 else 1) = (k + (if x = y then 0 else 1)) + l"
      "align (k + (if x = y then 0 else 1)) (x # a1) u" "align l a2 v"
      using align.sub Cons sub(3) by auto
    then show ?thesis by blast
  qed
qed

lemma align_refl: "align 0 a a"
proof (induction a)
  case (Cons x a)
  show ?case using align.sub [OF Cons, of x x] by simp
qed (rule align.nil)

lemma align_replace: "align n a [c] \<Longrightarrow> \<exists>m \<le> n + 1. align m a [d]"
proof (induction n a "[c]" rule: align.induct)
  case (del n a x)
  then obtain m where "m \<le> n + 1" "align m a [d]" by blast
  then show ?case using align.del [of m a "[d]" x] by (intro exI [of _ "m + 1"]) simp
next
  case (ins n a)
  then show ?case using align.ins [of n a "[]" d] by (intro exI [of _ "n + 1"]) simp
next
  case (sub n a x)
  then show ?case using align.sub [of n a "[]" x d] by (intro exI [of _ "n + (if x = d then 0 else 1)"]) simp
qed

lemma align_edit1:
  assumes "edit1 b c" "align n a b"
  shows "\<exists>m \<le> n + 1. align m a c"
  using assms
proof (cases rule: edit1.cases)
  case (insert u v x)
  then obtain k l a1 a2 where s: "a = a1 @ a2" "n = k + l" "align k a1 u" "align l a2 v"
    using align_split [of n a u v] assms(2) by auto
  have "align (k + (1 + l)) (a1 @ ([] @ a2)) (u @ ([x] @ v))"
    by (intro align_append s(3,4) align_one)
  then show ?thesis using s insert by (intro exI [of _ "n + 1"]) simp
next
  case (delete u x v)
  then obtain k l a1 a2 where s: "a = a1 @ a2" "n = k + l" "align k a1 u" "align l a2 ([x] @ v)"
    using align_split [of n a u "x # v"] assms(2) by auto
  obtain k' l' a3 a4 where r: "a2 = a3 @ a4" "l = k' + l'" "align k' a3 [x]" "align l' a4 v"
    using align_split [OF s(4)] by blast
  have "\<exists>m \<le> k' + 1. align m a3 []"
    using r(3)
  proof (induction k' a3 "[x]" rule: align.induct)
    case (del n a z)
    then obtain m where "m \<le> n + 1" "align m a []" by blast
    then show ?case using align.del [of m a "[]" z] by (intro exI [of _ "m + 1"]) simp
  next
    case (ins n a)
    then show ?case by (intro exI [of _ n]) simp
  next
    case (sub n a z)
    then show ?case using align.del [of n a "[]" z] by (intro exI [of _ "n + 1"]) simp
  qed
  then obtain m where "m \<le> k' + 1" "align m a3 []" by blast
  moreover from this have "align (k + (m + l')) (a1 @ (a3 @ a4)) (u @ ([] @ v))" by (intro align_append s(3) r(4))
  ultimately show ?thesis using s r delete by (intro exI [of _ "k + (m + l')"]) simp
next
  case (replace u x v y)
  then obtain k l a1 a2 where s: "a = a1 @ a2" "n = k + l" "align k a1 u" "align l a2 ([x] @ v)"
    using align_split [of n a u "x # v"] assms(2) by auto
  obtain k' l' a3 a4 where r: "a2 = a3 @ a4" "l = k' + l'" "align k' a3 [x]" "align l' a4 v"
    using align_split [OF s(4)] by blast
  obtain m where "m \<le> k' + 1" "align m a3 [y]" using align_replace [OF r(3)] by blast
  moreover from this have "align (k + (m + l')) (a1 @ (a3 @ a4)) (u @ ([y] @ v))" by (intro align_append s(3) r(4))
  ultimately show ?thesis using s r replace by (intro exI [of _ "k + (m + l')"]) simp
qed

lemma edits_align: "(edit1 ^^ n) a b \<Longrightarrow> \<exists>m \<le> n. align m a b"
proof (induction n arbitrary: b)
  case 0
  then show ?case using align_refl by simp
next
  case (Suc n)
  then obtain c where c: "(edit1 ^^ n) a c" "edit1 c b" by (auto elim: relpowp_Suc_E)
  obtain m where "m \<le> n" "align m a c" using Suc.IH [OF c(1)] by blast
  moreover obtain k where "k \<le> m + 1" "align k a b" using align_edit1 [OF c(2) \<open>align m a c\<close>] by blast
  ultimately show ?case by (intro exI [of _ k]) simp
qed

lemma edit1_Cons: "edit1 a b \<Longrightarrow> edit1 (x # a) (x # b)"
proof (induction rule: edit1.induct)
  case (insert u v c)
  then show ?case using edit1.insert [of "x # u" v c] by simp
next
  case (delete u c v)
  then show ?case using edit1.delete [of "x # u" c v] by simp
next
  case (replace u c v d)
  then show ?case using edit1.replace [of "x # u" c v d] by simp
qed

lemma edits_Cons: "(edit1 ^^ n) a b \<Longrightarrow> (edit1 ^^ n) (x # a) (x # b)"
  by (induction n arbitrary: b) (auto elim!: relpowp_Suc_E intro: edit1_Cons relpowp_Suc_I)

lemma align_edits: "align n a b \<Longrightarrow> (edit1 ^^ n) a b"
proof (induction rule: align.induct)
  case (del n a b x)
  have "edit1 (x # a) a" using edit1.delete [of "[]" x a] by simp
  then show ?case using del.IH relpowp_Suc_I2 [of edit1 "x # a" a n b] by simp
next
  case (ins n a b y)
  have "edit1 b (y # b)" using edit1.insert [of "[]" b y] by simp
  then show ?case using ins.IH relpowp_Suc_I [of n edit1 a b "y # b"] by simp
next
  case (sub n a b x y)
  have "edit1 (x # a) (y # a)" using edit1.replace [of "[]" x a y] by simp
  then show ?case using edits_Cons [OF sub.IH, of y] relpowp_Suc_I2 [of edit1 "x # a" "y # a" n "y # b"]
    by (cases "x = y") simp_all
qed simp

text \<open>The recurrence the table computes, on the heads of the strings and on their ends.\<close>

fun lev :: "string \<Rightarrow> string \<Rightarrow> nat" where
  "lev [] b = length b"
| "lev a [] = length a"
| "lev (x # a) (y # b) =
     min (min (lev (x # a) b + 1) (lev a (y # b) + 1)) (lev a b + (if x = y then 0 else 1))"

lemma lev_Nil2 [simp]: "lev a [] = length a"
  by (cases a) simp_all

lemma lev_del: "lev (x # a) b \<le> lev a b + 1"
  by (cases b) simp_all

lemma lev_ins: "lev a (y # b) \<le> lev a b + 1"
  by (cases a) simp_all

lemma lev_le: "align n a b \<Longrightarrow> lev a b \<le> n"
proof (induction rule: align.induct)
  case (del n a b x)
  then show ?case using lev_del [of x a b] by simp
next
  case (ins n a b y)
  then show ?case using lev_ins [of a y b] by simp
qed simp_all

lemma align_lev: "align (lev a b) a b"
proof (induction a b rule: lev.induct)
  case (1 b)
  show ?case by (induction b) (use align.nil align.ins in fastforce)+
next
  case (2 x a)
  have "align (length c) c []" for c :: string by (induction c) (use align.nil align.del in fastforce)+
  from this [of "x # a"] show ?case by simp
next
  case (3 x a y b)
  then show ?case
    using align.ins [OF 3(1), of y] align.del [OF 3(2), of x] align.sub [OF 3(3), of x y]
    by (simp add: min_def split del: if_split split: if_split)
qed

lemma lev_rev: "lev (rev a) (rev b) = lev a b"
  using lev_le [OF align_rev [OF align_lev [of a b]]] lev_le [OF align_rev [OF align_lev [of "rev a" "rev b"]]] by simp

lemma lev_snoc:
  "lev (a @ [x]) (b @ [y]) =
     min (min (lev (a @ [x]) b + 1) (lev a (b @ [y]) + 1)) (lev a b + (if x = y then 0 else 1))"
  using lev.simps(3) [of x "rev a" y "rev b"] lev_rev [of "a @ [x]" "b @ [y]"] lev_rev [of "a @ [x]" b]
    lev_rev [of a "b @ [y]"] lev_rev [of a b] by simp

lemma edit_row_lev:
  "edit_row x ys (map (\<lambda>j. lev a (take j (pre @ ys))) [length pre..<length (pre @ ys) + 1]) (lev (a @ [x]) pre) =
     map (\<lambda>j. lev (a @ [x]) (take j (pre @ ys))) [length pre + 1..<length (pre @ ys) + 1]"
proof (induction ys arbitrary: pre)
  case (Cons y ys)
  let ?n = "length (pre @ y # ys) + 1" and ?k = "length pre"
  have up: "[?k..<?n] = ?k # (?k + 1) # [?k + 2..<?n]" "[?k + 1..<?n] = (?k + 1) # [?k + 2..<?n]"
    by (simp_all add: upt_conv_Cons del: upt_Suc)
  show ?case using Cons [of "pre @ [y]"] by (simp add: up Let_def lev_snoc upt_conv_Cons del: upt_Suc)
qed simp

lemma edit_rows_lev:
  "edit_rows (length a + 1) xs b (map (\<lambda>j. lev a (take j b)) [0..<length b + 1]) =
     map (\<lambda>j. lev (a @ xs) (take j b)) [0..<length b + 1]"
proof (induction xs arbitrary: a)
  case (Cons x xs)
  have "(length a + 1) # edit_row x b (map (\<lambda>j. lev a (take j b)) [0..<length b + 1]) (length a + 1) =
      map (\<lambda>j. lev (a @ [x]) (take j b)) [0..<length b + 1]"
    using edit_row_lev [of x b a "[]"] by (simp add: upt_conv_Cons del: upt_Suc)
  then show ?case using Cons [of "a @ [x]"] by (simp del: upt_Suc)
qed simp

lemma editDistance_lev: "editDistance a b = lev a b"
proof -
  have "map (\<lambda>j. lev [] (take j b)) [0..<length b + 1] = [0..<length b + 1]"
    by (rule nth_equalityI) (simp_all del: upt_Suc)
  then have "edit_rows 1 a b [0..<length b + 1] = map (\<lambda>j. lev a (take j b)) [0..<length b + 1]"
    using edit_rows_lev [of "[]" a b] by simp
  then show ?thesis by (simp add: editDistance_def del: upt_Suc)
qed

text \<open>
  C35. The table computes the edit distance: the least number of single insertions, deletions
  and replacements that turn one string into the other.
\<close>

theorem editDistance_least: "editDistance a b = (LEAST n. (edit1 ^^ n) a b)"
proof (rule Least_equality [symmetric])
  show "(edit1 ^^ editDistance a b) a b"
    unfolding editDistance_lev by (rule align_edits [OF align_lev])
  show "editDistance a b \<le> n" if "(edit1 ^^ n) a b" for n
    unfolding editDistance_lev using edits_align [OF that] lev_le by (meson le_trans)
qed

text \<open>The suggestion is one of the keys, and no key is nearer to what was written.\<close>

lemma nearest_best:
  assumes "nearest low got (best, d) cands = (b, e)" "best \<noteq> [] \<longrightarrow> d = far best" "[] \<notin> set cands"
    and far: "\<And>c. far c = editDistance (ToLower low got) (ToLower low c)"
  shows "(b = best \<or> b \<in> set cands) \<and> (b \<noteq> [] \<longrightarrow> e = far b) \<and> (\<forall>c \<in> set cands. b \<noteq> [] \<and> e \<le> far c)
    \<and> (best \<noteq> [] \<longrightarrow> b \<noteq> [] \<and> e \<le> d)"
  using assms(1-3)
proof (induction cands arbitrary: best d)
  case (Cons c cs)
  let ?new = "best = [] \<or> far c < d"
  from Cons.prems(1) have step: "nearest low got (if ?new then (c, far c) else (best, d)) cs = (b, e)"
    by (auto simp: Let_def far split: if_splits)
  show ?case
  proof (cases ?new)
    case True
    with step Cons.prems show ?thesis using Cons.IH [of c "far c"] by (auto dest: order.strict_implies_order)
  next
    case False
    with step Cons.prems show ?thesis using Cons.IH [of best d] by auto
  qed
qed auto

lemma nearestParameter_best:
  assumes "nearestParameter low got accepted = b" "b \<noteq> []" "[] \<notin> set accepted"
  shows "b \<in> set accepted \<and>
    (\<forall>c \<in> set accepted. editDistance (ToLower low got) (ToLower low b) \<le> editDistance (ToLower low got) (ToLower low c))"
proof -
  let ?far = "\<lambda>c. editDistance (ToLower low got) (ToLower low c)"
  obtain b' e where n: "nearest low got ([], 0) accepted = (b', e)" by (meson surj_pair)
  with assms(1,2) have "b' = b" by (simp add: nearestParameter_def split: if_splits)
  with nearest_best [OF n, of ?far] assms(2,3) show ?thesis by auto
qed

lemma resolveID_confined:
  assumes "resolveID cfg name ps = Inr i"
  obtains b where "map_of (cf_Backends cfg) (id_Backend i) = Some b"
    "Confine i (cb_Pool b) (cb_ParentDataset b) = Inr ()" "id_Name i = name"
    "id_Namespace i \<noteq> [] \<Longrightarrow> nq_Enabled (cb_NamespaceQuotas b) \<and> ValidateNamespace (id_Namespace i) = Inr ()"
  using assms
  by (auto simp: resolveID_def Let_def select_backend_def namespaceFor_def split: sum.splits if_splits option.splits)

section \<open>The service\<close>

record 's backend =
  be_Create :: "CreateRequest \<Rightarrow> ('s, go_error, Volume) op"
  be_Delete :: "vol_id \<Rightarrow> ('s, go_error, unit) op"
  be_Expand :: "vol_id \<Rightarrow> int \<Rightarrow> ('s, go_error, int) op"
  be_PublishContext :: "vol_id \<Rightarrow> ('s, go_error, params) op"
  be_AcceptedParameters :: "string list"
  be_MinimumCapacityBytes :: int

text \<open>
  What the handlers reach: the configuration, the registry's clients through the controller of
  the publishing half, the backends it builds, the clock, and the case tables beyond ASCII.
\<close>

record 's service =
  sv_Config :: config
  sv_Controller :: "'s controller"
  sv_For :: "string \<Rightarrow> string \<Rightarrow> ('s, go_error, 's backend) op"
  sv_Now :: "'s \<Rightarrow> int \<times> 's"
  sv_Lower :: "nat \<Rightarrow> nat"
  sv_Upper :: "nat \<Rightarrow> nat"

definition sv_Client :: "'s service \<Rightarrow> string \<Rightarrow> ('s, go_error, 's transport) op" where
  "sv_Client c = ctl_Client (sv_Controller c)"

definition sv_reg :: "'s service \<Rightarrow> 's registry" where
  "sv_reg c = \<lparr>reg_Config = sv_Config c, reg_Client = sv_Client c\<rparr>"

text \<open>Every client the service obtains speaks through the given transport.\<close>

definition dials :: "'s service \<Rightarrow> 's transport \<Rightarrow> bool" where
  "dials c call \<longleftrightarrow> (\<forall>b. sv_Client c b = retE call \<or> (\<exists>e. sv_Client c b = failE e))"

end
