(* ===== verification/Statuses.thy ===== *)
theory Statuses
  imports Params
begin

text \<open>
  The errors of the handlers. A handler answers a call of the container orchestrator with a gRPC
  code, and the code decides whether the call is repeated: \<open>coded m\<close> says that every error of \<open>m\<close>
  carries one. One rule per way of sequencing makes the statement compositional.
\<close>

definition coded :: "('s, go_error, 'a) op \<Rightarrow> bool" where
  "coded m \<longleftrightarrow> (\<forall>s e s'. m s = (Inl e, s') \<longrightarrow> status_Code e \<noteq> Unknown)"

named_theorems coded_rules \<open>operations whose errors carry a gRPC code\<close>

lemma status_Code_simps [simp]: "status_Code (Status c) = c" "status_Code (WithStatus c e) = c"
  by (simp_all add: status_Code_def)

lemma toStatus_coded [simp]: "status_Code (toStatus e) \<noteq> Unknown"
  by (simp add: toStatus_def)

lemma coded_basic [coded_rules]: "coded (retE x)" "status_Code e \<noteq> Unknown \<Longrightarrow> coded (failE e)"
  by (simp_all add: coded_def retE_def failE_def)

lemma coded_liftE [coded_rules]: "(\<And>e. r = Inl e \<Longrightarrow> status_Code e \<noteq> Unknown) \<Longrightarrow> coded (liftE r)"
  by (simp add: coded_def liftE_def)

lemma coded_on_err [coded_rules]: "(\<And>e. status_Code (f e) \<noteq> Unknown) \<Longrightarrow> coded (on_err f m)"
  by (auto simp: coded_def on_err_def tryE_def retE_def failE_def split: prod.splits sum.splits)

lemma coded_bindE [coded_rules]: "coded m \<Longrightarrow> (\<And>x. coded (k x)) \<Longrightarrow> coded (bindE m k)"
  unfolding coded_def bindE_def by (fastforce split: prod.splits sum.splits)

lemma coded_tryE [coded_rules]: "(\<And>r. coded (k r)) \<Longrightarrow> coded (tryE m k)"
  unfolding coded_def tryE_def by (fastforce split: prod.splits)

lemma coded_with_lock [coded_rules]: "coded m \<Longrightarrow> coded (with_lock i m)"
  by (auto simp: coded_def with_lock_def split: option.splits prod.splits)

lemma coded_cases [coded_rules]:
  "(\<And>e. r = Inl e \<Longrightarrow> coded (f e)) \<Longrightarrow> (\<And>x. r = Inr x \<Longrightarrow> coded (g x)) \<Longrightarrow>
     coded (case r of Inl e \<Rightarrow> f e | Inr x \<Rightarrow> g x)"
  "(o' = None \<Longrightarrow> coded a) \<Longrightarrow> (\<And>x. o' = Some x \<Longrightarrow> coded (h x)) \<Longrightarrow> coded (case o' of None \<Rightarrow> a | Some x \<Rightarrow> h x)"
  "(c \<Longrightarrow> coded a) \<Longrightarrow> (\<not> c \<Longrightarrow> coded b) \<Longrightarrow> coded (if c then a else b)"
  "(\<And>x y. q = (x, y) \<Longrightarrow> coded (m x y)) \<Longrightarrow> coded (case q of (x, y) \<Rightarrow> m x y)"
  by (simp_all split: sum.split option.split prod.split)

lemma codedD: "coded m \<Longrightarrow> m s = (Inl e, s') \<Longrightarrow> status_Code e \<noteq> Unknown"
  unfolding coded_def by blast

lemma coded_publishing [coded_rules]:
  "coded (requireVolumeExists c i)" "coded (ControllerPublishVolume c' req)"
  "coded (ControllerUnpublishVolume c' v n)" "coded (ValidateVolumeCapabilities c v caps)"
  for c :: "'s controller" and c' :: "'t controller"
proof -
  show exists: "coded (requireVolumeExists c i)" for c :: "'u controller" and i
    unfolding requireVolumeExists_def by (intro coded_rules) simp_all
  have pub: "coded (ctl_publisher c i)" for c :: "'t controller" and i
    unfolding ctl_publisher_def by (intro coded_rules) simp_all
  have loop: "coded (unpublish_nodes c p i ns g)" for c :: "'t controller" and p i ns g
    by (induction ns arbitrary: g)
      (simp_all add: coded_basic, intro coded_bindE coded_on_err, simp_all add: node_of_ledger_def coded_tryE
        coded_cases coded_basic Let_def split: sum.split)
  have "coded (publish_body c i n mode)" for c :: "'t controller" and i n mode
    unfolding publish_body_def grant_access_def by (intro coded_rules exists pub) simp_all
  then show "coded (ControllerPublishVolume c' req)"
    unfolding ControllerPublishVolume_def Let_def by (intro coded_rules) simp_all
  have "coded (unpublish_body c i n)" for c :: "'t controller" and i n
    unfolding unpublish_body_def Let_def by (intro coded_rules exists pub loop) simp_all
  then show "coded (ControllerUnpublishVolume c' v n)"
    unfolding ControllerUnpublishVolume_def by (intro coded_rules) simp_all
  show "coded (ValidateVolumeCapabilities c v caps)"
    unfolding ValidateVolumeCapabilities_def by (intro coded_rules exists) simp_all
qed

end
