(* ===== verification/Modify.thy ===== *)
theory Modify
  imports Statuses
begin

text \<open>
  Changing the attributes of a live volume, \<^verbatim>\<open>internal/csi/modifyvolume.go\<close>, and the two handlers
  that report on one, \<^verbatim>\<open>internal/csi/volumehealth.go\<close>. The claim's VolumeAttributesClass is
  checked against a closed list before anything is looked up; the change is reduced to what
  differs, and only a dataset of the driver is ever changed.
\<close>

section \<open>Upper case and case folding\<close>

definition upper_char :: "char \<Rightarrow> char" where
  "upper_char c = (let n = (of_char c :: nat) in if 97 \<le> n \<and> n \<le> 122 then char_of (n - 32) else c)"

definition ToUpper :: "(nat \<Rightarrow> nat) \<Rightarrow> string \<Rightarrow> string" where
  "ToUpper up s =
     (if ascii s then map upper_char s
      else concat (map (\<lambda>(r, bs). if r < 128 then map upper_char bs else encode_rune (up r)) (rune_chunks s)))"

text \<open>
  \<^verbatim>\<open>strings.EqualFold\<close> against an ASCII string: beyond ASCII only the Kelvin sign and the long s fold
  to a letter of ASCII.
\<close>

definition fold_rune :: "nat \<Rightarrow> nat" where
  "fold_rune r = (if r = 0x212A then 107 else if r = 0x17F then 115 else if 65 \<le> r \<and> r \<le> 90 then r + 32 else r)"

definition EqualFold :: "string \<Rightarrow> string \<Rightarrow> bool" where
  "EqualFold s t \<longleftrightarrow> map fold_rune (runes s) = map fold_rune (runes t)"

section \<open>The closed list\<close>

record mutableProperty =
  mp_name :: string
  mp_filesystemOnly :: bool
  mp_values :: "string list"

definition inheritValue :: string where "inheritValue = ''INHERIT''"

definition compressionValues :: "string list" where
  "compressionValues =
     [''ON'', ''OFF'', ''LZ4'', ''GZIP'', ''GZIP-1'', ''GZIP-9'', ''ZSTD'', ''ZSTD-FAST'', ''ZLE'', ''LZJB'', inheritValue]
     @ map (\<lambda>i. ''ZSTD-'' @ FormatInt i) [1, 2, 3, 4, 5, 6, 7, 8, 9, 10, 11, 12, 13, 14, 15, 16, 17, 18, 19]
     @ map (\<lambda>i. ''ZSTD-FAST-'' @ FormatInt i)
         [1, 2, 3, 4, 5, 6, 7, 8, 9, 10, 20, 30, 40, 50, 60, 70, 80, 90, 100, 500, 1000]"

text \<open>The list spelt out, for evaluation.\<close>

lemma compressionValues_list [code]:
  "compressionValues = [
     ''ON'', ''OFF'', ''LZ4'', ''GZIP'', ''GZIP-1'', ''GZIP-9'', ''ZSTD'', ''ZSTD-FAST'', ''ZLE'',
      ''LZJB'', ''INHERIT'', ''ZSTD-1'', ''ZSTD-2'', ''ZSTD-3'', ''ZSTD-4'', ''ZSTD-5'', ''ZSTD-6'',
      ''ZSTD-7'', ''ZSTD-8'', ''ZSTD-9'', ''ZSTD-10'', ''ZSTD-11'', ''ZSTD-12'', ''ZSTD-13'', ''ZSTD-14'',
      ''ZSTD-15'', ''ZSTD-16'', ''ZSTD-17'', ''ZSTD-18'', ''ZSTD-19'', ''ZSTD-FAST-1'', ''ZSTD-FAST-2'',
      ''ZSTD-FAST-3'', ''ZSTD-FAST-4'', ''ZSTD-FAST-5'', ''ZSTD-FAST-6'', ''ZSTD-FAST-7'', ''ZSTD-FAST-8'',
      ''ZSTD-FAST-9'', ''ZSTD-FAST-10'', ''ZSTD-FAST-20'', ''ZSTD-FAST-30'', ''ZSTD-FAST-40'',
      ''ZSTD-FAST-50'', ''ZSTD-FAST-60'', ''ZSTD-FAST-70'', ''ZSTD-FAST-80'', ''ZSTD-FAST-90'',
      ''ZSTD-FAST-100'', ''ZSTD-FAST-500'', ''ZSTD-FAST-1000'']"
  by (simp add: compressionValues_def inheritValue_def FormatInt_def nat_str.simps digit_char_def)

definition mutableProperties :: "mutableProperty list" where
  "mutableProperties =
     [\<lparr>mp_name = ''sync'', mp_filesystemOnly = False, mp_values = [''STANDARD'', ''ALWAYS'', ''DISABLED'', inheritValue]\<rparr>,
      \<lparr>mp_name = ''compression'', mp_filesystemOnly = False, mp_values = compressionValues\<rparr>,
      \<lparr>mp_name = ''atime'', mp_filesystemOnly = True, mp_values = [''ON'', ''OFF'', inheritValue]\<rparr>,
      \<lparr>mp_name = ''recordsize'', mp_filesystemOnly = True,
       mp_values = [''512'', ''1K'', ''2K'', ''4K'', ''8K'', ''16K'', ''32K'', ''64K'', ''128K'', ''256K'',
         ''512K'', ''1M'', ''2M'', ''4M'', ''8M'', ''16M'', inheritValue]\<rparr>]"

definition lookupMutableProperty :: "string \<Rightarrow> mutableProperty option" where
  "lookupMutableProperty name = List.find (\<lambda>p. mp_name p = name) mutableProperties"

definition sortedKeys :: "params \<Rightarrow> string list" where
  "sortedKeys m = sort_strings (map fst m)"

text \<open>The loop of \<^verbatim>\<open>parseModification\<close> over the sorted keys.\<close>

fun parse_keys :: "(nat \<Rightarrow> nat) \<Rightarrow> params \<Rightarrow> string list \<Rightarrow> params \<Rightarrow> go_error + params" where
  "parse_keys up mutable [] props = Inr props"
| "parse_keys up mutable (key # keys) props =
     (case lookupMutableProperty key of
        None \<Rightarrow> Inl (Status InvalidArgument)
      | Some p \<Rightarrow>
          let want = ToUpper up (TrimSpace (param (map_of mutable) key))
          in if want \<notin> set (mp_values p) then Inl (Status InvalidArgument)
             else parse_keys up mutable keys (put key want props))"

definition parseModification :: "(nat \<Rightarrow> nat) \<Rightarrow> params \<Rightarrow> go_error + params" where
  "parseModification up mutable =
     (if mutable = [] then Inr [] else parse_keys up mutable (sortedKeys mutable) [])"

section \<open>Applying a change\<close>

definition propertyMatches :: "dataset \<Rightarrow> string \<Rightarrow> string \<Rightarrow> bool" where
  "propertyMatches ds key want =
     (case ZFSProperty (Some ds) key of (cur, known) \<Rightarrow>
        if \<not> known then False
        else if want = inheritValue then pr_Source cur \<noteq> [] \<and> pr_Source cur \<noteq> ''LOCAL''
        else EqualFold (pr_Value cur) want)"

fun patch_keys :: "dataset \<Rightarrow> params \<Rightarrow> string list \<Rightarrow> params \<Rightarrow> go_error + params" where
  "patch_keys ds props [] out = Inr out"
| "patch_keys ds props (key # keys) out =
     (let fsOnly = (case lookupMutableProperty key of Some p \<Rightarrow> mp_filesystemOnly p | None \<Rightarrow> False);
          want = param (map_of props) key
      in if fsOnly \<and> ds_Type ds = ''VOLUME'' then Inl (Status InvalidArgument)
         else patch_keys ds props keys (if propertyMatches ds key want then out else put key want out))"

definition patch :: "params \<Rightarrow> dataset \<Rightarrow> go_error + params" where
  "patch props ds = patch_keys ds props (sortedKeys props) []"

definition requireOwned :: "dataset option \<Rightarrow> go_error + unit" where
  "requireOwned ods =
     (case ods of
        None \<Rightarrow> Inl (Status NotFound)
      | Some ds \<Rightarrow>
          (case VerifyOwned (Some (asVolumeDataset ds)) of Inl _ \<Rightarrow> Inl (Status FailedPrecondition) | Inr _ \<Rightarrow> Inr ()))"

definition patch_json :: "params \<Rightarrow> json" where
  "patch_json p = JObj (map (\<lambda>(k, v). (k, JStr v)) p)"

definition applyModification ::
  "'s service \<Rightarrow> vol_id \<Rightarrow> dataset \<Rightarrow> params \<Rightarrow> ('s, go_error, unit) op" where
  "applyModification c i ds props =
     (if props = [] then retE ()
      else bindE (liftE (requireOwned (Some ds))) (\<lambda>_.
           bindE (liftE (patch props ds)) (\<lambda>p.
           if p = [] then retE ()
           else bindE (on_err toStatus (sv_Client c (id_Backend i))) (\<lambda>cl.
                bindE (on_err (\<lambda>_. Status Internal) (DatasetUpdate cl (DatasetPath i) (patch_json p))) (\<lambda>_. retE ())))))"

definition volumeDataset :: "'s service \<Rightarrow> vol_id \<Rightarrow> ('s, go_error, dataset) op" where
  "volumeDataset c i =
     (case map_of (cf_Backends (sv_Config c)) (id_Backend i) of
        None \<Rightarrow> failE (Status NotFound)
      | Some b \<Rightarrow>
          (case Confine i (cb_Pool b) (cb_ParentDataset b) of
             Inl _ \<Rightarrow> failE (Status NotFound)
           | Inr _ \<Rightarrow>
               bindE (on_err toStatus (sv_Client c (id_Backend i))) (\<lambda>cl.
               bindE (on_err toStatus (DatasetQuery cl (DatasetPath i))) (\<lambda>ds.
               case ds of None \<Rightarrow> failE (Status NotFound) | Some d \<Rightarrow> retE d))))"

definition ControllerModifyVolume ::
  "'s service \<Rightarrow> string \<Rightarrow> params \<Rightarrow> ('s \<times> string set, go_error, unit) op" where
  "ControllerModifyVolume c volumeID mutable =
     (if volumeID = [] then failE (Status InvalidArgument)
      else case parseModification (sv_Upper c) mutable of
             Inl e \<Rightarrow> failE e
           | Inr props \<Rightarrow>
               (case ParseID volumeID of
                  Inl _ \<Rightarrow> failE (Status NotFound)
                | Inr i \<Rightarrow>
                    with_lock (ID_String i)
                      (bindE (volumeDataset c i) (\<lambda>ds. applyModification c i ds props))))"

section \<open>Reporting on a volume\<close>

definition datasetCapacity :: "dataset \<Rightarrow> int" where
  "datasetCapacity ds = (if ds_Type ds = ''VOLUME'' then ds_VolSize ds else ds_RefQuota ds)"

definition ControllerGetVolume :: "'s service \<Rightarrow> string \<Rightarrow> ('s, go_error, int \<times> string list) op" where
  "ControllerGetVolume c volumeID =
     (if volumeID = [] then failE (Status InvalidArgument)
      else case ParseID volumeID of
             Inl _ \<Rightarrow> failE (Status NotFound)
           | Inr i \<Rightarrow>
               bindE (volumeDataset c i) (\<lambda>ds.
               bindE (on_err toStatus (liftE (DecodeGrants (LocalProperty ds PublishedProperty)))) (\<lambda>grants.
               retE (datasetCapacity ds, Nodes grants))))"

datatype condition = PoolDegraded | VolumeFull

definition applianceConditions :: "pool \<Rightarrow> dataset \<Rightarrow> condition list" where
  "applianceConditions p ds =
     (if \<not> po_Healthy p \<or> (po_Status p \<noteq> [] \<and> po_Status p \<noteq> ''ONLINE'') then [PoolDegraded] else [])
     @ (if ds_Type ds \<noteq> ''VOLUME'' \<and> 0 < ds_RefQuota ds \<and> ds_Available ds \<le> 0 then [VolumeFull] else [])"

definition ControllerGetVolumeHealth :: "'s service \<Rightarrow> string \<Rightarrow> ('s, go_error, condition list) op" where
  "ControllerGetVolumeHealth c volumeID =
     (if volumeID = [] then failE (Status InvalidArgument)
      else case ParseID volumeID of
             Inl _ \<Rightarrow> failE (Status NotFound)
           | Inr i \<Rightarrow>
               bindE (volumeDataset c i) (\<lambda>ds.
               bindE (on_err toStatus (liftE (reg_Backend (sv_Config c) (id_Backend i)))) (\<lambda>b.
               bindE (on_err toStatus (sv_Client c (id_Backend i))) (\<lambda>cl.
               bindE (on_err toStatus (PoolQuery cl (cb_Pool b))) (\<lambda>p.
               retE (applianceConditions p ds))))))"

section \<open>What may be changed\<close>

definition allowed :: "string \<times> string \<Rightarrow> bool" where
  "allowed kv \<longleftrightarrow> (\<exists>p. lookupMutableProperty (fst kv) = Some p \<and> snd kv \<in> set (mp_values p))"

lemma parse_keys_allowed:
  "parse_keys up mutable keys props = Inr out \<Longrightarrow> list_all allowed props \<Longrightarrow> list_all allowed out"
proof (induction keys arbitrary: props)
  case (Cons k ks)
  then obtain p where p: "lookupMutableProperty k = Some p"
    and want: "ToUpper up (TrimSpace (param (map_of mutable) k)) \<in> set (mp_values p)"
    and rest: "parse_keys up mutable ks (put k (ToUpper up (TrimSpace (param (map_of mutable) k))) props) = Inr out"
    by (auto simp: Let_def split: option.splits if_splits)
  show ?case by (rule Cons.IH [OF rest]) (use Cons.prems(2) p want in \<open>auto simp: list_all_iff allowed_def dest!: in_set_put\<close>)
qed simp

lemma parseModification_allowed: "parseModification up mutable = Inr props \<Longrightarrow> list_all allowed props"
  by (auto simp: parseModification_def dest: parse_keys_allowed split: if_splits)

lemma patch_keys_subset:
  "patch_keys ds props keys out = Inr p \<Longrightarrow> set keys \<subseteq> fst ` set props \<Longrightarrow> set out \<subseteq> set props \<Longrightarrow> set p \<subseteq> set props"
proof (induction keys arbitrary: out)
  case (Cons k ks)
  have "(k, param (map_of props) k) \<in> set props"
    using Cons.prems(2) by (auto simp: param_def dest: map_of_SomeD weak_map_of_SomeI split: option.splits)
  with Cons show ?case by (auto simp: Let_def dest!: in_set_put split: if_splits)
qed simp

lemma patch_subset: "patch props ds = Inr p \<Longrightarrow> set p \<subseteq> set props"
  unfolding patch_def by (erule patch_keys_subset) (auto simp: sortedKeys_def)

text \<open>A change that is already in place is dropped.\<close>

lemma patch_keys_done:
  "(\<And>k. k \<in> set keys \<Longrightarrow> propertyMatches ds k (param (map_of props) k)) \<Longrightarrow>
     patch_keys ds props keys [] = Inr p \<Longrightarrow> p = []"
  by (induction keys) (auto simp: Let_def split: if_splits)

lemma coded_patch_keys: "patch_keys ds props keys out = Inl e \<Longrightarrow> status_Code e \<noteq> Unknown"
  by (induction keys arbitrary: out) (auto simp: Let_def split: if_splits)

lemma coded_parse_keys: "parse_keys up mutable keys props = Inl e \<Longrightarrow> status_Code e \<noteq> Unknown"
  by (induction keys arbitrary: props) (auto simp: Let_def split: option.splits if_splits)

lemma coded_requireOwned: "requireOwned ods = Inl e \<Longrightarrow> status_Code e \<noteq> Unknown"
  by (auto simp: requireOwned_def split: option.splits sum.splits)

lemma coded_modify [coded_rules]:
  "coded (volumeDataset c i)" "coded (applyModification c i ds props)"
  "coded (ControllerModifyVolume c v m)" "coded (ControllerGetVolume c v)" "coded (ControllerGetVolumeHealth c v)"
proof -
  show ds: "coded (volumeDataset c i)" for i
    unfolding volumeDataset_def by (intro coded_rules) simp_all
  show app: "coded (applyModification c i ds props)" for i ds props
    unfolding applyModification_def patch_def
    by (intro coded_rules) (auto dest: coded_patch_keys coded_requireOwned)
  show "coded (ControllerModifyVolume c v m)"
    unfolding ControllerModifyVolume_def parseModification_def
    by (intro coded_rules ds app) (auto split: if_splits dest: coded_parse_keys)
  show "coded (ControllerGetVolume c v)" "coded (ControllerGetVolumeHealth c v)"
    unfolding ControllerGetVolume_def ControllerGetVolumeHealth_def by (intro coded_rules ds; simp)+
qed

text \<open>
  The call that changes a volume: the update of its dataset with allowed values only.
\<close>

definition modify_call :: "vol_id \<Rightarrow> string \<times> json list \<Rightarrow> bool" where
  "modify_call i mp \<longleftrightarrow>
     fst mp = ''pool.dataset.query''
     \<or> (\<exists>p. p \<noteq> [] \<and> list_all allowed p \<and> mp = (''pool.dataset.update'', [JStr (DatasetPath i), patch_json p]))"

lemma bind_sv_Client:
  assumes "dials c call"
  obtains "bindE (on_err f (sv_Client c b)) h = h call" | e where "bindE (on_err f (sv_Client c b)) h = failE (f e)"
  using assms unfolding dials_def
  by (elim allE [of _ b] disjE exE) (auto simp: on_err_def bindE_def tryE_def retE_def failE_def fun_eq_iff)

lemma only_calls_on_err [calls]: "only_calls P m \<Longrightarrow> only_calls P (on_err f m)"
  unfolding on_err_def by (intro calls)

lemma calls_sv_Client:
  assumes "dials c (recording call)" "only_calls P (h (recording call))"
  shows "only_calls P (bindE (on_err f (sv_Client c b)) h)"
  by (rule bind_sv_Client [OF assms(1), of f b h]) (auto simp: assms(2) only_calls_basic)

lemma calls_volumeDataset:
  assumes "dials c (recording call)"
  shows "only_calls (\<lambda>mp. fst mp = ''pool.dataset.query'') (volumeDataset c i)"
  unfolding volumeDataset_def by (intro calls calls_sv_Client [OF assms] calls_Query) simp

lemma volumeDataset_answer:
  assumes "dials c call" "volumeDataset c i s = (Inr ds, s')"
  shows "DatasetQuery call (DatasetPath i) s = (Inr (Some ds), s')"
proof -
  let ?h = "\<lambda>cl. bindE (on_err toStatus (DatasetQuery cl (DatasetPath i)))
    (\<lambda>ds. case ds of None \<Rightarrow> failE (Status NotFound) | Some d \<Rightarrow> retE d)"
  have run: "bindE (on_err toStatus (sv_Client c (id_Backend i))) ?h s = (Inr ds, s')"
    using assms(2) by (simp add: volumeDataset_def failE_def split: option.splits sum.splits)
  have "?h call s = (Inr ds, s')"
  proof (rule bind_sv_Client [OF assms(1), of toStatus "id_Backend i" ?h])
    assume "bindE (on_err toStatus (sv_Client c (id_Backend i))) ?h = ?h call"
    from run [unfolded this] show ?thesis .
  next
    fix e assume "bindE (on_err toStatus (sv_Client c (id_Backend i))) ?h = failE (toStatus e)"
    from run [unfolded this] show ?thesis by (simp add: failE_def)
  qed
  then show ?thesis
    by (auto simp: on_err_def bindE_def tryE_def retE_def failE_def split: prod.splits sum.splits option.splits)
qed

lemma calls_applyModification:
  assumes "dials c (recording call)" "list_all allowed props"
  shows "only_calls (modify_call i) (applyModification c i ds props)"
proof -
  have "only_calls (modify_call i) (bindE (on_err toStatus (sv_Client c (id_Backend i)))
      (\<lambda>cl. bindE (on_err (\<lambda>_. Status Internal) (DatasetUpdate cl (DatasetPath i) (patch_json p))) (\<lambda>_. retE ())))"
    if "patch props ds = Inr p" "p \<noteq> []" for p
  proof -
    have "list_all allowed p" using patch_subset [OF that(1)] assms(2) by (auto simp: list_all_iff)
    then show ?thesis
      using that(2) by (intro calls calls_sv_Client [OF assms(1)] calls_DatasetUpdate) (auto simp: modify_call_def)
  qed
  then show ?thesis
    unfolding applyModification_def liftE_def
    by (cases "requireOwned (Some ds)"; cases "patch props ds")
      (auto simp: bindE_def retE_def only_calls_def)
qed

text \<open>
  C31. A change of a volume's attributes makes one query and at most an update of the volume's
  own dataset, with keys and values from the closed list only, and no update at all unless the
  dataset the appliance answered with is one of the driver.
\<close>

theorem modify_only_allowed:
  assumes "dials c (recording call)"
    and run: "ControllerModifyVolume c v m ((s, rec), held) = (r, ((s', rec'), held'))"
  shows "\<exists>new. rec' = rec @ new \<and>
    (new \<noteq> [] \<longrightarrow> (\<exists>i. ParseID v = Inr i \<and> list_all (modify_call i) new \<and>
      (\<forall>ps. (''pool.dataset.update'', ps) \<in> set new \<longrightarrow>
        (\<exists>ds t. DatasetQuery (recording call) (DatasetPath i) (s, rec) = (Inr (Some ds), t)
           \<and> VerifyOwned (Some (asVolumeDataset ds)) = Inr ()))))"
proof (cases "\<exists>i props. ParseID v = Inr i \<and> parseModification (sv_Upper c) m = Inr props \<and> v \<noteq> []
    \<and> ID_String i \<notin> held")
  case False
  then have "rec' = rec"
    using run by (auto simp: ControllerModifyVolume_def with_lock_def TryAcquire_def failE_def split: sum.splits if_splits)
  then show ?thesis by simp
next
  case True
  then obtain i props where i: "ParseID v = Inr i" "parseModification (sv_Upper c) m = Inr props" "v \<noteq> []" "ID_String i \<notin> held"
    by blast
  let ?body = "bindE (volumeDataset c i) (\<lambda>ds. applyModification c i ds props)"
  have body: "?body (s, rec) = (r, (s', rec'))"
    using run i by (simp add: ControllerModifyVolume_def with_lock_def TryAcquire_def split: prod.splits)
  have props: "list_all allowed props" by (rule parseModification_allowed [OF i(2)])
  obtain q sl where q: "volumeDataset c i (s, rec) = (q, sl)" by (meson surj_pair)
  obtain new1 where new1: "snd sl = rec @ new1" "list_all (\<lambda>mp. fst mp = ''pool.dataset.query'') new1"
    using only_callsD [OF calls_volumeDataset [OF assms(1)] q] by auto
  have q1: "list_all (modify_call i) new1" "(''pool.dataset.update'', ps) \<notin> set new1" for ps
    using new1(2) by (auto simp: list_all_iff modify_call_def)
  show ?thesis
  proof (cases "\<exists>ds. q = Inr ds \<and> requireOwned (Some ds) = Inr ()")
    case False
    then have "(s', rec') = sl"
      using body q by (cases q) (auto simp: bindE_def applyModification_def liftE_def retE_def split: sum.splits if_splits)
    then show ?thesis using new1 q1 i(1) by (intro exI [of _ new1]) auto
  next
    case True
    then obtain ds where ds: "q = Inr ds" "requireOwned (Some ds) = Inr ()" by blast
    have "applyModification c i ds props sl = (r, (s', rec'))" using body q ds(1) by (simp add: bindE_def)
    then obtain new2 where new2: "rec' = snd sl @ new2" "list_all (modify_call i) new2"
      using only_callsD [OF calls_applyModification [OF assms(1) props]] by fastforce
    have "VerifyOwned (Some (asVolumeDataset ds)) = Inr ()"
      using ds(2) by (simp add: requireOwned_def split: sum.splits)
    moreover have "DatasetQuery (recording call) (DatasetPath i) (s, rec) = (Inr (Some ds), sl)"
      using volumeDataset_answer [OF assms(1)] q ds(1) by simp
    ultimately show ?thesis using new1(1) new2 q1(1) i(1) by (intro exI [of _ "new1 @ new2"]) auto
  qed
qed

end
