(* ===== verification/Snapshots.thy ===== *)
theory Snapshots
  imports Registry Calls
begin

text \<open>
  \<^verbatim>\<open>internal/backend/snapshot.go\<close> and \<^verbatim>\<open>internal/backend/groupsnapshot.go\<close>: snapshots of one volume and
  crash-consistent snapshots of several. A creation time is \<open>None\<close> when the appliance reported
  none, Go's zero time; \<open>now\<close> is the clock of the process.
\<close>

record Snapshot =
  ss_ID :: string
  ss_SourceVolumeID :: string
  ss_SizeBytes :: int
  ss_CreationTime :: "int option"
  ss_ReadyToUse :: bool

section \<open>Identifiers\<close>

definition snapshotID :: "string \<Rightarrow> string \<Rightarrow> string" where
  "snapshotID backendName zfsID = backendName @ ''/'' @ zfsID"

definition parseSnapshotID :: "string \<Rightarrow> go_error + string \<times> string" where
  "parseSnapshotID i =
     (case cut_on (CHR ''/'') i of (backendName, zfsID, found) \<Rightarrow>
        if \<not> found \<or> backendName = [] \<or> zfsID = [] then Inl (Status InvalidArgument)
        else if \<not> contains_str ''@'' zfsID then Inl (Status InvalidArgument)
        else Inr (backendName, zfsID))"

definition SnapshotSource :: "string \<Rightarrow> go_error + string \<times> string" where
  "SnapshotSource i = parseSnapshotID i"

definition splitSnapshotID :: "string \<Rightarrow> string \<times> string" where
  "splitSnapshotID zfsID =
     (case cut_last (CHR ''@'') zfsID of Some (dataset, name) \<Rightarrow> (dataset, name) | None \<Rightarrow> (zfsID, []))"

definition snapshotName :: "string \<Rightarrow> string" where
  "snapshotName zfsID = snd (splitSnapshotID zfsID)"

definition GroupSnapshotSource :: "string \<Rightarrow> go_error + string \<times> string \<times> string" where
  "GroupSnapshotSource i =
     (case parseSnapshotID i of
        Inl e \<Rightarrow> Inl e
      | Inr (b, zfsID) \<Rightarrow>
          (case splitSnapshotID zfsID of (ds, n) \<Rightarrow>
             if ds = [] \<or> n = [] then Inl (Status InvalidArgument) else Inr (b, ds, n)))"

definition pool_of :: "string \<Rightarrow> string" where
  "pool_of path = (case cut_on (CHR ''/'') path of (p, _, found) \<Rightarrow> if found \<and> p \<noteq> [] then p else path)"

section \<open>Snapshots of one volume\<close>

definition live_bytes :: "'s transport \<Rightarrow> string \<Rightarrow> ('s, go_error, int) op" where
  "live_bytes call dataset =
     tryE (DatasetQuery call dataset) (\<lambda>r.
       case r of
         Inr (Some ds) \<Rightarrow> retE (if 0 < ds_VolSize ds then ds_VolSize ds else ds_RefQuota ds)
       | _ \<Rightarrow> retE 0)"

definition provisionedBytes :: "'s transport \<Rightarrow> snapshot option \<Rightarrow> string \<Rightarrow> ('s, go_error, int) op" where
  "provisionedBytes call snap dataset =
     (case snap of
        Some sn \<Rightarrow> if 0 < sn_VolSize sn then retE (sn_VolSize sn) else live_bytes call dataset
      | None \<Rightarrow> live_bytes call dataset)"

definition get_now :: "('s \<Rightarrow> int \<times> 's) \<Rightarrow> ('s, go_error, int) op" where
  "get_now now s = (case now s of (t, s') \<Rightarrow> (Inr t, s'))"

definition reg_CreateSnapshot ::
  "'s registry \<Rightarrow> ('s \<Rightarrow> int \<times> 's) \<Rightarrow> vol_id \<Rightarrow> string \<Rightarrow> ('s, go_error, Snapshot) op" where
  "reg_CreateSnapshot r now source name =
     bindE (reg_Client r (id_Backend source)) (\<lambda>c.
       let ds = DatasetPath source; i = ds @ ''@'' @ name;
           answer = (\<lambda>size when. \<lparr>ss_ID = snapshotID (id_Backend source) i, ss_SourceVolumeID = ID_String source,
                       ss_SizeBytes = size, ss_CreationTime = when, ss_ReadyToUse = True\<rparr>)
       in tryE (SnapshotQuery c i) (\<lambda>q.
          case q of
            Inr (Some existing) \<Rightarrow>
              bindE (provisionedBytes c (Some existing) ds) (\<lambda>size. retE (answer size (CreationTime existing)))
          | _ \<Rightarrow>
              bindE (SnapshotCreate c ds name) (\<lambda>created.
              bindE (get_now now) (\<lambda>t.
              tryE (SnapshotQuery c i) (\<lambda>q.
                let (snap, when) = (case q of
                      Inr (Some sn) \<Rightarrow> (sn, case CreationTime sn of Some t' \<Rightarrow> t' | None \<Rightarrow> t)
                    | _ \<Rightarrow> (created, t))
                in bindE (provisionedBytes c (Some snap) ds) (\<lambda>size. retE (answer size (Some when))))))))"

definition reg_Snapshot :: "'s registry \<Rightarrow> string \<Rightarrow> ('s, go_error, Snapshot option) op" where
  "reg_Snapshot r i =
     bindE (liftE (parseSnapshotID i)) (\<lambda>(backendName, zfsID).
     bindE (reg_Client r backendName) (\<lambda>c.
     bindE (SnapshotQuery c zfsID) (\<lambda>q.
       case q of
         None \<Rightarrow> retE None
       | Some snap \<Rightarrow>
           bindE (provisionedBytes c (Some snap) (sn_Dataset snap)) (\<lambda>size.
           retE (Some \<lparr>ss_ID = i, ss_SourceVolumeID = sn_Dataset snap, ss_SizeBytes = size,
                       ss_CreationTime = CreationTime snap, ss_ReadyToUse = True\<rparr>)))))"

definition dependentClones :: "'s transport \<Rightarrow> string \<Rightarrow> ('s, go_error, string list) op" where
  "dependentClones c snapID =
     bindE (DatasetList c (pool_of snapID)) (\<lambda>ds.
     retE (map ds_ID (filter (\<lambda>d. OriginSnapshot d = snapID) ds)))"

definition reg_DeleteSnapshot :: "'s registry \<Rightarrow> string \<Rightarrow> ('s, go_error, unit) op" where
  "reg_DeleteSnapshot r i =
     bindE (liftE (parseSnapshotID i)) (\<lambda>(backendName, snapID).
     bindE (reg_Client r backendName) (\<lambda>c.
     bindE (SnapshotQuery c snapID) (\<lambda>q.
       case q of
         None \<Rightarrow> retE ()
       | Some _ \<Rightarrow>
           bindE (dependentClones c snapID) (\<lambda>clones.
           if clones \<noteq> [] then failE (Status FailedPrecondition) else SnapshotDelete c snapID))))"

definition reg_ListSnapshots :: "'s registry \<Rightarrow> string \<Rightarrow> ('s, go_error, Snapshot list) op" where
  "reg_ListSnapshots r backendName =
     bindE (liftE (reg_Backend (reg_Config r) backendName)) (\<lambda>b.
     bindE (reg_Client r backendName) (\<lambda>c.
       let prefix = cb_Pool b @ ''/'' @ cb_ParentDataset b
       in bindE (SnapshotList c prefix) (\<lambda>snaps.
          tryE (DatasetList c prefix) (\<lambda>q.
            let sources = (case q of Inl _ \<Rightarrow> [] | Inr ds \<Rightarrow> fold (\<lambda>d. put (ds_ID d) d) ds []);
                graveyard = PolicyFor b;
                kept = filter (\<lambda>s. \<not> (On graveyard \<and> ConfineToGraveyard graveyard (sn_Dataset s) = Inr ())) snaps
            in retE (map (\<lambda>s.
                 \<lparr>ss_ID = snapshotID backendName (sn_ID s), ss_SourceVolumeID = sn_Dataset s,
                  ss_SizeBytes = (if sn_VolSize s = 0
                     then case map_of sources (sn_Dataset s) of Some d \<Rightarrow> ds_RefQuota d | None \<Rightarrow> 0
                     else sn_VolSize s),
                  ss_CreationTime = CreationTime s, ss_ReadyToUse = True\<rparr>) kept)))))"

section \<open>Group snapshots\<close>

record GroupSnapshot =
  gs_ID :: string
  gs_Members :: "Snapshot list"
  gs_CreationTime :: "int option"
  gs_ReadyToUse :: bool

fun same_group :: "string \<Rightarrow> string \<Rightarrow> vol_id list \<Rightarrow> go_error + unit" where
  "same_group backendName parent [] = Inr ()"
| "same_group backendName parent (s # ss) =
     (if id_Backend s \<noteq> backendName then Inl (Status InvalidArgument)
      else if path_Dir (DatasetPath s) \<noteq> parent then Inl (Status FailedPrecondition)
      else same_group backendName parent ss)"

definition groupParent :: "'s registry \<Rightarrow> vol_id list \<Rightarrow> go_error + string" where
  "groupParent r sources =
     (case sources of
        [] \<Rightarrow> Inl (Status InvalidArgument)
      | s # ss \<Rightarrow>
          let parent = path_Dir (DatasetPath s)
          in case same_group (id_Backend s) parent ss of
               Inl e \<Rightarrow> Inl e
             | Inr _ \<Rightarrow>
                 (case reg_Backend (reg_Config r) (id_Backend s) of
                    Inl e \<Rightarrow> Inl e
                  | Inr b \<Rightarrow>
                      let want = cb_Pool b @ ''/'' @ cb_ParentDataset b
                      in if parent \<noteq> want \<and> path_Dir parent \<noteq> want then Inl (Status InvalidArgument) else Inr parent))"

definition CheckGroupSources :: "'s registry \<Rightarrow> vol_id list \<Rightarrow> go_error + unit" where
  "CheckGroupSources r sources = (case groupParent r sources of Inl e \<Rightarrow> Inl e | Inr _ \<Rightarrow> Inr ())"

text \<open>The dataset of a listed snapshot, taken from its id when the field is empty.\<close>

definition snap_dataset :: "snapshot \<Rightarrow> string" where
  "snap_dataset s = (if sn_Dataset s = [] then fst (splitSnapshotID (sn_ID s)) else sn_Dataset s)"

definition beneath :: "string \<Rightarrow> string \<Rightarrow> bool" where
  "beneath parent ds \<longleftrightarrow> ds = parent \<or> has_prefix (parent @ ''/'') ds"

fun delete_snapshots :: "'s transport \<Rightarrow> (go_error \<Rightarrow> go_error) \<Rightarrow> string list \<Rightarrow> ('s, go_error, unit) op" where
  "delete_snapshots c wrap [] = retE ()"
| "delete_snapshots c wrap (i # is) =
     tryE (SnapshotDelete c i) (\<lambda>r.
       case r of Inl e \<Rightarrow> failE (wrap e) | Inr _ \<Rightarrow> delete_snapshots c wrap is)"

definition trimNonMembers :: "'s transport \<Rightarrow> string \<Rightarrow> string \<Rightarrow> vol_id list \<Rightarrow> ('s, go_error, unit) op" where
  "trimNonMembers c parent name sources =
     tryE (SnapshotList c parent) (\<lambda>r.
       case r of
         Inl e \<Rightarrow> failE (Wrapped [e])
       | Inr snaps \<Rightarrow>
           delete_snapshots c (\<lambda>e. Wrapped [e])
             (map sn_ID (filter (\<lambda>s. snapshotName (sn_ID s) = name
                \<and> snap_dataset s \<noteq> parent \<and> snap_dataset s \<notin> DatasetPath ` set sources
                \<and> beneath parent (snap_dataset s)) snaps)))"

fun group_members ::
  "'s transport \<Rightarrow> string \<Rightarrow> string \<Rightarrow> int \<Rightarrow> vol_id list \<Rightarrow> ('s, go_error, Snapshot list) op" where
  "group_members c backendName name created [] = retE []"
| "group_members c backendName name created (s # ss) =
     (let memberZFS = DatasetPath s @ ''@'' @ name
      in tryE (SnapshotQuery c memberZFS) (\<lambda>q.
         let member = (case q of Inl _ \<Rightarrow> None | Inr m \<Rightarrow> m);
             when = (case member of None \<Rightarrow> created
                     | Some m \<Rightarrow> (case CreationTime m of Some t \<Rightarrow> t | None \<Rightarrow> created))
         in bindE (provisionedBytes c member (DatasetPath s)) (\<lambda>size.
            bindE (group_members c backendName name created ss) (\<lambda>rest.
            retE (\<lparr>ss_ID = snapshotID backendName memberZFS, ss_SourceVolumeID = ID_String s, ss_SizeBytes = size,
                   ss_CreationTime = Some when, ss_ReadyToUse = True\<rparr> # rest)))))"

text \<open>The snapshot that carries the group: taken now, and trimmed, unless it is already there.\<close>

definition group_anchor ::
  "'s transport \<Rightarrow> string \<Rightarrow> string \<Rightarrow> vol_id list \<Rightarrow> ('s, go_error, snapshot option) op" where
  "group_anchor c parent name sources =
     bindE (SnapshotQuery c (parent @ ''@'' @ name)) (\<lambda>existing.
       case existing of
         Some e \<Rightarrow> retE (Some e)
       | None \<Rightarrow>
           bindE (SnapshotCreateRecursive c parent name) (\<lambda>_.
           bindE (trimNonMembers c parent name sources) (\<lambda>_.
           tryE (SnapshotQuery c (parent @ ''@'' @ name)) (\<lambda>q.
             retE (case q of Inl _ \<Rightarrow> None | Inr a \<Rightarrow> a)))))"

definition reg_CreateGroupSnapshot ::
  "'s registry \<Rightarrow> ('s \<Rightarrow> int \<times> 's) \<Rightarrow> vol_id list \<Rightarrow> string \<Rightarrow> ('s, go_error, GroupSnapshot) op" where
  "reg_CreateGroupSnapshot r now sources name =
     bindE (liftE (groupParent r sources)) (\<lambda>parent.
       let backendName = id_Backend (hd sources)
       in bindE (reg_Client r backendName) (\<lambda>c.
          bindE (group_anchor c parent name sources) (\<lambda>anchor.
          bindE (get_now now) (\<lambda>t.
            let created = (case anchor of None \<Rightarrow> t | Some a \<Rightarrow> (case CreationTime a of Some t' \<Rightarrow> t' | None \<Rightarrow> t))
            in bindE (group_members c backendName name created sources) (\<lambda>members.
               retE \<lparr>gs_ID = snapshotID backendName (parent @ ''@'' @ name), gs_Members = members,
                     gs_CreationTime = Some created, gs_ReadyToUse = True\<rparr>)))))"

text \<open>Every snapshot of the group: the anchor and one for each dataset beneath it.\<close>

definition groupSnapshots :: "'s transport \<Rightarrow> string \<Rightarrow> ('s, go_error, snapshot list) op" where
  "groupSnapshots c groupZFS =
     (case splitSnapshotID groupZFS of (parent, name) \<Rightarrow>
        bindE (SnapshotList c parent) (\<lambda>snaps.
        retE (map (\<lambda>s. s\<lparr>sn_Dataset := snap_dataset s\<rparr>)
          (filter (\<lambda>s. snapshotName (sn_ID s) = name \<and> beneath parent (snap_dataset s)) snaps))))"

fun validateGroupMembers :: "string \<Rightarrow> string \<Rightarrow> string list \<Rightarrow> go_error + unit" where
  "validateGroupMembers backendName groupZFS [] = Inr ()"
| "validateGroupMembers backendName groupZFS (m # ms) =
     (case parseSnapshotID m of
        Inl e \<Rightarrow> Inl e
      | Inr (mBackend, mZFS) \<Rightarrow>
          (case (splitSnapshotID groupZFS, splitSnapshotID mZFS) of ((parent, name), (ds, mName)) \<Rightarrow>
             if mBackend \<noteq> backendName \<or> mName \<noteq> name \<or> \<not> has_prefix (parent @ ''/'') ds
             then Inl (Status InvalidArgument)
             else validateGroupMembers backendName groupZFS ms))"

fun group_found :: "'s transport \<Rightarrow> string \<Rightarrow> string \<Rightarrow> snapshot list \<Rightarrow> ('s, go_error, Snapshot list) op" where
  "group_found c backendName parent [] = retE []"
| "group_found c backendName parent (s # ss) =
     (if sn_Dataset s = parent then group_found c backendName parent ss
      else bindE (provisionedBytes c (Some s) (sn_Dataset s)) (\<lambda>size.
           bindE (group_found c backendName parent ss) (\<lambda>rest.
           retE (\<lparr>ss_ID = snapshotID backendName (sn_ID s), ss_SourceVolumeID = sn_Dataset s, ss_SizeBytes = size,
                  ss_CreationTime = CreationTime s, ss_ReadyToUse = True\<rparr> # rest))))"

definition reg_GetGroupSnapshot :: "'s registry \<Rightarrow> string \<Rightarrow> string list \<Rightarrow> ('s, go_error, GroupSnapshot) op" where
  "reg_GetGroupSnapshot r i memberIDs =
     bindE (liftE (parseSnapshotID i)) (\<lambda>(backendName, groupZFS).
     bindE (liftE (validateGroupMembers backendName groupZFS memberIDs)) (\<lambda>_.
     bindE (reg_Client r backendName) (\<lambda>c.
     bindE (groupSnapshots c groupZFS) (\<lambda>found.
       if found = [] then failE (Status NotFound)
       else let parent = fst (splitSnapshotID groupZFS);
                anchors = filter (\<lambda>s. sn_Dataset s = parent) found
            in bindE (group_found c backendName parent found) (\<lambda>members.
               retE \<lparr>gs_ID = i,
                     gs_Members = (if memberIDs \<noteq> [] then filter (\<lambda>m. ss_ID m \<in> set memberIDs) members else members),
                     gs_CreationTime = (if anchors = [] then None else CreationTime (last anchors)),
                     gs_ReadyToUse = True\<rparr>)))))"

definition reg_DeleteGroupSnapshot :: "'s registry \<Rightarrow> string \<Rightarrow> string list \<Rightarrow> ('s, go_error, unit) op" where
  "reg_DeleteGroupSnapshot r i memberIDs =
     bindE (liftE (parseSnapshotID i)) (\<lambda>(backendName, groupZFS).
     bindE (liftE (validateGroupMembers backendName groupZFS memberIDs)) (\<lambda>_.
     bindE (reg_Client r backendName) (\<lambda>c.
     bindE (groupSnapshots c groupZFS) (\<lambda>found.
       if found = [] then retE ()
       else bindE (DatasetList c (pool_of (fst (splitSnapshotID groupZFS)))) (\<lambda>ds.
            let blocked = map ds_ID (filter (\<lambda>d. OriginSnapshot d \<noteq> [] \<and> OriginSnapshot d \<in> sn_ID ` set found) ds)
            in if blocked \<noteq> [] then failE (Status FailedPrecondition)
               else delete_snapshots c id (rev (sort_key (\<lambda>i. length i) (rev (map sn_ID found)))))))))"

section \<open>The contract of the appliance\<close>

text \<open>
  Snapshots as pairs of a dataset and a name. Reads change nothing; a recursive snapshot is taken
  of the dataset and everything beneath it at once, or not at all when one of that name exists
  there; a deletion that reports success removes the snapshot. A write that reports a failure may
  have happened.
\<close>

definition snap_id :: "string \<Rightarrow> string \<Rightarrow> string" where
  "snap_id d n = d @ ''@'' @ n"

definition recursive_set :: "string \<Rightarrow> string \<Rightarrow> string set \<Rightarrow> (string \<times> string) set" where
  "recursive_set p n ds = {(d, n) |d. d \<in> ds \<and> beneath p d}"

locale snapshot_store =
  fixes call :: "'s transport"
    and now :: "'s \<Rightarrow> int \<times> 's"
    and wf :: "'s \<Rightarrow> bool"
    and snaps :: "'s \<Rightarrow> (string \<times> string) set"
    and datasets :: "'s \<Rightarrow> string set"
  assumes names: "wf s \<Longrightarrow> (d, n) \<in> snaps s \<Longrightarrow> CHR ''@'' \<notin> set d \<and> CHR ''@'' \<notin> set n \<and> d \<noteq> []"
    and dataset_names: "wf s \<Longrightarrow> d \<in> datasets s \<Longrightarrow> CHR ''@'' \<notin> set d"
    and clock: "wf s \<Longrightarrow> now s = (t, s') \<Longrightarrow> wf s' \<and> snaps s' = snaps s \<and> datasets s' = datasets s"
    and dataset_query: "wf s \<Longrightarrow> DatasetQuery call d s = (r1, s') \<Longrightarrow> s' = s"
    and snapshot_query: "wf s \<Longrightarrow> CHR ''@'' \<notin> set n \<Longrightarrow> SnapshotQuery call (snap_id d n) s = (r2, s') \<Longrightarrow>
      s' = s \<and> (\<forall>x. r2 = Inr x \<longrightarrow> (x = None \<longleftrightarrow> (d, n) \<notin> snaps s))"
    and snapshot_list: "wf s \<Longrightarrow> SnapshotList call p s = (r3, s') \<Longrightarrow>
      s' = s \<and> (\<forall>xs. r3 = Inr xs \<longrightarrow>
        (\<lambda>x. (sn_Dataset x, sn_ID x)) ` set xs = {(d, snap_id d n) |d n. (d, n) \<in> snaps s \<and> has_prefix p d})"
    and create_recursive: "wf s \<Longrightarrow> CHR ''@'' \<notin> set n \<Longrightarrow> SnapshotCreateRecursive call p n s = (r4, s') \<Longrightarrow>
      wf s' \<and> datasets s' = datasets s
      \<and> (snaps s' = snaps s \<and> isl r4 \<or> snaps s' = snaps s \<union> recursive_set p n (datasets s)
           \<and> snaps s \<inter> {(d, n) |d. beneath p d} = {})"
    and snapshot_delete: "wf s \<Longrightarrow> CHR ''@'' \<notin> set n \<Longrightarrow> SnapshotDelete call (snap_id d n) s = (r5, s') \<Longrightarrow>
      wf s' \<and> datasets s' = datasets s \<and> snaps s' \<in> {snaps s, snaps s - {(d, n)}}
      \<and> (\<not> isl r5 \<longrightarrow> snaps s' = snaps s - {(d, n)})"
begin

lemma delete_snapshots_ok:
  assumes "CHR ''@'' \<notin> set n" "wf s" "delete_snapshots call wrap is s = (Inr (), s')" "\<forall>i \<in> set is. \<exists>d. i = snap_id d n"
  shows "wf s' \<and> datasets s' = datasets s \<and> snaps s' = snaps s - {(d, n) |d. snap_id d n \<in> set is}"
  using assms(2-)
proof (induction "is" arbitrary: s)
  case Nil
  then show ?case by (auto simp: retE_def)
next
  case (Cons i is')
  obtain d where d: "i = snap_id d n" using Cons.prems(3) by auto
  obtain r s1 where 1: "SnapshotDelete call i s = (r, s1)" by (meson surj_pair)
  have "\<not> isl r" and rest: "delete_snapshots call wrap is' s1 = (Inr (), s')"
    using Cons.prems(2) 1 by (auto simp: tryE_def failE_def split: sum.splits)
  with snapshot_delete [OF Cons.prems(1) assms(1), of d r s1] 1 d
  have s1: "wf s1" "datasets s1 = datasets s" "snaps s1 = snaps s - {(d, n)}" by auto
  have "snap_id d' n = snap_id d n \<longleftrightarrow> d' = d" for d' by (simp add: snap_id_def)
  with Cons.IH [OF s1(1) rest] Cons.prems(3) s1 d show ?case by auto
qed

lemma snap_id_parts:
  assumes "CHR ''@'' \<notin> set n"
  shows "splitSnapshotID (snap_id d n) = (d, n)" "snapshotName (snap_id d n) = n"
  using assms by (simp_all add: snapshotName_def splitSnapshotID_def snap_id_def)

lemma trim_ok:
  assumes "wf s" "CHR ''@'' \<notin> set n" "trimNonMembers call p n sources s = (Inr (), s')"
  shows "wf s' \<and> datasets s' = datasets s
    \<and> snaps s' = snaps s - {(d, n) |d. beneath p d \<and> d \<noteq> p \<and> d \<notin> DatasetPath ` set sources}"
proof -
  obtain q s1 where l: "SnapshotList call p s = (q, s1)" by (meson surj_pair)
  obtain xs where q: "q = Inr xs" "s1 = s" and
    xs: "(\<lambda>x. (sn_Dataset x, sn_ID x)) ` set xs = {(d, snap_id d n) |d n. (d, n) \<in> snaps s \<and> has_prefix p d}"
  proof (cases q)
    case (Inr xs)
    with snapshot_list [OF assms(1) l] have "s1 = s" "(\<lambda>x. (sn_Dataset x, sn_ID x)) ` set xs =
        {(d, snap_id d n) |d n. (d, n) \<in> snaps s \<and> has_prefix p d}" by simp_all
    with Inr show ?thesis by (rule that)
  qed (use assms(3) l in \<open>simp add: trimNonMembers_def tryE_def failE_def\<close>)
  have dataset: "snap_dataset x = sn_Dataset x \<and> (\<exists>m. (sn_Dataset x, m) \<in> snaps s \<and> sn_ID x = snap_id (sn_Dataset x) m
      \<and> CHR ''@'' \<notin> set m)" if "x \<in> set xs" for x
  proof -
    have "(sn_Dataset x, sn_ID x) \<in> {(d, snap_id d n) |d n. (d, n) \<in> snaps s \<and> has_prefix p d}"
      using that xs by blast
    then obtain m where m: "(sn_Dataset x, m) \<in> snaps s" "sn_ID x = snap_id (sn_Dataset x) m" by auto
    with names [OF assms(1) m(1)] show ?thesis by (auto simp: snap_dataset_def)
  qed
  let ?is = "map sn_ID (filter (\<lambda>s. snapshotName (sn_ID s) = n \<and> snap_dataset s \<noteq> p
      \<and> snap_dataset s \<notin> DatasetPath ` set sources \<and> beneath p (snap_dataset s)) xs)"
  have run: "delete_snapshots call (\<lambda>e. Wrapped [e]) ?is s = (Inr (), s')"
    using assms(3) l q by (simp add: trimNonMembers_def tryE_def)
  have named: "sn_ID x = snap_id (sn_Dataset x) n" if "x \<in> set xs" "snapshotName (sn_ID x) = n" for x
    using dataset [OF that(1)] that(2) by (auto simp: snap_id_parts)
  then have "\<forall>i \<in> set ?is. \<exists>d. i = snap_id d n" by auto
  note del = delete_snapshots_ok [OF assms(2,1) run this]
  have mem: "\<exists>x \<in> set xs. sn_Dataset x = d \<and> sn_ID x = snap_id d n" if "(d, n) \<in> snaps s" "has_prefix p d" for d
  proof -
    have "(d, snap_id d n) \<in> (\<lambda>x. (sn_Dataset x, sn_ID x)) ` set xs" unfolding xs using that by blast
    then show ?thesis by force
  qed
  have iff: "snap_id d n \<in> set ?is \<longleftrightarrow> beneath p d \<and> d \<noteq> p \<and> d \<notin> DatasetPath ` set sources" if "(d, n) \<in> snaps s" for d
  proof
    assume "snap_id d n \<in> set ?is"
    then obtain x where x: "x \<in> set xs" "sn_ID x = snap_id d n" "snapshotName (sn_ID x) = n" "snap_dataset x \<noteq> p"
      "snap_dataset x \<notin> DatasetPath ` set sources" "beneath p (snap_dataset x)" by auto
    have "sn_Dataset x = d"
      using named [OF x(1,3)] x(2) by (simp add: snap_id_def)
    with x dataset [OF x(1)] show "beneath p d \<and> d \<noteq> p \<and> d \<notin> DatasetPath ` set sources" by simp
  next
    assume u: "beneath p d \<and> d \<noteq> p \<and> d \<notin> DatasetPath ` set sources"
    then have "has_prefix p d" by (auto simp: beneath_def has_prefix_iff)
    from mem [OF that this] obtain x where x: "x \<in> set xs" "sn_Dataset x = d" "sn_ID x = snap_id d n"
      by blast
    have "snap_dataset x = d" "snapshotName (sn_ID x) = n"
      using dataset [OF x(1)] x by (simp_all add: snap_id_parts [OF assms(2)])
    with u x have "x \<in> set (filter (\<lambda>s. snapshotName (sn_ID s) = n \<and> snap_dataset s \<noteq> p
      \<and> snap_dataset s \<notin> DatasetPath ` set sources \<and> beneath p (snap_dataset s)) xs)" by simp
    then show "snap_id d n \<in> set ?is" unfolding set_map x(3) [symmetric] by (rule imageI)
  qed
  have "snaps s - {(d, n) |d. snap_id d n \<in> set ?is} =
      snaps s - {(d, n) |d. beneath p d \<and> d \<noteq> p \<and> d \<notin> DatasetPath ` set sources}"
    using iff unfolding set_eq_iff by blast
  with del show ?thesis by presburger
qed

lemma provisionedBytes_state:
  assumes "wf s" "provisionedBytes call sn d s = (r, s')"
  shows "s' = s"
proof -
  have "s1 = s" if "live_bytes call d s = (r1, s1)" for r1 s1
    using that dataset_query [OF assms(1), of d]
    by (auto simp: live_bytes_def tryE_def retE_def split: prod.splits sum.splits option.splits)
  then show ?thesis using assms(2) by (auto simp: provisionedBytes_def retE_def split: option.splits if_splits)
qed

lemma group_members_state:
  assumes "wf s" "CHR ''@'' \<notin> set n" "group_members call b n t sources s = (Inr ms, s')"
  shows "s' = s \<and> map ss_ID ms = map (\<lambda>i. snapshotID b (snap_id (DatasetPath i) n)) sources"
  using assms(3)
proof (induction sources arbitrary: ms)
  case Nil
  then show ?case by (simp add: retE_def)
next
  case (Cons i js)
  obtain q s1 where q: "SnapshotQuery call (snap_id (DatasetPath i) n) s = (q, s1)" by (meson surj_pair)
  then have s1: "s1 = s" using snapshot_query [OF assms(1,2) q] by simp
  let ?m = "case q of Inl _ \<Rightarrow> None | Inr m \<Rightarrow> m"
  obtain sz s2 where 2: "provisionedBytes call ?m (DatasetPath i) s = (sz, s2)" by (meson surj_pair)
  have s2: "s2 = s" by (rule provisionedBytes_state [OF assms(1) 2])
  obtain ms' s3 where 3: "group_members call b n t js s = (ms', s3)" by (meson surj_pair)
  have "\<exists>ys. ms' = Inr ys \<and> s' = s3 \<and> map ss_ID ms = snapshotID b (snap_id (DatasetPath i) n) # map ss_ID ys"
    using Cons.prems q s1 2 s2 3
    by (cases sz; cases ms') (auto simp: snap_id_def tryE_def bindE_def Let_def retE_def)
  with 3 Cons.IH show ?case by auto
qed

lemma group_anchor_fresh:
  assumes "wf s" "CHR ''@'' \<notin> set n" "(p, n) \<notin> snaps s" "group_anchor call p n sources s = (Inr a, s')"
  shows "wf s' \<and> datasets s' = datasets s
    \<and> snaps s' = snaps s \<union> {(d, n) |d. d \<in> datasets s \<and> beneath p d \<and> (d = p \<or> d \<in> DatasetPath ` set sources)}"
proof -
  obtain q s1 where q: "SnapshotQuery call (snap_id p n) s = (q, s1)" by (meson surj_pair)
  have s1: "s1 = s" "\<And>x. q = Inr x \<Longrightarrow> x = None" using snapshot_query [OF assms(1,2) q] assms(3) by auto
  obtain c s2 where c: "SnapshotCreateRecursive call p n s = (c, s2)" by (meson surj_pair)
  obtain tr s3 where tr: "trimNonMembers call p n sources s2 = (tr, s3)" by (meson surj_pair)
  obtain q2 s4 where q2: "SnapshotQuery call (snap_id p n) s3 = (q2, s4)" by (meson surj_pair)
  have run: "group_anchor call p n sources s =
      (case q of Inl e \<Rightarrow> (Inl e, s) | Inr _ \<Rightarrow> case c of Inl e \<Rightarrow> (Inl e, s2)
        | Inr _ \<Rightarrow> case tr of Inl e \<Rightarrow> (Inl e, s3) | Inr _ \<Rightarrow> (Inr (case q2 of Inl _ \<Rightarrow> None | Inr a \<Rightarrow> a), s4))"
    using q s1 c tr q2
    by (cases q; cases c; cases tr) (simp_all add: group_anchor_def snap_id_def bindE_def tryE_def retE_def)
  have ok: "\<not> isl c" "tr = Inr ()" "s' = s4"
    using assms(4) unfolding run by (auto split: sum.splits)
  have s2: "wf s2" "datasets s2 = datasets s" "snaps s2 = snaps s \<union> recursive_set p n (datasets s)"
    "snaps s \<inter> {(d, n) |d. beneath p d} = {}"
    using create_recursive [OF assms(1,2) c] ok(1) by simp_all
  have s3: "wf s3 \<and> datasets s3 = datasets s2
    \<and> snaps s3 = snaps s2 - {(d, n) |d. beneath p d \<and> d \<noteq> p \<and> d \<notin> DatasetPath ` set sources}"
    using trim_ok [OF s2(1) assms(2)] tr ok(2) by blast
  then have "s4 = s3" using snapshot_query [OF _ assms(2) q2] by blast
  moreover have "snaps s3 = snaps s \<union> {(d, n) |d. d \<in> datasets s \<and> beneath p d \<and> (d = p \<or> d \<in> DatasetPath ` set sources)}"
    using s3 s2(3,4) by (auto simp: recursive_set_def)
  ultimately show ?thesis using s2(2) s3 ok(3) by simp
qed

end

text \<open>A volume handle names a dataset directly beneath its parent.\<close>

lemma beneath_Dir:
  assumes "valid_id i"
  shows "DatasetPath i = path_Dir (DatasetPath i) @ ''/'' @ id_Name i"
proof -
  let ?xs = "[id_Pool i, id_Parent i] @ (if id_Namespace i = [] then [] else [id_Namespace i])"
  have "DatasetPath i = join_with ''/'' (?xs @ [id_Name i])" by (simp add: DatasetPath_def)
  moreover have "path_Dir (join_with ''/'' (?xs @ [id_Name i])) = join_with ''/'' ?xs"
    using assms by (intro path_Dir_join) (auto simp: valid_id_def valid_comp_plain)
  ultimately show ?thesis by (simp add: join_append)
qed

lemma same_group_dirs:
  "same_group b p ss = Inr () \<Longrightarrow> i \<in> set ss \<Longrightarrow> path_Dir (DatasetPath i) = p"
  by (induction ss) (auto split: if_splits)

text \<open>
  C26. A group snapshot is of the volumes asked for, and of nothing else. When it reports success
  under a name its parent has no snapshot of, the snapshots the appliance has gained are the
  anchor on the parent and one for each source, taken by one recursive call, and the reply names
  exactly those of the sources; a bystander beneath the same parent keeps the snapshots it had.
\<close>

theorem group_snapshot_exact:
  fixes wf :: "'s \<Rightarrow> bool" and datasets :: "'s \<Rightarrow> string set"
  assumes "snapshot_store call now wf snaps datasets" "wf s"
    and client: "\<And>b t q t'. wf t \<Longrightarrow> reg_Client r b t = (q, t') \<Longrightarrow> t' = t \<and> (\<forall>c. q = Inr c \<longrightarrow> c = call)"
    and "reg_CreateGroupSnapshot r now sources n s = (Inr g, s')" "groupParent r sources = Inr p"
    and "(p, n) \<notin> snaps s" "CHR ''@'' \<notin> set n"
    and "list_all valid_id sources" "insert p (DatasetPath ` set sources) \<subseteq> datasets s"
  shows "snaps s' = snaps s \<union> {(p, n)} \<union> (\<lambda>i. (DatasetPath i, n)) ` set sources
    \<and> map ss_ID (gs_Members g) = map (\<lambda>i. id_Backend (hd sources) @ ''/'' @ DatasetPath i @ ''@'' @ n) sources"
proof -
  let ?b = "id_Backend (hd sources)"
  obtain q s1 where q: "reg_Client r ?b s = (q, s1)" by (meson surj_pair)
  obtain a s2 where a: "group_anchor call p n sources s = (a, s2)" by (meson surj_pair)
  obtain t s3 where t: "now s2 = (t, s3)" by (meson surj_pair)
  have q': "s1 = s" "\<And>c. q = Inr c \<Longrightarrow> c = call" using client [OF assms(2) q] by auto
  have "\<not> isl q" "\<not> isl a"
    using assms(4,5) q q' a by (auto simp: reg_CreateGroupSnapshot_def bindE_def Let_def split: sum.splits)
  then obtain an where ok: "q = Inr call" "a = Inr an" using q'(2) by (cases q; cases a) auto
  define created where "created = (case an of None \<Rightarrow> t | Some a \<Rightarrow> (case CreationTime a of Some t' \<Rightarrow> t' | None \<Rightarrow> t))"
  obtain ms s4 where ms: "group_members call ?b n created sources s3 = (ms, s4)" by (meson surj_pair)
  have "reg_CreateGroupSnapshot r now sources n s =
      (case ms of Inl e \<Rightarrow> (Inl e, s4)
       | Inr m \<Rightarrow> (Inr \<lparr>gs_ID = snapshotID ?b (p @ ''@'' @ n), gs_Members = m, gs_CreationTime = Some created,
           gs_ReadyToUse = True\<rparr>, s4))"
    unfolding reg_CreateGroupSnapshot_def Let_def assms(5) bindE_lift
    by (simp add: bindE_def get_now_def retE_def q q'(1) a ok t ms created_def [symmetric] split: sum.split)
  then have run: "ms = Inr (gs_Members g)" "s' = s4"
    using assms(4) by (auto split: sum.splits)
  have anchor: "wf s2" "snaps s2 = snaps s \<union> {(d, n) |d. d \<in> datasets s \<and> beneath p d \<and> (d = p \<or> d \<in> DatasetPath ` set sources)}"
    using snapshot_store.group_anchor_fresh [OF assms(1,2,7,6)] a ok by auto
  have s3: "wf s3" "snaps s3 = snaps s2" using snapshot_store.clock [OF assms(1) anchor(1) t] by auto
  have mem: "s4 = s3 \<and> map ss_ID (gs_Members g) = map (\<lambda>i. snapshotID ?b (snap_id (DatasetPath i) n)) sources"
    using snapshot_store.group_members_state [OF assms(1) s3(1) assms(7)] ms run(1) by blast
  have "beneath p (DatasetPath i)" if "i \<in> set sources" for i
  proof -
    have "path_Dir (DatasetPath i) = p"
      using assms(5) that same_group_dirs [of ?b p "tl sources"]
      by (cases sources) (auto simp: groupParent_def Let_def split: sum.splits if_splits)
    then show ?thesis
      using beneath_Dir [of i] assms(8) that by (auto simp: beneath_def has_prefix_iff list_all_iff)
  qed
  then have "{(d, n) |d. d \<in> datasets s \<and> beneath p d \<and> (d = p \<or> d \<in> DatasetPath ` set sources)} =
      {(p, n)} \<union> (\<lambda>i. (DatasetPath i, n)) ` set sources"
    using assms(9) by (auto simp: beneath_def)
  then have "snaps s' = snaps s \<union> {(p, n)} \<union> (\<lambda>i. (DatasetPath i, n)) ` set sources"
    using run(2) mem s3(2) anchor(2) by auto
  with mem show ?thesis by (simp add: snapshotID_def snap_id_def)
qed

end
