(* ===== verification/Namespaces.thy ===== *)
theory Namespaces
  imports Appliance Calls
begin

text \<open>
  \<^verbatim>\<open>internal/backend/namespace.go\<close>: the dataset that holds the volumes of one Kubernetes
  namespace and carries the namespace's quota. What the quota leaves is computed in 64-bit
  arithmetic, lowering a quota below the usage is deferred, and a namespace dataset is removed
  once it is empty.
\<close>

section \<open>The accounting\<close>

record NamespaceDataset =
  nd_Path :: string
  nd_UsedBytes :: int
  nd_ProvisionedBytes :: int
  nd_QuotaBytes :: int
  nd_QuotaDeferred :: bool

definition Room :: "NamespaceDataset option \<Rightarrow> int \<times> bool" where
  "Room on =
     (case on of
        None \<Rightarrow> (0, False)
      | Some n \<Rightarrow>
          if nd_QuotaBytes n \<le> 0 then (0, False)
          else let charged = (if nd_ProvisionedBytes n > nd_UsedBytes n then nd_ProvisionedBytes n else nd_UsedBytes n);
                   room = sub64 (nd_QuotaBytes n) charged
               in if room > 0 then (room, True) else (0, True))"

definition Charged :: "NamespaceDataset option \<Rightarrow> int" where
  "Charged on =
     (case on of
        None \<Rightarrow> 0
      | Some n \<Rightarrow> if nd_ProvisionedBytes n > nd_UsedBytes n then nd_ProvisionedBytes n else nd_UsedBytes n)"

fun provisioned_total :: "string \<Rightarrow> dataset list \<Rightarrow> int \<Rightarrow> int" where
  "provisioned_total path [] acc = acc"
| "provisioned_total path (d # children) acc =
     (if contains_str ''/'' (trim_prefix (path @ ''/'') (ds_ID d)) then provisioned_total path children acc
      else case VerifyOwned (Some (asVolumeDataset d)) of
             Inl _ \<Rightarrow> provisioned_total path children acc
           | Inr _ \<Rightarrow>
               if 0 < ds_VolSize d then provisioned_total path children (add64 acc (ds_VolSize d))
               else if 0 < ds_RefQuota d then provisioned_total path children (add64 acc (ds_RefQuota d))
               else provisioned_total path children acc)"

definition provisionedUnder :: "'s transport \<Rightarrow> string \<Rightarrow> 's \<Rightarrow> int \<times> 's" where
  "provisionedUnder call path s =
     (case DatasetList call (path @ ''/'') s of
        (Inl _, s') \<Rightarrow> (0, s')
      | (Inr children, s') \<Rightarrow> (provisioned_total path children 0, s'))"

section \<open>Creating, bounding and removing a namespace dataset\<close>

definition verifyNamespaceDataset :: "dataset \<Rightarrow> string \<Rightarrow> go_error + unit" where
  "verifyNamespaceDataset ds ns =
     (case VerifyOwned (Some (asVolumeDataset ds)) of
        Inl e \<Rightarrow> Inl (Wrapped [Sentinel ErrNamespaceDatasetConflict, e])
      | Inr _ \<Rightarrow>
          let got = LocalProperty ds NamespaceProperty
          in if got = [] then Inl (Wrapped [Sentinel ErrNamespaceDatasetConflict])
             else if got \<noteq> ns then Inl (Wrapped [Sentinel ErrNamespaceDatasetConflict])
             else Inr ())"

definition applyNamespaceQuota :: "'s transport \<Rightarrow> string \<Rightarrow> int \<Rightarrow> ('s, go_error, unit) op" where
  "applyNamespaceQuota call path quota =
     tryE (DatasetUpdate call path (JObj [(''quota'', JInt quota)])) (\<lambda>r.
       case r of
         Inl e \<Rightarrow> failE (Wrapped [e])
       | Inr _ \<Rightarrow> tryE (SetUserProperty call path NamespaceQuotaProperty (FormatQuota quota)) (\<lambda>_. retE ()))"

definition namespace_spec :: "string \<Rightarrow> string \<Rightarrow> DatasetSpec" where
  "namespace_spec path ns =
     \<lparr>spec_Name = path, spec_Type = ''FILESYSTEM'', spec_VolSize = 0, spec_RefQuota = 0, spec_Sparse = False,
      spec_VolBlockSize = [], spec_ShareType = [], spec_UserProperties = NamespaceProperties ns\<rparr>"

text \<open>The dataset a reconciliation works on: the one found, once verified, or a new one.\<close>

definition find_or_create :: "'s transport \<Rightarrow> string \<Rightarrow> string \<Rightarrow> ('s, go_error, dataset) op" where
  "find_or_create call path ns =
     tryE (DatasetQuery call path) (\<lambda>r.
       case r of
         Inl e \<Rightarrow> failE (Wrapped [e])
       | Inr None \<Rightarrow>
           tryE (DatasetCreate call (namespace_spec path ns)) (\<lambda>r.
             case r of Inl e \<Rightarrow> failE (Wrapped [e]) | Inr ds \<Rightarrow> retE ds)
       | Inr (Some ds) \<Rightarrow> bindE (liftE (verifyNamespaceDataset ds ns)) (\<lambda>_. retE ds))"

definition namespace_path :: "string \<Rightarrow> string \<Rightarrow> string \<Rightarrow> string" where
  "namespace_path pool parent ns = pool @ ''/'' @ parent @ ''/'' @ ns"

text \<open>The second half of \<^verbatim>\<open>EnsureNamespace\<close>: bring the dataset's quota into line.\<close>

definition reconcile_quota :: "'s transport \<Rightarrow> string \<Rightarrow> int \<Rightarrow> dataset \<Rightarrow> ('s, go_error, NamespaceDataset) op" where
  "reconcile_quota call path quota ds =
     bindE (\<lambda>s. if 0 < quota then (case provisionedUnder call path s of (n, s') \<Rightarrow> (Inr n, s')) else (Inr 0, s)) (\<lambda>prov.
       let out = \<lparr>nd_Path = path, nd_UsedBytes = ds_Used ds, nd_ProvisionedBytes = prov,
                  nd_QuotaBytes = quota, nd_QuotaDeferred = False\<rparr>
       in if 0 < quota \<and> quota < ds_Used ds then retE (out\<lparr>nd_QuotaDeferred := True\<rparr>)
          else case AppliedQuota (LocalProperty ds NamespaceQuotaProperty) of
                 (applied, recorded) \<Rightarrow>
                   if recorded \<and> applied = quota then retE out
                   else bindE (applyNamespaceQuota call path quota) (\<lambda>_. retE out))"

definition EnsureNamespace ::
  "'s transport \<Rightarrow> string \<Rightarrow> string \<Rightarrow> string \<Rightarrow> int \<Rightarrow> ('s, go_error, NamespaceDataset) op" where
  "EnsureNamespace call pool parent ns quota =
     bindE (liftE (ValidateNamespace ns)) (\<lambda>_.
     bindE (find_or_create call (namespace_path pool parent ns) ns)
       (reconcile_quota call (namespace_path pool parent ns) quota))"

definition ReclaimNamespace ::
  "'s transport \<Rightarrow> string \<Rightarrow> string \<Rightarrow> string \<Rightarrow> ('s, go_error, bool) op" where
  "ReclaimNamespace call pool parent ns =
     bindE (liftE (ValidateNamespace ns)) (\<lambda>_.
       let path = namespace_path pool parent ns
       in tryE (DatasetQuery call path) (\<lambda>r.
          case r of
            Inl e \<Rightarrow> failE (Wrapped [e])
          | Inr None \<Rightarrow> retE False
          | Inr (Some ds) \<Rightarrow>
              bindE (liftE (verifyNamespaceDataset ds ns)) (\<lambda>_.
              tryE (DatasetList call (path @ ''/'')) (\<lambda>r.
              case r of
                Inl e \<Rightarrow> failE (Wrapped [e])
              | Inr (_ # _) \<Rightarrow> retE False
              | Inr [] \<Rightarrow>
                  tryE (DatasetDelete call path False False) (\<lambda>r.
                  case r of Inl e \<Rightarrow> failE (Wrapped [e]) | Inr _ \<Rightarrow> retE True)))))"

section \<open>What the quota leaves\<close>

definition charged_child :: "string \<Rightarrow> dataset \<Rightarrow> bool" where
  "charged_child path d \<longleftrightarrow>
     CHR ''/'' \<notin> set (trim_prefix (path @ ''/'') (ds_ID d)) \<and> owned (asVolumeDataset d)"

definition promised :: "dataset \<Rightarrow> int" where
  "promised d = (if 0 < ds_VolSize d then ds_VolSize d else max 0 (ds_RefQuota d))"

lemma add64_wrap: "add64 (wrap64 a) b = wrap64 (a + b)"
  unfolding add64_def wrap64_def by (simp add: mod_simps algebra_simps)

lemma provisioned_total_sum:
  "provisioned_total path ds (wrap64 a) = wrap64 (a + sum_list (map promised (filter (charged_child path) ds)))"
proof (induction ds arbitrary: a)
  case (Cons d ds)
  have keep: "charged_child path d \<longleftrightarrow>
      \<not> contains_str ''/'' (trim_prefix (path @ ''/'') (ds_ID d)) \<and> VerifyOwned (Some (asVolumeDataset d)) = Inr ()"
    by (auto simp: charged_child_def VerifyOwned_ok contains_char)
  show ?case
    using Cons.IH [of a] Cons.IH [of "a + ds_VolSize d"] Cons.IH [of "a + ds_RefQuota d"]
    by (auto simp: keep promised_def add64_wrap algebra_simps split: sum.splits)
qed simp

text \<open>
  C17. What is left of a namespace's quota is exact: with the usage and the sum of what the
  driver-owned direct children were promised within 64 bits, the room reported is the quota
  less the larger of the two, and zero when that is negative. A volume no larger than the room
  therefore leaves both the usage and the promises within the quota; and only a namespace
  without a quota has no limit.
\<close>

theorem Room_exact:
  assumes "p = sum_list (map promised (filter (charged_child path) children))"
    and "nd_ProvisionedBytes n = provisioned_total path children 0"
    and "in_int64 p" "0 \<le> nd_UsedBytes n" "in_int64 (nd_UsedBytes n)" "in_int64 (nd_QuotaBytes n)"
  shows "snd (Room (Some n)) = (0 < nd_QuotaBytes n)
    \<and> (0 < nd_QuotaBytes n \<longrightarrow> fst (Room (Some n)) = max 0 (nd_QuotaBytes n - max (nd_UsedBytes n) p))
    \<and> (0 < b \<and> b \<le> fst (Room (Some n)) \<longrightarrow> nd_UsedBytes n + b \<le> nd_QuotaBytes n \<and> p + b \<le> nd_QuotaBytes n)"
proof -
  have prov: "nd_ProvisionedBytes n = p"
    using assms provisioned_total_sum [of path children 0] by (simp add: in_int64_def min_int64_def max_int64_def)
  let ?c = "max (nd_UsedBytes n) p"
  have "0 < nd_QuotaBytes n \<Longrightarrow> sub64 (nd_QuotaBytes n) ?c = nd_QuotaBytes n - ?c"
    using assms(3-6) by (intro sub64_nonneg) (auto simp: max_def)
  then have "Room (Some n) = (if nd_QuotaBytes n \<le> 0 then (0, False) else (max 0 (nd_QuotaBytes n - ?c), True))"
    by (cases "nd_QuotaBytes n \<le> 0") (auto simp: Room_def prov Let_def max_def)
  then show ?thesis by auto
qed

theorem Room_exact_witness:
  "Room (Some \<lparr>nd_Path = ''tank/k8s/dev'', nd_UsedBytes = 5, nd_ProvisionedBytes = provisioned_total ''tank/k8s/dev'' [] 0,
       nd_QuotaBytes = 12, nd_QuotaDeferred = False\<rparr>) = (7, True)"
  using Room_exact [of 0 "''tank/k8s/dev''" "[]" "\<lparr>nd_Path = ''tank/k8s/dev'', nd_UsedBytes = 5,
      nd_ProvisionedBytes = provisioned_total ''tank/k8s/dev'' [] 0, nd_QuotaBytes = 12, nd_QuotaDeferred = False\<rparr>" 1]
  by (simp add: in_int64_def min_int64_def max_int64_def prod_eq_iff)

section \<open>What the reconciliation calls\<close>

definition ensure_call :: "'s transport \<Rightarrow> 's \<Rightarrow> string \<Rightarrow> string \<Rightarrow> int \<Rightarrow> string \<times> json list \<Rightarrow> bool" where
  "ensure_call call s path ns quota = (\<lambda>(m, ps). m = ''pool.dataset.query''
     \<or> m = ''pool.dataset.create'' \<and> ps = [payload (namespace_spec path ns)]
         \<and> fst (DatasetQuery call path s) = Inr None
     \<or> m = ''pool.dataset.update'' \<and> hd ps = JStr path
         \<and> (\<exists>ds. fst (find_or_create call path ns s) = Inr ds \<and> (0 < quota \<longrightarrow> ds_Used ds \<le> quota)
              \<and> AppliedQuota (LocalProperty ds NamespaceQuotaProperty) \<noteq> (quota, True)))"

lemma tracks_find_or_create [tracking]:
  "tracks (find_or_create (recording call) path ns) (find_or_create call path ns)"
  unfolding find_or_create_def by (intro tracking)

lemma find_or_create_run:
  assumes "find_or_create call path ns s = (r, s')"
  obtains new where "find_or_create (recording call) path ns (s, l) = (r, (s', l @ new))"
    "list_all (ensure_call call s path ns quota) new"
proof -
  obtain q s1 where q: "DatasetQuery call path s = (q, s1)" by fastforce
  have "only_calls (ensure_call call s path ns quota) (DatasetQuery (recording call) path)"
    by (intro calls_Query) (simp add: ensure_call_def)
  from run_recording [OF tracks_Ops(1) this q]
  obtain new1 where 1: "DatasetQuery (recording call) path (s, l) = (q, (s1, l @ new1))"
    "list_all (ensure_call call s path ns quota) new1" .
  have "\<exists>new2. find_or_create (recording call) path ns (s, l) = (r, (s', l @ new1 @ new2))
      \<and> list_all (ensure_call call s path ns quota) new2"
  proof (cases "q = Inr None")
    case True
    have c: "only_calls (ensure_call call s path ns quota)
        (DatasetCreate (recording call) (namespace_spec path ns))"
      by (intro calls_DatasetCreate) (simp add: ensure_call_def q True)
    obtain e s2 where e: "DatasetCreate call (namespace_spec path ns) s1 = (e, s2)" by fastforce
    from run_recording [OF tracks_Ops(3) c e]
    obtain new2 where "DatasetCreate (recording call) (namespace_spec path ns) (s1, l @ new1) = (e, (s2, (l @ new1) @ new2))"
      "list_all (ensure_call call s path ns quota) new2" .
    with assms 1 q e True show ?thesis
      by (auto simp: find_or_create_def tryE_def retE_def failE_def split: sum.splits)
  next
    case False
    with assms 1 q show ?thesis
      by (auto simp: find_or_create_def tryE_def retE_def failE_def bindE_def liftE_def split: sum.splits option.splits)
  qed
  with 1 that show thesis by auto
qed

lemma calls_provisionedUnder:
  assumes "\<And>ps. P (''pool.dataset.query'', ps)"
  shows "only_calls P (provisionedUnder (recording call) path)"
  using only_callsD [OF calls_Query(2) [where P = P and call = call and pre = "path @ ''/''"]] assms
  unfolding only_calls_def provisionedUnder_def by (force split: prod.splits sum.splits)

lemma calls_applyNamespaceQuota:
  assumes "\<And>v. P (''pool.dataset.update'', [JStr path, v])"
  shows "only_calls P (applyNamespaceQuota (recording call) path quota)"
  unfolding applyNamespaceQuota_def by (intro calls calls_DatasetUpdate calls_SetUserProperty assms)

lemma calls_reconcile_quota:
  assumes "\<And>ps. P (''pool.dataset.query'', ps)"
    and "\<And>v. (0 < quota \<Longrightarrow> ds_Used ds \<le> quota) \<Longrightarrow>
      AppliedQuota (LocalProperty ds NamespaceQuotaProperty) \<noteq> (quota, True) \<Longrightarrow>
      P (''pool.dataset.update'', [JStr path, v])"
  shows "only_calls P (reconcile_quota (recording call) path quota ds)"
proof -
  have prov: "only_calls P (\<lambda>s. if 0 < quota
      then (case provisionedUnder (recording call) path s of (n, s') \<Rightarrow> (Inr n, s')) else (Inr 0, s))"
    using only_callsD [OF calls_provisionedUnder [where P = P and call = call and path = path, OF assms(1)]]
    unfolding only_calls_def by (auto split: prod.splits)
  have quota: "only_calls P (applyNamespaceQuota (recording call) path quota)"
    if "\<not> (0 < quota \<and> quota < ds_Used ds)" "AppliedQuota (LocalProperty ds NamespaceQuotaProperty) \<noteq> (quota, True)"
    using that by (intro calls_applyNamespaceQuota assms(2)) auto
  show ?thesis
    unfolding reconcile_quota_def Let_def by (intro calls prov quota) auto
qed


definition sample_namespaces :: nas where
  "sample_namespaces = \<lparr>datasets = [(''tank/k8s'', []), (''tank/k8s/dev'', NamespaceProperties ''dev'')],
     clonedFrom = [], renameFail = None, forces = []\<rparr>"


section \<open>Removing an empty namespace\<close>

definition reclaim_call :: "'s transport \<Rightarrow> 's \<Rightarrow> string \<Rightarrow> string \<Rightarrow> string \<times> json list \<Rightarrow> bool" where
  "reclaim_call call s path ns = (\<lambda>(m, ps). m = ''pool.dataset.query''
     \<or> m = ''pool.dataset.delete''
         \<and> ps = [JStr path, JObj [(''recursive'', JBool False), (''force'', JBool False)]]
         \<and> (\<exists>ds s1. DatasetQuery call path s = (Inr (Some ds), s1)
              \<and> verifyNamespaceDataset ds ns = Inr () \<and> fst (DatasetList call (path @ ''/'') s1) = Inr []))"

text \<open>
  C19. Whatever the appliance answers, removing a namespace deletes at most the namespace's own
  dataset, neither recursively nor by force, and only after the appliance reported a dataset
  that proves to be the driver's container for this namespace and an empty listing beneath it.
\<close>

theorem ReclaimNamespace_deletes:
  assumes "ReclaimNamespace (recording call) pool parent ns (s, []) = (r, (s', made))"
  shows "list_all (reclaim_call call s (namespace_path pool parent ns) ns) made"
proof (cases "ValidateNamespace ns")
  case (Inl e)
  with assms show ?thesis by (simp add: ReclaimNamespace_def failE_def)
next
  case (Inr u)
  define path where "path = namespace_path pool parent ns"
  let ?P = "reclaim_call call s path ns"
  have qs: "?P (''pool.dataset.query'', ps)" for ps by (simp add: reclaim_call_def)
  obtain q s1 where q: "DatasetQuery call path s = (q, s1)" by fastforce
  obtain l s2 where l: "DatasetList call (path @ ''/'') s1 = (l, s2)" by fastforce
  obtain new1 where 1: "DatasetQuery (recording call) path (s, []) = (q, (s1, [] @ new1))" "list_all ?P new1"
    by (rule run_recording [OF tracks_Ops(1) calls_Query(1) [where P = ?P, OF qs] q])
  obtain new2 where 2: "DatasetList (recording call) (path @ ''/'') (s1, new1) = (l, (s2, new1 @ new2))" "list_all ?P new2"
    by (rule run_recording [OF tracks_Ops(2) calls_Query(2) [where P = ?P, OF qs] l])
  have "only_calls ?P (DatasetDelete (recording call) path False False)"
    if "q = Inr (Some ds)" "verifyNamespaceDataset ds ns = Inr ()" "l = Inr []" for ds
    using that q l by (intro calls_DatasetDelete qs) (auto simp: reclaim_call_def)
  with assms Inr 1 2 show ?thesis
    unfolding ReclaimNamespace_def path_def [symmetric]
    by (auto simp: Let_def tryE_def bindE_def liftE_def retE_def failE_def
        split: sum.splits option.splits list.splits prod.splits dest!: only_callsD)
qed

theorem ReclaimNamespace_deletes_witness:
  "\<exists>s' made. ReclaimNamespace (recording nas_call) ''tank'' ''k8s'' ''dev'' (sample_namespaces, []) =
      (Inr True, (s', made)) \<and> length made = 3
    \<and> list_all (reclaim_call nas_call sample_namespaces (namespace_path ''tank'' ''k8s'' ''dev'') ''dev'') made"
proof -
  let ?run = "ReclaimNamespace (recording nas_call) ''tank'' ''k8s'' ''dev'' (sample_namespaces, [])"
  have 1: "fst ?run = Inr True" by code_simp
  have 2: "length (snd (snd ?run)) = 3" by code_simp
  obtain r s' made where r: "?run = (r, (s', made))" by (rule prod_cases3)
  show ?thesis
    using 1 2 unfolding r by (intro exI [of _ s'] exI [of _ made] conjI ReclaimNamespace_deletes [OF r]) simp_all
qed

text \<open>
  The container of a namespace is stamped with the ownership marker alone, without the id of
  the dataset it was set on. On an appliance that reports every user property as set locally, a
  dataset somebody made by hand beneath it passes the ownership check.
\<close>

lemma inherited_namespace_marker_owned:
  assumes "ds_UserProperties ds = (\<lambda>k. map_option (\<lambda>v. \<lparr>pr_Value = v, pr_Source = ''LOCAL'', pr_RawValue = v\<rparr>)
      (map_of (NamespaceProperties ns) k))"
  shows "VerifyOwned (Some (asVolumeDataset ds)) = Inr ()"
  unfolding VerifyOwned_ok owned_def asVolumeDataset_def
  by (simp add: assms NamespaceProperties_def OwnerProperty_def OwnerIDProperty_def NamespaceProperty_def sourceLocal_def)

end
