(* ===== verification/Controller.thy ===== *)
theory Controller
  imports Modify Snapshots Namespaces GoNum
begin

text \<open>
  The provisioning half of the CSI controller: \<^verbatim>\<open>CreateVolume\<close>, \<^verbatim>\<open>DeleteVolume\<close>,
  \<^verbatim>\<open>ControllerExpandVolume\<close> and the snapshot handlers of \<^verbatim>\<open>internal/csi/controller.go\<close>, with the two
  admission checks of \<^verbatim>\<open>internal/csi/capacity.go\<close>. Log lines and metrics are left out; everything
  a handler reads, decides and calls is here, in its order.
\<close>

section \<open>Room for a volume\<close>

text \<open>
  The operator's reservation. The percentage is a float64: the product and the quotient are
  rounded one after the other, and the conversion truncates.
\<close>

definition poolReserve :: "int \<Rightarrow> int \<Rightarrow> int \<Rightarrow> rat \<Rightarrow> int" where
  "poolReserve writableFree writableUsed reservedBytes reservedPercent =
     (let total = add64 writableFree writableUsed;
          reserve = (if 0 < reservedPercent \<and> 0 < total
                     then let pct = trunc64 (float64 (float64 (float64 (of_int total) * reservedPercent) / 100))
                          in if pct > reservedBytes then pct else reservedBytes
                     else reservedBytes)
      in if reserve < 0 then 0 else reserve)"

definition usableCapacity :: "int \<Rightarrow> int \<Rightarrow> int" where
  "usableCapacity writableFree reserve =
     (let avail = sub64 writableFree reserve in if avail > 0 then avail else 0)"

definition requireRoomOutsideReserve :: "'s service \<Rightarrow> string \<Rightarrow> int \<Rightarrow> ('s, go_error, unit) op" where
  "requireRoomOutsideReserve c backendName want =
     bindE (on_err toStatus (liftE (reg_Backend (sv_Config c) backendName))) (\<lambda>b.
       if cb_ReservedBytes b \<le> 0 \<and> cb_ReservedPercent b \<le> 0 then retE ()
       else bindE (on_err toStatus (sv_Client c backendName)) (\<lambda>cl.
            bindE (on_err toStatus (DatasetQuery cl (cb_Pool b))) (\<lambda>root.
            case root of
              None \<Rightarrow> failE (Status FailedPrecondition)
            | Some ds \<Rightarrow>
                let reserve = poolReserve (ds_Available ds) (ds_Used ds) (cb_ReservedBytes b) (cb_ReservedPercent b)
                in if want > usableCapacity (ds_Available ds) reserve then failE (Status ResourceExhausted)
                   else retE ())))"

definition requireRoomInNamespaceQuota :: "'s service \<Rightarrow> vol_id \<Rightarrow> int \<Rightarrow> ('s, go_error, unit) op" where
  "requireRoomInNamespaceQuota c i want =
     (if id_Namespace i = [] then retE ()
      else bindE (on_err toStatus (liftE (reg_Backend (sv_Config c) (id_Backend i)))) (\<lambda>b.
           bindE (on_err toStatus (sv_Client c (id_Backend i))) (\<lambda>cl.
           bindE (on_err toStatus (EnsureNamespace cl (id_Pool i) (id_Parent i) (id_Namespace i)
                    (QuotaFor (cb_NamespaceQuotas b) (id_Namespace i)))) (\<lambda>ns.
           case Room (Some ns) of (room, limited) \<Rightarrow>
             if \<not> limited \<or> want \<le> room then retE () else failE (Status ResourceExhausted)))))"

section \<open>Sources of a clone\<close>

text \<open>One rune of a snapshot name.\<close>

definition snapshot_rune :: "nat \<Rightarrow> char" where
  "snapshot_rune r =
     (if (97 \<le> r \<and> r \<le> 122) \<or> (65 \<le> r \<and> r \<le> 90) \<or> (48 \<le> r \<and> r \<le> 57) then char_of r
      else if r = 45 \<or> r = 95 \<or> r = 46 \<or> r = 58 then char_of r
      else CHR ''-'')"

definition sanitiseSnapshotName :: "string \<Rightarrow> string" where
  "sanitiseSnapshotName n = (let n' = map snapshot_rune (runes (TrimSpace n)) in if length n' > 200 then take 200 n' else n')"

definition datasetTypeFor :: "string \<Rightarrow> string" where
  "datasetTypeFor protocol = (if protocol = ''iscsi'' \<or> protocol = ''nvme'' then ''VOLUME'' else ''FILESYSTEM'')"

definition blockFilesystemFor :: "string \<Rightarrow> capability list \<Rightarrow> string" where
  "blockFilesystemFor protocol caps =
     (if datasetTypeFor protocol \<noteq> ''VOLUME'' then []
      else if list_ex (\<lambda>cap. cap_Type cap = Block) caps then []
      else let fs = capabilityFSType caps in if fs \<noteq> [] then fs else ''ext4'')"

definition requireFilesystemMatches :: "string \<Rightarrow> string \<Rightarrow> go_error + unit" where
  "requireFilesystemMatches want got =
     (if want = [] \<or> got = [] \<or> want = got then Inr () else Inl (Status InvalidArgument))"

definition requireRestorableInto :: "string \<Rightarrow> string \<Rightarrow> go_error + unit" where
  "requireRestorableInto protocol srcType =
     (if srcType = [] then Inr ()
      else if srcType = datasetTypeFor protocol then Inr () else Inl (Status InvalidArgument))"

definition requireSnapshotExists :: "'s service \<Rightarrow> string \<Rightarrow> ('s, go_error, unit) op" where
  "requireSnapshotExists c sid =
     (case SnapshotSource sid of
        Inl _ \<Rightarrow> failE (Status NotFound)
      | Inr (backendName, zfsID) \<Rightarrow>
          bindE (on_err toStatus (sv_Client c backendName)) (\<lambda>cl.
          bindE (on_err toStatus (SnapshotQuery cl zfsID)) (\<lambda>snap.
          case snap of None \<Rightarrow> failE (Status NotFound) | Some _ \<Rightarrow> retE ())))"

definition snapshotSourceType :: "'s service \<Rightarrow> string \<Rightarrow> ('s, go_error, string) op" where
  "snapshotSourceType c sid =
     (case SnapshotSource sid of
        Inl _ \<Rightarrow> retE []
      | Inr (backendName, zfsID) \<Rightarrow>
          tryE (sv_Client c backendName) (\<lambda>r.
          case r of
            Inl _ \<Rightarrow> retE []
          | Inr cl \<Rightarrow>
              (case cut_on (CHR ''@'') zfsID of (ds, _, found) \<Rightarrow>
                 if \<not> found then retE []
                 else tryE (DatasetQuery cl ds) (\<lambda>q. case q of Inr (Some d) \<Rightarrow> retE (ds_Type d) | _ \<Rightarrow> retE []))))"

definition recordedFilesystem :: "'s service \<Rightarrow> string \<Rightarrow> string \<Rightarrow> ('s, go_error, string) op" where
  "recordedFilesystem c backendName ds =
     tryE (sv_Client c backendName) (\<lambda>r.
     case r of
       Inl _ \<Rightarrow> retE []
     | Inr cl \<Rightarrow>
         tryE (DatasetQuery cl ds) (\<lambda>q.
         case q of Inr (Some d) \<Rightarrow> retE (LocalProperty d FSTypeProperty) | _ \<Rightarrow> retE []))"

definition recordFilesystem :: "'s service \<Rightarrow> vol_id \<Rightarrow> string \<Rightarrow> ('s, go_error, unit) op" where
  "recordFilesystem c i fs =
     (if fs = [] then retE ()
      else tryE (sv_Client c (id_Backend i)) (\<lambda>r.
           case r of
             Inl _ \<Rightarrow> retE ()
           | Inr cl \<Rightarrow> tryE (SetUserProperty cl (DatasetPath i) FSTypeProperty fs) (\<lambda>_. retE ())))"

section \<open>CreateVolume\<close>

datatype content_source = SourceSnapshot string | SourceVolume string

record create_volume_request =
  cq_Name :: string
  cq_Capabilities :: "capability list"
  cq_Parameters :: params
  cq_Mutable :: params
  cq_RequiredBytes :: int
  cq_LimitBytes :: int
  cq_Topology :: "topology_requirement option"
  cq_Source :: "content_source option"

record volume_response =
  vr_VolumeId :: string
  vr_CapacityBytes :: int
  vr_Context :: params
  vr_Topology :: params
  vr_Source :: string

text \<open>The size that will be provisioned, from the capacity range and the backend's minimum.\<close>

definition provision_size :: "int \<Rightarrow> int \<Rightarrow> int \<Rightarrow> go_error + int" where
  "provision_size required limit minimum =
     (let want = (if required \<le> 0 then 1073741824 else required)
      in if want < minimum then (if 0 < limit \<and> limit < minimum then Inl (Status OutOfRange) else Inr minimum)
         else Inr want)"

text \<open>The snapshot a clone starts from: checked first, and taken only for a clone of a volume.\<close>

definition snapshot_source :: "'s service \<Rightarrow> vol_id \<Rightarrow> string \<Rightarrow> string \<Rightarrow> ('s, go_error, string) op" where
  "snapshot_source c i wantFS sid =
     bindE (requireSnapshotExists c sid) (\<lambda>_.
     case SnapshotSource sid of
       Inl _ \<Rightarrow> failE (Status NotFound)
     | Inr (srcBackend, zfsID) \<Rightarrow>
         if srcBackend \<noteq> id_Backend i then failE (Status InvalidArgument)
         else bindE (snapshotSourceType c sid) (\<lambda>typ.
              bindE (liftE (requireRestorableInto (id_Protocol i) typ)) (\<lambda>_.
              bindE (recordedFilesystem c srcBackend (fst (cut_on (CHR ''@'') zfsID))) (\<lambda>got.
              bindE (liftE (requireFilesystemMatches wantFS got)) (\<lambda>_.
              retE zfsID)))))"

definition volume_source :: "'s service \<Rightarrow> vol_id \<Rightarrow> string \<Rightarrow> string \<Rightarrow> string \<Rightarrow> ('s, go_error, string) op" where
  "volume_source c i wantFS name v =
     (case ParseID v of
        Inl _ \<Rightarrow> failE (Status NotFound)
      | Inr srcID \<Rightarrow>
          if id_Backend srcID \<noteq> id_Backend i then failE (Status InvalidArgument)
          else bindE (liftE (requireRestorableInto (id_Protocol i) (datasetTypeFor (id_Protocol srcID)))) (\<lambda>_.
               bindE (recordedFilesystem c (id_Backend srcID) (DatasetPath srcID)) (\<lambda>got.
               bindE (liftE (requireFilesystemMatches wantFS got)) (\<lambda>_.
               bindE (requireVolumeExists (sv_Controller c) srcID) (\<lambda>_.
               bindE (on_err toStatus (reg_CreateSnapshot (sv_reg c) (sv_Now c) srcID
                        (''csi-clone-'' @ sanitiseSnapshotName name))) (\<lambda>snap.
               bindE (on_err toStatus (liftE (SnapshotSource (ss_ID snap)))) (\<lambda>(_, zfsID).
               retE zfsID)))))))"

definition clone_source ::
  "'s service \<Rightarrow> vol_id \<Rightarrow> string \<Rightarrow> string \<Rightarrow> content_source option \<Rightarrow> ('s, go_error, string) op" where
  "clone_source c i wantFS name src =
     (case src of
        None \<Rightarrow> retE []
      | Some (SourceSnapshot sid) \<Rightarrow> snapshot_source c i wantFS sid
      | Some (SourceVolume v) \<Rightarrow> volume_source c i wantFS name v)"

text \<open>What the PersistentVolume will carry.\<close>

definition copy_context :: "params \<Rightarrow> params \<Rightarrow> params" where
  "copy_context src ctx = fold (\<lambda>(k, v) m. if sensitivePublishKeys k then m else put k v m) src ctx"

definition node_parameters :: "params \<Rightarrow> params \<Rightarrow> params" where
  "node_parameters ps ctx =
     fold (\<lambda>k m. case map_of ps k of Some v \<Rightarrow> if v \<noteq> [] then put k v m else m | None \<Rightarrow> m) NodeParameterKeys ctx"

definition KeyPVCName :: string where "KeyPVCName = ''csi.storage.k8s.io/pvc/name''"

definition volume_context :: "params \<Rightarrow> params \<Rightarrow> params \<Rightarrow> params" where
  "volume_context backendContext publishContext ps =
     (let ctx = node_parameters ps (copy_context publishContext (copy_context backendContext []));
          name = PVCName (IdentityFrom (map_of ps))
      in if name \<noteq> [] then put KeyPVCName name ctx else ctx)"

text \<open>Every check before the backend is called.\<close>

definition create_checks ::
  "'s service \<Rightarrow> create_volume_request \<Rightarrow> vol_id \<Rightarrow> 's backend \<Rightarrow> ('s, go_error, int \<times> params) op" where
  "create_checks c req i b =
     bindE (liftE (provision_size (cq_RequiredBytes req) (cq_LimitBytes req) (be_MinimumCapacityBytes b))) (\<lambda>want.
     bindE (requireRoomOutsideReserve c (id_Backend i) want) (\<lambda>_.
     bindE (requireRoomInNamespaceQuota c i want) (\<lambda>_.
     bindE (liftE (requireKnownParameters (sv_Lower c) (be_AcceptedParameters b) (cq_Parameters req))) (\<lambda>_.
       let topology = requiredTopology (id_Backend i) (id_Protocol i) (cq_Parameters req) (cq_Capabilities req)
       in bindE (liftE (requireTopologyReachable (cq_Topology req) topology)) (\<lambda>_.
          retE (want, topology))))))"

text \<open>After the volume exists: its filesystem, its attributes and its context.\<close>

definition create_finish ::
  "'s service \<Rightarrow> create_volume_request \<Rightarrow> params \<Rightarrow> vol_id \<Rightarrow> 's backend \<Rightarrow> string \<Rightarrow> params \<Rightarrow> string \<Rightarrow> Volume
     \<Rightarrow> ('s, go_error, volume_response) op" where
  "create_finish c req props i b wantFS topology source vol =
     bindE (recordFilesystem c i wantFS) (\<lambda>_.
     bindE (if props = [] then retE ()
            else bindE (volumeDataset c (v_ID vol)) (\<lambda>ds. applyModification c (v_ID vol) ds props)) (\<lambda>_.
     tryE (be_PublishContext b (v_ID vol)) (\<lambda>pc.
     retE \<lparr>vr_VolumeId = ID_String (v_ID vol), vr_CapacityBytes = v_CapacityBytes vol,
           vr_Context = volume_context (v_Context vol) (case pc of Inr m \<Rightarrow> m | Inl _ \<Rightarrow> []) (cq_Parameters req),
           vr_Topology = topology, vr_Source = source\<rparr>)))"

definition create_body ::
  "'s service \<Rightarrow> create_volume_request \<Rightarrow> params \<Rightarrow> vol_id \<Rightarrow> ('s, go_error, volume_response) op" where
  "create_body c req props i =
     bindE (on_err toStatus (sv_For c (id_Backend i) (id_Protocol i))) (\<lambda>b.
     bindE (create_checks c req i b) (\<lambda>(want, topology).
       let wantFS = blockFilesystemFor (id_Protocol i) (cq_Capabilities req)
       in bindE (clone_source c i wantFS (cq_Name req) (cq_Source req)) (\<lambda>source.
          bindE (on_err toStatus (be_Create b \<lparr>r_ID = i, r_CapacityBytes = want,
                   r_Params = map_of (cq_Parameters req), r_SourceSnapshot = source\<rparr>)) (\<lambda>vol.
          create_finish c req props i b wantFS topology source vol))))"

definition CreateVolume ::
  "'s service \<Rightarrow> create_volume_request \<Rightarrow> ('s \<times> string set, go_error, volume_response) op" where
  "CreateVolume c req =
     (if cq_Name req = [] \<or> cq_Capabilities req = [] then failE (Status InvalidArgument)
      else case resolveID (sv_Config c) (cq_Name req) (cq_Parameters req) of
             Inl e \<Rightarrow> failE e
           | Inr i \<Rightarrow>
               (case requireSupportedCapabilities (id_Protocol i) (cq_Capabilities req) of
                  Inl e \<Rightarrow> failE e
                | Inr _ \<Rightarrow>
                    (case parseModification (sv_Upper c) (cq_Mutable req) of
                       Inl e \<Rightarrow> failE e
                     | Inr props \<Rightarrow> with_lock (ID_String i) (create_body c req props i))))"

section \<open>DeleteVolume and ControllerExpandVolume\<close>

definition reclaimNamespaceDataset :: "'s service \<Rightarrow> vol_id \<Rightarrow> ('s, go_error, unit) op" where
  "reclaimNamespaceDataset c i =
     (if id_Namespace i = [] then retE ()
      else tryE (sv_Client c (id_Backend i)) (\<lambda>r.
           case r of
             Inl _ \<Rightarrow> retE ()
           | Inr cl \<Rightarrow> tryE (ReclaimNamespace cl (id_Pool i) (id_Parent i) (id_Namespace i)) (\<lambda>_. retE ())))"

definition delete_body :: "'s service \<Rightarrow> vol_id \<Rightarrow> ('s, go_error, unit) op" where
  "delete_body c i =
     bindE (on_err toStatus (sv_For c (id_Backend i) (id_Protocol i))) (\<lambda>be.
     bindE (on_err toStatus (be_Delete be i)) (\<lambda>_.
     reclaimNamespaceDataset c i))"

definition DeleteVolume :: "'s service \<Rightarrow> string \<Rightarrow> ('s \<times> string set, go_error, unit) op" where
  "DeleteVolume c volumeID =
     (if volumeID = [] then failE (Status InvalidArgument)
      else case ParseID volumeID of
             Inl _ \<Rightarrow> retE ()
           | Inr i \<Rightarrow>
               (case map_of (cf_Backends (sv_Config c)) (id_Backend i) of
                  None \<Rightarrow> failE (Status InvalidArgument)
                | Some b \<Rightarrow>
                    (case Confine i (cb_Pool b) (cb_ParentDataset b) of
                       Inl _ \<Rightarrow> failE (Status InvalidArgument)
                     | Inr _ \<Rightarrow> with_lock (ID_String i) (delete_body c i))))"

definition nodeExpansionRequired :: "string \<Rightarrow> bool" where
  "nodeExpansionRequired protocol \<longleftrightarrow> protocol \<noteq> ''nfs'' \<and> protocol \<noteq> ''smb''"

text \<open>The capacity range of an expansion is absent or has its required bytes.\<close>

definition ControllerExpandVolume ::
  "'s service \<Rightarrow> string \<Rightarrow> int option \<Rightarrow> ('s \<times> string set, go_error, int \<times> bool) op" where
  "ControllerExpandVolume c volumeID capacity =
     (if volumeID = [] then failE (Status InvalidArgument)
      else case capacity of
             None \<Rightarrow> failE (Status InvalidArgument)
           | Some want \<Rightarrow>
               (case ParseID volumeID of
                  Inl _ \<Rightarrow> failE (Status NotFound)
                | Inr i \<Rightarrow>
                    if want \<le> 0 then failE (Status InvalidArgument)
                    else with_lock (ID_String i)
                           (bindE (on_err toStatus (sv_For c (id_Backend i) (id_Protocol i))) (\<lambda>be.
                            bindE (on_err toStatus (be_Expand be i want)) (\<lambda>got.
                            retE (got, nodeExpansionRequired (id_Protocol i)))))))"

section \<open>Snapshots\<close>

definition snapshotNameOf :: "string \<Rightarrow> string" where
  "snapshotNameOf i = (case cut_last (CHR ''@'') i of Some (_, n) \<Rightarrow> n | None \<Rightarrow> i)"

definition rejectSnapshotNameReuse :: "'s service \<Rightarrow> vol_id \<Rightarrow> string \<Rightarrow> ('s, go_error, unit) op" where
  "rejectSnapshotNameReuse c source name =
     bindE (on_err toStatus (sv_Client c (id_Backend source))) (\<lambda>cl.
     bindE (on_err toStatus (liftE (reg_Backend (sv_Config c) (id_Backend source)))) (\<lambda>b.
     bindE (on_err toStatus (SnapshotList cl (cb_Pool b @ ''/'' @ cb_ParentDataset b))) (\<lambda>snaps.
       if list_ex (\<lambda>s. snapshotNameOf (sn_ID s) = name \<and> sn_Dataset s \<noteq> DatasetPath source) snaps
       then failE (Status AlreadyExists) else retE ())))"

record snapshot_response =
  sr_SnapshotId :: string
  sr_SourceVolumeId :: string
  sr_SizeBytes :: int
  sr_CreationTime :: "int option"
  sr_ReadyToUse :: bool

definition ctl_CreateSnapshot :: "'s service \<Rightarrow> string \<Rightarrow> string \<Rightarrow> ('s, go_error, snapshot_response) op" where
  "ctl_CreateSnapshot c reqName sourceID =
     (if reqName = [] \<or> sourceID = [] then failE (Status InvalidArgument)
      else case ParseID sourceID of
             Inl _ \<Rightarrow> failE (Status NotFound)
           | Inr i \<Rightarrow>
               let name = sanitiseSnapshotName reqName
               in bindE (rejectSnapshotNameReuse c i name) (\<lambda>_.
                  bindE (on_err toStatus (reg_CreateSnapshot (sv_reg c) (sv_Now c) i name)) (\<lambda>s.
                  retE \<lparr>sr_SnapshotId = ss_ID s, sr_SourceVolumeId = sourceID, sr_SizeBytes = ss_SizeBytes s,
                        sr_CreationTime = ss_CreationTime s, sr_ReadyToUse = ss_ReadyToUse s\<rparr>)))"

definition ctl_DeleteSnapshot :: "'s service \<Rightarrow> string \<Rightarrow> ('s, go_error, unit) op" where
  "ctl_DeleteSnapshot c sid =
     (if sid = [] then failE (Status InvalidArgument)
      else case SnapshotSource sid of
             Inl _ \<Rightarrow> retE ()
           | Inr _ \<Rightarrow> on_err toStatus (reg_DeleteSnapshot (sv_reg c) sid))"

section \<open>Every error carries a code\<close>

lemma coded_rooms [coded_rules]:
  "coded (requireRoomOutsideReserve c n w)" "coded (requireRoomInNamespaceQuota c i w)"
  unfolding requireRoomOutsideReserve_def requireRoomInNamespaceQuota_def Let_def
  by (intro coded_rules; simp)+

lemma coded_sources [coded_rules]:
  "coded (requireSnapshotExists c sid)" "coded (snapshotSourceType c sid)" "coded (recordedFilesystem c n d)"
  "coded (recordFilesystem c i fs)" "coded (reclaimNamespaceDataset c i)"
  unfolding requireSnapshotExists_def snapshotSourceType_def recordedFilesystem_def recordFilesystem_def
    reclaimNamespaceDataset_def
  by (intro coded_rules; simp)+

lemma coded_checks:
  "requireRestorableInto p t = Inl e \<Longrightarrow> status_Code e \<noteq> Unknown"
  "requireFilesystemMatches w g = Inl e \<Longrightarrow> status_Code e \<noteq> Unknown"
  "provision_size r l m = Inl e \<Longrightarrow> status_Code e \<noteq> Unknown"
  "requireKnownParameters low a ps = Inl e \<Longrightarrow> status_Code e \<noteq> Unknown"
  "requireTopologyReachable tr w' = Inl e \<Longrightarrow> status_Code e \<noteq> Unknown"
  "resolveID cfg n ps = Inl e \<Longrightarrow> status_Code e \<noteq> Unknown"
  "requireSupportedCapabilities pr caps = Inl e \<Longrightarrow> status_Code e \<noteq> Unknown"
  "parseModification up mu = Inl e \<Longrightarrow> status_Code e \<noteq> Unknown"
proof -
  show "requireSupportedCapabilities pr caps = Inl e \<Longrightarrow> status_Code e \<noteq> Unknown"
    by (induction pr caps rule: requireSupportedCapabilities.induct) (auto split: if_splits)
  show "parseModification up mu = Inl e \<Longrightarrow> status_Code e \<noteq> Unknown"
    by (auto simp: parseModification_def split: if_splits dest: coded_parse_keys)
  show "resolveID cfg n ps = Inl e \<Longrightarrow> status_Code e \<noteq> Unknown"
    by (auto simp: resolveID_def select_backend_def Let_def split: if_splits option.splits sum.splits)
qed (auto simp: requireRestorableInto_def requireFilesystemMatches_def provision_size_def Let_def
  requireKnownParameters_def requireTopologyReachable_def split: if_splits list.splits option.splits)

lemma coded_create [coded_rules]: "coded (CreateVolume c req)"
proof -
  have snap: "coded (snapshot_source c i w sid)" for i w sid
    unfolding snapshot_source_def by (intro coded_rules) (auto dest: coded_checks)
  have vol: "coded (volume_source c i w n v)" for i w n v
    unfolding volume_source_def by (intro coded_rules) (auto dest: coded_checks)
  have "coded (clone_source c i w n src)" for i w n src
    by (cases src) (auto simp: clone_source_def coded_basic snap vol split: content_source.split)
  moreover have "coded (create_checks c req i b)" for i b
    unfolding create_checks_def Let_def by (intro coded_rules) (auto dest: coded_checks)
  moreover have "coded (create_finish c req props i b w t s v)" for props i b w t s v
    unfolding create_finish_def by (intro coded_rules)
  ultimately have "coded (create_body c req props i)" for props i
    unfolding create_body_def Let_def by (intro coded_rules) simp_all
  then show ?thesis
    unfolding CreateVolume_def by (intro coded_rules) (auto dest: coded_checks)
qed

lemma coded_handlers [coded_rules]:
  "coded (DeleteVolume c v)" "coded (ControllerExpandVolume c v w)" "coded (ctl_CreateSnapshot c n v)"
  "coded (ctl_DeleteSnapshot c n)"
proof -
  have "coded (rejectSnapshotNameReuse c i n)" for i n
    unfolding rejectSnapshotNameReuse_def by (intro coded_rules) simp_all
  then show "coded (ctl_CreateSnapshot c n v)"
    unfolding ctl_CreateSnapshot_def Let_def by (intro coded_rules) simp_all
  show "coded (DeleteVolume c v)" "coded (ControllerExpandVolume c v w)" "coded (ctl_DeleteSnapshot c n)"
    unfolding DeleteVolume_def delete_body_def ControllerExpandVolume_def ctl_DeleteSnapshot_def
    by (intro coded_rules; simp)+
qed

section \<open>Secrets stay out of the volume context\<close>

definition clean_context :: "params \<Rightarrow> bool" where
  "clean_context m \<longleftrightarrow> (\<forall>k \<in> fst ` set m. \<not> sensitivePublishKeys k)"

lemma clean_put [simp]: "clean_context (put k v m) \<longleftrightarrow> \<not> sensitivePublishKeys k \<and> clean_context m"
  unfolding clean_context_def keys_put by simp

lemma clean_Nil [simp]: "clean_context []"
  unfolding clean_context_def by simp

lemma clean_copy: "clean_context m \<Longrightarrow> clean_context (copy_context src m)"
  unfolding copy_context_def
  by (rule fold_invariant [where Q = "\<lambda>_. True"]) (simp_all split: prod.split)

lemma clean_node_parameters: "clean_context m \<Longrightarrow> clean_context (node_parameters ps m)"
  unfolding node_parameters_def
  by (rule fold_invariant [where Q = "\<lambda>k. \<not> sensitivePublishKeys k"])
    (auto simp: NodeParameterKeys_def sensitivePublishKeys_def split: option.split)

lemma clean_volume_context: "clean_context (volume_context bc pc ps)"
  unfolding volume_context_def Let_def
  by (simp add: clean_copy clean_node_parameters sensitivePublishKeys_def KeyPVCName_def)

lemma provision_size_ge:
  "provision_size required limit minimum = Inr want \<Longrightarrow> required \<le> want \<and> minimum \<le> want"
  by (auto simp: provision_size_def Let_def split: if_splits)

lemma create_checks_ok:
  assumes "create_checks c req i b s = (Inr (want, topology), s')"
  shows "cq_RequiredBytes req \<le> want \<and> be_MinimumCapacityBytes b \<le> want \<and>
    requireTopologyReachable (cq_Topology req) topology = Inr () \<and>
    unknown_parameters (be_AcceptedParameters b) (cq_Parameters req) = []"
proof -
  from assms have "provision_size (cq_RequiredBytes req) (cq_LimitBytes req) (be_MinimumCapacityBytes b) = Inr want"
    and "requireTopologyReachable (cq_Topology req) topology = Inr ()"
    and k: "requireKnownParameters (sv_Lower c) (be_AcceptedParameters b) (cq_Parameters req) = Inr ()"
    unfolding create_checks_def Let_def by (auto elim!: bindE_InrE simp: liftE_run retE_run)
  moreover from k have "sort_strings (unknown_parameters (be_AcceptedParameters b) (cq_Parameters req)) = []"
    by (simp add: requireKnownParameters_def split: list.splits)
  then have "unknown_parameters (be_AcceptedParameters b) (cq_Parameters req) = []"
    by (metis length_0_conv length_sort sort_strings_def)
  ultimately show ?thesis using provision_size_ge by blast
qed

lemma create_finish_ok:
  assumes "create_finish c req props i b wantFS topology source vol s = (Inr v, s')"
  shows "clean_context (vr_Context v) \<and> vr_Topology v = topology \<and> vr_VolumeId v = ID_String (v_ID vol)
    \<and> vr_CapacityBytes v = v_CapacityBytes vol"
  using assms unfolding create_finish_def
  by (elim bindE_InrE) (auto simp: tryE_def retE_run clean_volume_context split: prod.splits)

lemma CreateVolume_cases:
  obtains (refused) e where "CreateVolume c req (s, held) = (Inl e, (s, held))"
  | (body) i props r s' h where "resolveID (sv_Config c) (cq_Name req) (cq_Parameters req) = Inr i"
      "create_body c req props i s = (r, s')" "CreateVolume c req (s, held) = (r, (s', h))"
proof (cases "resolveID (sv_Config c) (cq_Name req) (cq_Parameters req)")
  case (Inl e)
  then have "CreateVolume c req (s, held) = (Inl (if cq_Name req = [] \<or> cq_Capabilities req = [] then Status InvalidArgument else e), (s, held))"
    by (simp add: CreateVolume_def failE_def)
  then show ?thesis by (rule refused)
next
  case (Inr i)
  have run: "create_body c req props i s = (fst (create_body c req props i s), snd (create_body c req props i s))" for props
    by simp
  show ?thesis
    using refused body [OF Inr run] Inr
    by (cases "parseModification (sv_Upper c) (cq_Mutable req)";
        cases "requireSupportedCapabilities (id_Protocol i) (cq_Capabilities req)";
        cases "cq_Name req = [] \<or> cq_Capabilities req = []"; cases "ID_String i \<in> held")
      (simp_all add: CreateVolume_def failE_def with_lock_def TryAcquire_def split_beta)
qed

text \<open>
  C29. A volume that CreateVolume reports was created by the backend of its protocol under an id
  confined to the configured pool and parent, with at least the bytes asked for and the backend's
  minimum. Every parameter of its StorageClass is one that is read, a node the scheduler offered
  can serve it, and its context, which is stored in the PersistentVolume, carries no credential.
\<close>

theorem created_volume:
  assumes "CreateVolume c req (s, held) = (Inr v, (s', held'))"
  shows "\<exists>i b be r vol s1 t t'.
    resolveID (sv_Config c) (cq_Name req) (cq_Parameters req) = Inr i
    \<and> map_of (cf_Backends (sv_Config c)) (id_Backend i) = Some b \<and> Confine i (cb_Pool b) (cb_ParentDataset b) = Inr ()
    \<and> sv_For c (id_Backend i) (id_Protocol i) s = (Inr be, s1) \<and> be_Create be r t = (Inr vol, t') \<and> r_ID r = i
    \<and> cq_RequiredBytes req \<le> r_CapacityBytes r \<and> be_MinimumCapacityBytes be \<le> r_CapacityBytes r
    \<and> unknown_parameters (be_AcceptedParameters be) (cq_Parameters req) = []
    \<and> requireTopologyReachable (cq_Topology req) (vr_Topology v) = Inr ()
    \<and> vr_VolumeId v = ID_String (v_ID vol) \<and> vr_CapacityBytes v = v_CapacityBytes vol
    \<and> clean_context (vr_Context v)"
proof -
  obtain i props where i: "resolveID (sv_Config c) (cq_Name req) (cq_Parameters req) = Inr i"
    and body: "create_body c req props i s = (Inr v, s')"
    using assms by (cases rule: CreateVolume_cases [of c req s held]) auto
  obtain b where b: "map_of (cf_Backends (sv_Config c)) (id_Backend i) = Some b" "Confine i (cb_Pool b) (cb_ParentDataset b) = Inr ()"
    using resolveID_confined [OF i] by blast
  obtain be s1 want topology s2 source s3 vol s4
    where be: "on_err toStatus (sv_For c (id_Backend i) (id_Protocol i)) s = (Inr be, s1)"
    and checks: "create_checks c req i be s1 = (Inr (want, topology), s2)"
    and create: "on_err toStatus (be_Create be \<lparr>r_ID = i, r_CapacityBytes = want, r_Params = map_of (cq_Parameters req),
        r_SourceSnapshot = source\<rparr>) s3 = (Inr vol, s4)"
    and finish: "create_finish c req props i be (blockFilesystemFor (id_Protocol i) (cq_Capabilities req)) topology source vol s4
        = (Inr v, s')"
    using body unfolding create_body_def Let_def by (auto elim!: bindE_InrE split: prod.splits)
  have on_err: "on_err toStatus m s = (Inr x, s') \<Longrightarrow> m s = (Inr x, s')" for m :: "('a, go_error, 'b) op" and s x s'
    by (auto simp: on_err_def tryE_def retE_def failE_def split: prod.splits sum.splits)
  from create have "be_Create be \<lparr>r_ID = i, r_CapacityBytes = want, r_Params = map_of (cq_Parameters req),
        r_SourceSnapshot = source\<rparr> s3 = (Inr vol, s4)"
    by (rule on_err)
  with i b on_err [OF be] create_checks_ok [OF checks] create_finish_ok [OF finish] show ?thesis
    by (intro exI [of _ i] exI [of _ b] exI [of _ be] exI [of _ "\<lparr>r_ID = i, r_CapacityBytes = want,
      r_Params = map_of (cq_Parameters req), r_SourceSnapshot = source\<rparr>"] exI [of _ vol] exI [of _ s1] exI [of _ s3] exI [of _ s4]) simp
qed

section \<open>A refused clone takes no snapshot\<close>

definition no_snapshot :: "string \<times> json list \<Rightarrow> bool" where
  "no_snapshot mp \<longleftrightarrow> fst mp \<noteq> ''pool.snapshot.create''"

lemma calls_EnsureNamespace:
  assumes "\<And>ps. P (''pool.dataset.query'', ps)" "\<And>ps. P (''pool.dataset.create'', ps)" "\<And>ps. P (''pool.dataset.update'', ps)"
  shows "only_calls P (EnsureNamespace (recording call) pool parent ns quota)"
  unfolding EnsureNamespace_def find_or_create_def
  by (intro calls calls_Query calls_DatasetCreate calls_reconcile_quota assms)

lemma calls_create_checks:
  assumes "dials c (recording call)"
  shows "only_calls no_snapshot (create_checks c req i b)"
  unfolding create_checks_def requireRoomOutsideReserve_def requireRoomInNamespaceQuota_def Let_def
  by (intro calls calls_sv_Client [OF assms] calls_Query calls_EnsureNamespace) (simp_all add: no_snapshot_def)

text \<open>The clone of a volume that can never succeed: another appliance, or the other kind of dataset.\<close>

definition clonable :: "vol_id \<Rightarrow> string \<Rightarrow> bool" where
  "clonable i v = (case ParseID v of
     Inl _ \<Rightarrow> False
   | Inr src \<Rightarrow> id_Backend src = id_Backend i \<and> datasetTypeFor (id_Protocol src) = datasetTypeFor (id_Protocol i))"

lemma volume_source_refused:
  assumes "\<not> clonable i v"
  shows "volume_source c i wantFS name v = failE (Status NotFound) \<or> volume_source c i wantFS name v = failE (Status InvalidArgument)"
  using assms by (auto simp: volume_source_def clonable_def requireRestorableInto_def datasetTypeFor_def split: sum.splits)


end
