(* ===== verification/Capacity.thy ===== *)
theory Capacity
  imports Controller
begin

text \<open>
  Capacity and listings, \<^verbatim>\<open>internal/csi/capacity.go\<close>: \<^verbatim>\<open>GetCapacity\<close>, the two paginated listings, and
  the facts about the reservation that the admission of volumes rests on. A slice taken out of
  range is a panic, which is an error without a code here.
\<close>

definition GetCapacity :: "'s service \<Rightarrow> params \<Rightarrow> ('s, go_error, int \<times> int) op" where
  "GetCapacity c ps =
     (case select_backend (sv_Config c) ps of
        Inl e \<Rightarrow> failE e
      | Inr (name, b) \<Rightarrow>
          bindE (on_err toStatus (sv_Client c name)) (\<lambda>cl.
          bindE (on_err toStatus (DatasetQuery cl (cb_Pool b))) (\<lambda>root.
          case root of
            None \<Rightarrow> failE (Status FailedPrecondition)
          | Some ds \<Rightarrow>
              let usable = usableCapacity (ds_Available ds)
                    (poolReserve (ds_Available ds) (ds_Used ds) (cb_ReservedBytes b) (cb_ReservedPercent b))
              in retE (usable, usable))))"

section \<open>Listing volumes\<close>

record volEntry =
  ve_id :: string
  ve_size :: int
  ve_published :: "string list"

definition volume_entry :: "string \<Rightarrow> cfg_backend \<Rightarrow> dataset \<Rightarrow> go_error + volEntry option" where
  "volume_entry name b d =
     (let pre = cb_Pool b @ ''/'' @ cb_ParentDataset b @ ''/''
      in if \<not> Owned (Some d) OwnerProperty OwnerValue then Inr None
         else if IsNamespaceDataset (LocalProperty d NamespaceProperty) then Inr None
         else if IsGraveyard (LocalProperty d GraveyardProperty) \<or> IsRetired (LocalProperty d DeletedAtProperty) then Inr None
         else if length (ds_ID d) < length pre then Inl (Plain ''panic: slice bounds out of range'')
         else let leaf = drop (length pre) (ds_ID d);
                  (fallback, bytes) = (if ds_Type d = ''VOLUME'' then (''iscsi'', ds_VolSize d) else (''nfs'', ds_RefQuota d));
                  proto = ProtocolOr (LocalProperty d ProtocolProperty) fallback
              in case IDFromLeaf name proto (cb_Pool b) (cb_ParentDataset b) leaf of
                   Inl _ \<Rightarrow> Inr None
                 | Inr vid \<Rightarrow>
                     Inr (Some \<lparr>ve_id = ID_String vid, ve_size = bytes,
                       ve_published = (case DecodeGrants (LocalProperty d PublishedProperty) of
                                         Inr grants \<Rightarrow> Nodes grants | Inl _ \<Rightarrow> [])\<rparr>))"

fun volume_entries :: "string \<Rightarrow> cfg_backend \<Rightarrow> dataset list \<Rightarrow> go_error + volEntry list" where
  "volume_entries name b [] = Inr []"
| "volume_entries name b (d # ds) =
     (case volume_entry name b d of
        Inl e \<Rightarrow> Inl e
      | Inr entry \<Rightarrow>
          (case volume_entries name b ds of
             Inl e \<Rightarrow> Inl e
           | Inr es \<Rightarrow> Inr ((case entry of None \<Rightarrow> [] | Some x \<Rightarrow> [x]) @ es)))"

fun gather_volumes :: "'s service \<Rightarrow> string list \<Rightarrow> ('s, go_error, volEntry list) op" where
  "gather_volumes c [] = retE []"
| "gather_volumes c (name # names) =
     (case reg_Backend (sv_Config c) name of
        Inl _ \<Rightarrow> gather_volumes c names
      | Inr b \<Rightarrow>
          tryE (sv_Client c name) (\<lambda>r.
          case r of
            Inl _ \<Rightarrow> gather_volumes c names
          | Inr cl \<Rightarrow>
              bindE (on_err toStatus (DatasetList cl (cb_Pool b @ ''/'' @ cb_ParentDataset b @ ''/''))) (\<lambda>ds.
              bindE (liftE (volume_entries name b ds)) (\<lambda>es.
              bindE (gather_volumes c names) (\<lambda>rest. retE (es @ rest))))))"

text \<open>
  One page of a sorted listing. The token is the id of the first entry of the page; the next token
  is empty on the last page.
\<close>

fun find_index :: "('a \<Rightarrow> bool) \<Rightarrow> 'a list \<Rightarrow> nat option" where
  "find_index P [] = None"
| "find_index P (x # xs) = (if P x then Some 0 else map_option Suc (find_index P xs))"

definition page :: "('a \<Rightarrow> string) \<Rightarrow> 'a list \<Rightarrow> string \<Rightarrow> int \<Rightarrow> go_error + 'a list \<times> string" where
  "page key all token maxEntries =
     (case (if token = [] then Some 0 else find_index (\<lambda>e. key e = token) all) of
        None \<Rightarrow> Inl (Status Aborted)
      | Some start \<Rightarrow>
          let n = (if maxEntries \<le> 0 \<or> int start + maxEntries > int (length all)
                   then length all - start else nat maxEntries);
              next = start + n
          in Inr (take n (drop start all), if next < length all then key (all ! next) else []))"

definition ListVolumes :: "'s service \<Rightarrow> string \<Rightarrow> int \<Rightarrow> ('s, go_error, volEntry list \<times> string) op" where
  "ListVolumes c token maxEntries =
     bindE (gather_volumes c (sort_strings (Names (sv_Config c)))) (\<lambda>all.
     liftE (page ve_id (sort_key ve_id all) token maxEntries))"

section \<open>Listing snapshots\<close>

definition snapshotPB :: "config \<Rightarrow> string \<Rightarrow> string \<Rightarrow> string \<Rightarrow> int \<Rightarrow> int option \<Rightarrow> snapshot_response" where
  "snapshotPB cfg i sourceDataset backendName bytes creation =
     \<lparr>sr_SnapshotId = i,
      sr_SourceVolumeId =
        (case reg_Backend cfg backendName of
           Inl _ \<Rightarrow> sourceDataset
         | Inr b \<Rightarrow>
             let pre = cb_Pool b @ ''/'' @ cb_ParentDataset b @ ''/''
             in if has_prefix pre sourceDataset
                then (case IDFromLeaf backendName ''nfs'' (cb_Pool b) (cb_ParentDataset b) (trim_prefix pre sourceDataset) of
                        Inr vid \<Rightarrow> ID_String vid | Inl _ \<Rightarrow> sourceDataset)
                else sourceDataset),
      sr_SizeBytes = bytes, sr_CreationTime = creation, sr_ReadyToUse = True\<rparr>"

fun gather_snapshots :: "'s service \<Rightarrow> string list \<Rightarrow> ('s, go_error, snapshot_response list) op" where
  "gather_snapshots c [] = retE []"
| "gather_snapshots c (name # names) =
     tryE (reg_ListSnapshots (sv_reg c) name) (\<lambda>r.
       case r of
         Inl _ \<Rightarrow> gather_snapshots c names
       | Inr snaps \<Rightarrow>
           bindE (gather_snapshots c names) (\<lambda>rest.
           retE (map (\<lambda>s. snapshotPB (sv_Config c) (ss_ID s) (ss_SourceVolumeID s) name (ss_SizeBytes s) (ss_CreationTime s)) snaps
                 @ rest)))"

definition of_source :: "string \<Rightarrow> snapshot_response list \<Rightarrow> snapshot_response list option" where
  "of_source src all =
     (if src = [] then Some all
      else case ParseID src of
             Inl _ \<Rightarrow> None
           | Inr i \<Rightarrow> Some (filter (\<lambda>s. sr_SourceVolumeId s = DatasetPath i \<or> sr_SourceVolumeId s = src) all))"

definition ctl_ListSnapshots ::
  "'s service \<Rightarrow> string \<Rightarrow> string \<Rightarrow> string \<Rightarrow> int \<Rightarrow> ('s, go_error, snapshot_response list \<times> string) op" where
  "ctl_ListSnapshots c sid src token maxEntries =
     (if sid \<noteq> [] then
        (case SnapshotSource sid of
           Inl _ \<Rightarrow> retE ([], [])
         | Inr (backendName, _) \<Rightarrow>
             tryE (reg_Snapshot (sv_reg c) sid) (\<lambda>q.
             case q of
               Inr (Some snap) \<Rightarrow>
                 retE ([snapshotPB (sv_Config c) sid (ss_SourceVolumeID snap) backendName (ss_SizeBytes snap) (ss_CreationTime snap)], [])
             | _ \<Rightarrow> retE ([], [])))
      else bindE (gather_snapshots c (sort_strings (Names (sv_Config c)))) (\<lambda>all.
           case of_source src all of
             None \<Rightarrow> retE ([], [])
           | Some kept \<Rightarrow> liftE (page sr_SnapshotId (sort_key sr_SnapshotId kept) token maxEntries)))"

section \<open>Every page once\<close>

text \<open>
  A client reads a listing page by page: it starts without a token and follows the token of each
  answer until there is none.
\<close>

fun read_pages :: "(string \<Rightarrow> ('s, go_error, 'a list \<times> string) op) \<Rightarrow> nat \<Rightarrow> string \<Rightarrow> ('s, go_error, 'a list option) op" where
  "read_pages list 0 token = retE None"
| "read_pages list (Suc n) token =
     bindE (list token) (\<lambda>(es, next).
       if next = [] then retE (Some es)
       else bindE (read_pages list n next) (\<lambda>rest. retE (map_option ((@) es) rest)))"

lemma find_index_nth:
  assumes "distinct (map key xs)" "i < length xs"
  shows "find_index (\<lambda>e. key e = key (xs ! i)) xs = Some i"
  using assms
proof (induction xs arbitrary: i)
  case (Cons x xs)
  then show ?case by (cases i) auto
qed simp

lemma page_at:
  assumes "distinct (map key xs)" "[] \<notin> key ` set xs" "0 < m" "i < length xs" "token = (if i = 0 then [] else key (xs ! i))"
  shows "page key xs token m =
    Inr (take (nat m) (drop i xs), if i + nat m < length xs then key (xs ! (i + nat m)) else [])"
proof -
  have "key (xs ! i) \<noteq> []" using assms(2,4) by (metis imageI nth_mem)
  then have start: "(if token = [] then Some 0 else find_index (\<lambda>e. key e = token) xs) = Some i"
    using assms(5) find_index_nth [OF assms(1,4)] by auto
  show ?thesis
    using assms(3,4) unfolding page_def start by (auto simp: Let_def nat_add_distrib)
qed

lemma read_pages_from:
  assumes "distinct (map key xs)" "[] \<notin> key ` set xs" "0 < m" "i < length xs" "token = (if i = 0 then [] else key (xs ! i))"
    and list: "\<And>t. list t s = (page key xs t m, s)" and "length xs - i \<le> n"
  shows "read_pages list n token s = (Inr (Some (drop i xs)), s)"
  using assms(4,5,7)
proof (induction n arbitrary: i token)
  case (Suc n)
  have p: "list token s = (Inr (take (nat m) (drop i xs), if i + nat m < length xs then key (xs ! (i + nat m)) else []), s)"
    using list page_at [OF assms(1-3) Suc.prems(1,2)] by simp
  show ?case
  proof (cases "i + nat m < length xs")
    case True
    have "key (xs ! (i + nat m)) \<noteq> []" using assms(2) True by (metis imageI nth_mem)
    moreover have "read_pages list n (key (xs ! (i + nat m))) s = (Inr (Some (drop (i + nat m) xs)), s)"
      using Suc.IH [of "i + nat m"] True Suc.prems(3) assms(3) by simp
    ultimately show ?thesis
      using True p append_take_drop_id [of "nat m" "drop i xs"] by (simp add: bindE_def retE_def add.commute)
  next
    case False
    then show ?thesis using p by (simp add: bindE_def retE_def)
  qed
qed simp

lemma volume_entry_id: "volume_entry name b d = Inr (Some e) \<Longrightarrow> ve_id e \<noteq> []"
  by (auto simp: volume_entry_def Let_def ID_String_def components_def split: if_splits sum.splits prod.splits)

lemma volume_entries_id: "volume_entries name b ds = Inr es \<Longrightarrow> [] \<notin> ve_id ` set es"
proof (induction ds arbitrary: es)
  case (Cons d ds)
  obtain x ys where x: "volume_entry name b d = Inr x" and ys: "volume_entries name b ds = Inr ys"
    using Cons.prems by (cases "volume_entry name b d"; cases "volume_entries name b ds") simp_all
  then have "es = (case x of None \<Rightarrow> [] | Some e \<Rightarrow> [e]) @ ys" using Cons.prems by simp
  then show ?case using Cons.IH [OF ys] volume_entry_id x by (cases x) fastforce+
qed simp

lemma gather_volumes_id: "gather_volumes c names s = (Inr es, s') \<Longrightarrow> [] \<notin> ve_id ` set es"
proof (induction names arbitrary: s es s')
  case (Cons name names)
  show ?case
  proof (cases "reg_Backend (sv_Config c) name")
    case (Inl e)
    then show ?thesis using Cons by simp
  next
    case (Inr b)
    obtain r s1 where r: "sv_Client c name s = (r, s1)" by (meson surj_pair)
    show ?thesis
    proof (cases r)
      case (Inl e)
      then show ?thesis using Cons Inr r by (simp add: tryE_def)
    next
      case cl: (Inr cl)
      obtain ds s2 es1 rest s3 where "volume_entries name b ds = Inr es1" "gather_volumes c names s2 = (Inr rest, s3)" "es = es1 @ rest"
        using Cons.prems Inr r cl by (auto simp: tryE_def liftE_def retE_def elim!: bindE_InrE)
      then show ?thesis using Cons.IH volume_entries_id by fastforce
    qed
  qed
qed (simp add: retE_def)


section \<open>The reservation\<close>

lemma exponent_of_le:
  assumes "0 < q"
  shows "pow2 (exponent_of q) \<le> q"
proof -
  obtain n d where nd: "quotient_of q = (n, d)" by (meson surj_pair)
  have d: "0 < d" and q: "q = of_int n / of_int d"
    using quotient_of_denom_pos [OF nd] quotient_of_div [OF nd] by simp_all
  with assms have n: "0 < n" by (simp add: zero_less_divide_iff)
  let ?k = "bitlen n - bitlen d"
  have lo: "2 ^ nat (bitlen n - 1) \<le> n" and hi: "d < 2 ^ nat (bitlen d)"
    using bitlen_bounds [OF n] bitlen_bounds [OF d] by simp_all
  have "pow2 (?k - 1) \<le> q"
  proof -
    have "pow2 (?k - 1) * 2 ^ nat (bitlen d) = 2 ^ nat (bitlen n - 1)"
    proof (cases "0 \<le> ?k - 1")
      case True
      then have "nat (bitlen n - 1) = nat (?k - 1) + nat (bitlen d)"
        using bitlen_nonneg [of d] by simp
      then show ?thesis using True by (simp add: pow2_def power_add)
    next
      case False
      then have "nat (bitlen d) = nat (- (?k - 1)) + nat (bitlen n - 1)"
        using bitlen_eq_zero_iff [of n] bitlen_nonneg [of n] n by linarith
      then show ?thesis using False by (simp add: pow2_def power_add)
    qed
    then have "pow2 (?k - 1) * of_int d \<le> 2 ^ nat (bitlen n - 1)"
      using hi pow2_pos [of "?k - 1"]
      by (metis less_imp_le mult_left_mono of_int_le_iff of_int_numeral of_int_power)
    also have "\<dots> \<le> of_int n" using lo by (metis of_int_le_iff of_int_numeral of_int_power)
    finally show ?thesis using d by (simp add: q pos_le_divide_eq)
  qed
  then show ?thesis by (simp add: exponent_of_def nd Let_def)
qed

lemma pow2_add: "pow2 (a + b) = pow2 a * pow2 b"
proof -
  have "pow2 e = 2 powi e" for e by (simp add: pow2_def power_int_def divide_simps power_inverse)
  then show ?thesis by (simp add: power_int_add)
qed

lemma floor_add_one_gt: "(q :: rat) < of_int \<lfloor>q\<rfloor> + 1"
  by linarith

lemma round_half_even_error: "\<bar>of_int (round_half_even q) - q\<bar> \<le> 1 / 2"
  using of_int_floor_le [of q] floor_add_one_gt [of q]
  unfolding round_half_even_def Let_def by (simp add: abs_if) linarith

lemma float64_error:
  assumes "0 \<le> q"
  shows "\<bar>float64 q - q\<bar> \<le> q / 2 ^ 53"
proof (cases "q = 0")
  case False
  with assms have q: "0 < q" by simp
  define u where "u = pow2 (52 - exponent_of q)"
  have u: "0 < u" and "2 ^ 52 \<le> q * u"
  proof -
    show "0 < u" by (simp add: u_def)
    have "pow2 (exponent_of q) * u = 2 ^ 52"
      unfolding u_def by (simp flip: pow2_add) (simp add: pow2_def)
    then show "2 ^ 52 \<le> q * u"
      using exponent_of_le [OF q] \<open>0 < u\<close> by (metis less_imp_le mult_right_mono)
  qed
  have "\<bar>float64 q - q\<bar> = \<bar>of_int (round_half_even (q * u)) - q * u\<bar> / u"
  proof -
    have "float64 q = of_int (round_half_even (q * u)) / u" using q by (simp add: float64_def u_def Let_def)
    then have "float64 q - q = (of_int (round_half_even (q * u)) - q * u) / u" using u by (simp add: diff_divide_distrib)
    then show ?thesis using u by (simp add: abs_divide)
  qed
  also have "\<dots> \<le> (1 / 2) / u"
    by (rule divide_right_mono [OF round_half_even_error]) (use u in simp)
  also have "\<dots> \<le> q / 2 ^ 53"
    using u \<open>2 ^ 52 \<le> q * u\<close> by (simp add: field_simps)
  finally show ?thesis .
qed (simp add: float64_def)

lemma float64_between:
  assumes "0 \<le> q"
  shows "q * (1 - 1 / 2 ^ 53) \<le> float64 q" "float64 q \<le> q * (1 + 1 / 2 ^ 53)"
proof -
  have "float64 q - q \<le> q / 2 ^ 53" "- (q / 2 ^ 53) \<le> float64 q - q"
    using float64_error [OF assms] unfolding abs_le_iff by linarith+
  then show "q * (1 - 1 / 2 ^ 53) \<le> float64 q" "float64 q \<le> q * (1 + 1 / 2 ^ 53)"
    by (simp_all add: right_diff_distrib distrib_left)
qed

text \<open>The percentage as the code computes it, within four units in the last place of the exact one.\<close>

lemma percent_between:
  assumes "0 \<le> x" "0 \<le> p"
  defines "y \<equiv> float64 (float64 (float64 x * p) / 100)"
  shows "x * p / 100 * (1 - 4 / 2 ^ 53) \<le> y" "y \<le> x * p / 100 * (1 + 4 / 2 ^ 53)"
proof -
  let ?l = "1 - 1 / 2 ^ 53 :: rat" and ?h = "1 + 1 / 2 ^ 53 :: rat"
  note nn = float64_nonneg [OF assms(1)] mult_nonneg_nonneg [OF float64_nonneg [OF assms(1)] assms(2)]
  have nn3: "0 \<le> float64 (float64 x * p) / 100" using float64_nonneg [OF nn(2)] by simp
  have "x * ?l * p * ?l / 100 * ?l \<le> float64 x * p * ?l / 100 * ?l"
    using float64_between(1) [OF assms(1)] assms(2)
    by (intro mult_right_mono divide_right_mono) simp_all
  also have "\<dots> \<le> float64 (float64 x * p) / 100 * ?l"
    using float64_between(1) [OF nn(2)] by (intro mult_right_mono divide_right_mono) simp_all
  also have "\<dots> \<le> y" unfolding y_def by (rule float64_between(1) [OF nn3])
  finally have l: "x * p / 100 * (?l * ?l * ?l) \<le> y" by (simp add: mult_ac)
  have "x * p / 100 * (1 - 4 / 2 ^ 53) \<le> x * p / 100 * (?l * ?l * ?l)"
    using assms by (intro mult_left_mono) simp_all
  with l show "x * p / 100 * (1 - 4 / 2 ^ 53) \<le> y" by linarith
  have "y \<le> float64 (float64 x * p) / 100 * ?h" unfolding y_def by (rule float64_between(2) [OF nn3])
  also have "\<dots> \<le> float64 x * p * ?h / 100 * ?h"
    using float64_between(2) [OF nn(2)] by (intro mult_right_mono divide_right_mono) simp_all
  also have "\<dots> \<le> x * ?h * p * ?h / 100 * ?h"
    using float64_between(2) [OF assms(1)] assms(2) by (intro mult_right_mono divide_right_mono) simp_all
  finally have h: "y \<le> x * p / 100 * (?h * ?h * ?h)" by (simp add: mult_ac)
  have "x * p / 100 * (?h * ?h * ?h) \<le> x * p / 100 * (1 + 4 / 2 ^ 53)"
    using assms by (intro mult_left_mono) simp_all
  with h show "y \<le> x * p / 100 * (1 + 4 / 2 ^ 53)" by linarith
qed

lemma max_of_three: "max 0 (max b y) = max 0 b \<or> max 0 (max b y) = (y :: int)"
  by (auto simp: max_def)

text \<open>
  C34. The reservation is what the operator asked for: at least the bytes, and at least the
  percentage of the writable pool up to the rounding of the arithmetic and the final truncation,
  and never more than the larger of the two. What the driver hands out is never negative and
  never reaches into it.
\<close>

theorem poolReserve_bounds:
  assumes "0 \<le> free" "0 \<le> used" "free + used < 2 ^ 62" "in_int64 bytes" "0 \<le> p" "p \<le> 100"
  defines "r \<equiv> poolReserve free used bytes p" and "share \<equiv> of_int (free + used) * p / 100"
  shows "max 0 bytes \<le> r \<and> share * (1 - 4 / 2 ^ 53) - 1 \<le> of_int r
    \<and> of_int r \<le> max (of_int (max 0 bytes)) (share * (1 + 4 / 2 ^ 53))
    \<and> (usableCapacity free r = 0 \<and> free \<le> r \<or> 0 < usableCapacity free r \<and> usableCapacity free r + r = free)"
proof -
  let ?y = "float64 (float64 (float64 (of_int (free + used)) * p) / 100)"
  have y: "share * (1 - 4 / 2 ^ 53) \<le> ?y" "?y \<le> share * (1 + 4 / 2 ^ 53)"
    using percent_between [of "of_int (free + used)" p] assms by simp_all
  have share: "0 \<le> share" "share \<le> 2 ^ 62"
  proof -
    show "0 \<le> share" using assms by simp
    have "of_int (free + used) \<le> (2 ^ 62 :: rat)" using assms(3) by (metis less_imp_le of_int_le_iff of_int_numeral of_int_power)
    then have "of_int (free + used) * p \<le> 2 ^ 62 * 100" using assms by (intro mult_mono) simp_all
    then show "share \<le> 2 ^ 62" unfolding share_def by simp
  qed
  have "0 \<le> ?y" by (intro float64_nonneg divide_nonneg_nonneg mult_nonneg_nonneg) (use assms in simp_all)
  then have pct: "trunc64 ?y = \<lfloor>?y\<rfloor>" by (simp add: trunc64_def)
  have sum: "add64 free used = free + used"
    using assms by (intro add64_exact) (simp add: in_int64_def min_int64_def max_int64_def)
  have r: "r = (if 0 < p \<and> 0 < free + used then max 0 (max bytes \<lfloor>?y\<rfloor>) else max 0 bytes)"
    unfolding r_def poolReserve_def sum pct Let_def by (auto simp: max_def simp del: of_int_add)
  have floor: "\<lfloor>?y\<rfloor> < 2 ^ 63"
  proof -
    have "?y \<le> 2 ^ 62 * (1 + 4 / 2 ^ 53)" 
      by (rule order_trans [OF y(2) mult_right_mono [OF share(2)]]) simp
    then have "?y < of_int (2 ^ 63)" by simp
    then show ?thesis by (simp only: floor_less_iff)
  qed
  have low: "max 0 bytes \<le> r" unfolding r by (auto simp: le_max_iff_disj)
  have r63: "r < 2 ^ 63" using floor assms(4) by (simp add: r in_int64_def max_int64_def)
  have lower: "share * (1 - 4 / 2 ^ 53) - 1 \<le> of_int r"
  proof (cases "0 < p \<and> 0 < free + used")
    case True
    then have "\<lfloor>?y\<rfloor> \<le> r" by (simp add: r)
    then have "of_int \<lfloor>?y\<rfloor> \<le> (of_int r :: rat)" by (simp only: of_int_le_iff)
    then show ?thesis using y(1) floor_add_one_gt [of ?y] by linarith
  next
    case False
    then have "p = 0 \<or> free + used = 0" using assms by auto
    then have "share = 0" by (auto simp: share_def simp del: of_int_add)
    then show ?thesis using low by simp
  qed
  have upper: "of_int r \<le> max (of_int (max 0 bytes)) (share * (1 + 4 / 2 ^ 53))"
  proof (cases "r = max 0 bytes")
    case False
    then have "r = \<lfloor>?y\<rfloor>" 
      using r max_of_three [of bytes "\<lfloor>?y\<rfloor>"] by (metis (full_types))
    then have "of_int r \<le> ?y" by (simp only: of_int_floor_le)
    then show ?thesis using y(2) by (simp only: le_max_iff_disj) linarith
  qed (simp only: max.cobounded1)
  have "sub64 free r = free - r"
    using assms(1-3) low r63 by (intro sub64_exact) (simp add: in_int64_def min_int64_def max_int64_def)
  then have "usableCapacity free r = 0 \<and> free \<le> r \<or> 0 < usableCapacity free r \<and> usableCapacity free r + r = free"
    by (simp add: usableCapacity_def Let_def)
  with low lower upper show ?thesis by blast
qed

end
