(* ===== verification/GroupController.thy ===== *)
theory GroupController
  imports Capacity
begin

text \<open>
  The group controller, \<^verbatim>\<open>internal/csi/groupcontroller.go\<close>: the handlers around the group snapshots
  of the registry. Its locks are keyed by the name of the group on creation and by its id on
  deletion. The last section says of every handler of the two services that its errors carry a code.
\<close>

record group_response =
  gr_Id :: string
  gr_CreationTime :: "int option"
  gr_ReadyToUse :: bool
  gr_Snapshots :: "snapshot_response list"

fun parse_sources :: "string list \<Rightarrow> go_error + vol_id list" where
  "parse_sources [] = Inr []"
| "parse_sources (raw # raws) =
     (case ParseID raw of
        Inl _ \<Rightarrow> Inl (Status NotFound)
      | Inr i \<Rightarrow> (case parse_sources raws of Inl e \<Rightarrow> Inl e | Inr is \<Rightarrow> Inr (i # is)))"

fun require_volumes :: "'s service \<Rightarrow> vol_id list \<Rightarrow> ('s, go_error, unit) op" where
  "require_volumes c [] = retE ()"
| "require_volumes c (i # is) = bindE (requireVolumeExists (sv_Controller c) i) (\<lambda>_. require_volumes c is)"

definition group_create_body :: "'s service \<Rightarrow> vol_id list \<Rightarrow> string \<Rightarrow> ('s, go_error, group_response) op" where
  "group_create_body c sources name =
     bindE (on_err toStatus (liftE (CheckGroupSources (sv_reg c) sources))) (\<lambda>_.
     bindE (require_volumes c sources) (\<lambda>_.
     bindE (on_err toStatus (reg_CreateGroupSnapshot (sv_reg c) (sv_Now c) sources name)) (\<lambda>gs.
     retE \<lparr>gr_Id = gs_ID gs, gr_CreationTime = gs_CreationTime gs, gr_ReadyToUse = gs_ReadyToUse gs,
           gr_Snapshots = map (\<lambda>m. \<lparr>sr_SnapshotId = ss_ID m, sr_SourceVolumeId = ss_SourceVolumeID m,
             sr_SizeBytes = ss_SizeBytes m, sr_CreationTime = ss_CreationTime m, sr_ReadyToUse = ss_ReadyToUse m\<rparr>)
             (gs_Members gs)\<rparr>)))"

definition CreateVolumeGroupSnapshot ::
  "'s service \<Rightarrow> string \<Rightarrow> string list \<Rightarrow> ('s \<times> string set, go_error, group_response) op" where
  "CreateVolumeGroupSnapshot c reqName sourceIDs =
     (if reqName = [] \<or> sourceIDs = [] then failE (Status InvalidArgument)
      else case parse_sources sourceIDs of
             Inl e \<Rightarrow> failE e
           | Inr sources \<Rightarrow>
               let name = sanitiseSnapshotName reqName
               in with_lock name (group_create_body c sources name))"

definition DeleteVolumeGroupSnapshot ::
  "'s service \<Rightarrow> string \<Rightarrow> string list \<Rightarrow> ('s \<times> string set, go_error, unit) op" where
  "DeleteVolumeGroupSnapshot c gid snapshotIDs =
     (if gid = [] then failE (Status InvalidArgument)
      else case SnapshotSource gid of
             Inl _ \<Rightarrow> retE ()
           | Inr _ \<Rightarrow> with_lock gid (on_err toStatus (reg_DeleteGroupSnapshot (sv_reg c) gid snapshotIDs)))"

definition GetVolumeGroupSnapshot :: "'s service \<Rightarrow> string \<Rightarrow> string list \<Rightarrow> ('s, go_error, group_response) op" where
  "GetVolumeGroupSnapshot c gid snapshotIDs =
     (if gid = [] then failE (Status InvalidArgument)
      else bindE (on_err toStatus (reg_GetGroupSnapshot (sv_reg c) gid snapshotIDs)) (\<lambda>gs.
           let backendName = (case SnapshotSource (gs_ID gs) of Inr (b, _) \<Rightarrow> b | Inl _ \<Rightarrow> [])
           in retE \<lparr>gr_Id = gs_ID gs, gr_CreationTime = gs_CreationTime gs, gr_ReadyToUse = gs_ReadyToUse gs,
                    gr_Snapshots = map (\<lambda>m. snapshotPB (sv_Config c) (ss_ID m) (ss_SourceVolumeID m) backendName
                      (ss_SizeBytes m) (ss_CreationTime m)) (gs_Members gs)\<rparr>))"

section \<open>Every error carries a code\<close>

lemma parse_sources_coded: "parse_sources raws = Inl e \<Longrightarrow> status_Code e \<noteq> Unknown"
  by (induction raws) (auto split: sum.splits)

lemma coded_groups [coded_rules]:
  "coded (CreateVolumeGroupSnapshot c n vs)" "coded (DeleteVolumeGroupSnapshot c g ss)" "coded (GetVolumeGroupSnapshot c g ss)"
proof -
  have "coded (require_volumes c is)" for "is"
    by (induction "is") (simp_all add: coded_basic coded_bindE coded_publishing)
  then have "coded (group_create_body c is n)" for "is" n
    unfolding group_create_body_def by (intro coded_rules) simp_all
  then show "coded (CreateVolumeGroupSnapshot c n vs)"
    unfolding CreateVolumeGroupSnapshot_def Let_def by (intro coded_rules) (auto dest: parse_sources_coded)
  show "coded (DeleteVolumeGroupSnapshot c g ss)" "coded (GetVolumeGroupSnapshot c g ss)"
    unfolding DeleteVolumeGroupSnapshot_def GetVolumeGroupSnapshot_def Let_def by (intro coded_rules; simp)+
qed

lemma page_coded: "page key xs t m = Inl e \<Longrightarrow> status_Code e \<noteq> Unknown"
  by (auto simp: page_def Let_def split: option.splits)

lemma coded_listings [coded_rules]: "coded (GetCapacity c ps)" "coded (ctl_ListSnapshots c sid src t m)"
proof -
  have "coded (gather_snapshots c names)" for names
  proof (induction names)
    case (Cons n ns)
    then show ?case unfolding gather_snapshots.simps by (intro coded_rules)
  qed (simp add: coded_basic)
  then show "coded (ctl_ListSnapshots c sid src t m)"
    unfolding ctl_ListSnapshots_def
    by (cases "SnapshotSource sid"; cases "sid = []")
      (auto intro!: coded_rules simp: split_beta split: sum.split option.split dest: page_coded)
  show "coded (GetCapacity c ps)"
    unfolding GetCapacity_def Let_def
    by (intro coded_rules) (auto simp: select_backend_def Let_def split: if_splits option.splits)
qed


end
