(* ===== verification/GoNet.thy ===== *)
theory GoNet
  imports GoStrings
begin

text \<open>
  The parts of Go's \<^verbatim>\<open>net\<close> and \<^verbatim>\<open>net/netip\<close> packages the driver uses: parsing an IP
  address and a CIDR block, and whether a block contains an address. An address is its 4 or 16
  bytes, as numbers below 256.
\<close>

section \<open>Addresses\<close>

text \<open>One field of a dotted address: decimal, at most 255, no leading zero.\<close>

definition v4_field :: "string \<Rightarrow> int option" where
  "v4_field f =
     (if f = [] \<or> \<not> list_all is_digit f \<or> (1 < length f \<and> hd f = CHR ''0'') then None
      else let v = int (digits_val f) in if v \<le> 255 then Some v else None)"

definition parse_v4 :: "string \<Rightarrow> int list option" where
  "parse_v4 s =
     (case map v4_field (split_on (CHR ''.'') s) of
        [Some a, Some b, Some c, Some d] \<Rightarrow> Some [a, b, c, d]
      | _ \<Rightarrow> None)"

definition hex_digit :: "char \<Rightarrow> int option" where
  "hex_digit c =
     (let n = (of_char c :: int)
      in if 48 \<le> n \<and> n \<le> 57 then Some (n - 48)
         else if 97 \<le> n \<and> n \<le> 102 then Some (n - 87)
         else if 65 \<le> n \<and> n \<le> 70 then Some (n - 55)
         else None)"

definition hex_val :: "string \<Rightarrow> int" where
  "hex_val ds = fold (\<lambda>c acc. acc * 16 + (case hex_digit c of Some d \<Rightarrow> d | None \<Rightarrow> 0)) ds 0"

text \<open>
  The loop of \<^verbatim>\<open>parseIPv6\<close>: the bytes read so far, where the ellipsis stands, and what is
  left of the text. Each round reads two bytes, so eight rounds are enough.
\<close>

fun v6_groups :: "nat \<Rightarrow> string \<Rightarrow> int list \<Rightarrow> nat option \<Rightarrow> (int list \<times> nat option \<times> string) option" where
  "v6_groups 0 s ip el = Some (ip, el, s)"
| "v6_groups (Suc n) s ip el =
     (let ds = takeWhile (\<lambda>c. hex_digit c \<noteq> None) s; rest = drop (length ds) s
      in if length ds > 4 \<or> ds = [] then None
         else if rest \<noteq> [] \<and> hd rest = CHR ''.'' then
           (if el = None \<and> length ip \<noteq> 12 then None
            else if length ip + 4 > 16 then None
            else case parse_v4 s of None \<Rightarrow> None | Some v4 \<Rightarrow> Some (ip @ v4, el, []))
         else let ip' = ip @ [hex_val ds div 256, hex_val ds mod 256]
              in case rest of
                   [] \<Rightarrow> Some (ip', el, [])
                 | c # r \<Rightarrow>
                     if c \<noteq> CHR '':'' then None
                     else (case r of
                        [] \<Rightarrow> None
                      | d # r' \<Rightarrow>
                          if d = CHR '':'' then
                            (if el \<noteq> None then None
                             else if r' = [] then Some (ip', Some (length ip'), [])
                             else v6_groups n r' ip' (Some (length ip')))
                          else v6_groups n r ip' el))"

definition v6_expand :: "int list \<times> nat option \<times> string \<Rightarrow> int list option" where
  "v6_expand q =
     (case q of (ip, el, rest) \<Rightarrow>
        if rest \<noteq> [] then None
        else if length ip < 16 then
          (case el of
             None \<Rightarrow> None
           | Some k \<Rightarrow> Some (take k ip @ replicate (16 - length ip) 0 @ drop k ip))
        else if el \<noteq> None then None else Some ip)"

definition parse_v6 :: "string \<Rightarrow> int list option" where
  "parse_v6 s =
     (if has_prefix ''::'' s then
        (if length s = 2 then Some (replicate 16 0)
         else Option.bind (v6_groups 8 (drop 2 s) [] (Some 0)) v6_expand)
      else Option.bind (v6_groups 8 s [] None) v6_expand)"

text \<open>
  \<^verbatim>\<open>netip.ParseAddr\<close> restricted to addresses without a zone, the only ones both callers
  accept: the first dot or colon decides the family, and a percent sign is a zone or an error.
\<close>

definition ParseAddr :: "string \<Rightarrow> int list option" where
  "ParseAddr s =
     (if CHR ''%'' \<in> set s then None
      else case dropWhile (\<lambda>c. c \<noteq> CHR ''.'' \<and> c \<noteq> CHR '':'') s of
             [] \<Rightarrow> None
           | c # _ \<Rightarrow> if c = CHR ''.'' then parse_v4 s else parse_v6 s)"

definition v4_in_v6 :: "int list" where
  "v4_in_v6 = replicate 10 0 @ [255, 255]"

text \<open>\<^verbatim>\<open>net.ParseIP\<close>: always the 16-byte form.\<close>

definition ParseIP :: "string \<Rightarrow> int list option" where
  "ParseIP s = map_option (\<lambda>ip. if length ip = 4 then v4_in_v6 @ ip else ip) (ParseAddr s)"

definition To4 :: "int list \<Rightarrow> int list option" where
  "To4 ip =
     (if length ip = 4 then Some ip
      else if length ip = 16 \<and> take 12 ip = v4_in_v6 then Some (drop 12 ip) else None)"

section \<open>Blocks\<close>

record IPNet =
  net_IP :: "int list"
  net_Mask :: "int list"

text \<open>The \<open>n\<close> leading bits of \<open>len\<close> bytes.\<close>

fun CIDRMask :: "nat \<Rightarrow> nat \<Rightarrow> int list" where
  "CIDRMask n 0 = []"
| "CIDRMask n (Suc len) =
     (if n \<ge> 8 then 255 # CIDRMask (n - 8) len
      else (255 - (255 div 2 ^ n)) # CIDRMask 0 len)"

definition mask_byte :: "int \<Rightarrow> int \<Rightarrow> int" where
  "mask_byte a m = and a m"

text \<open>\<^verbatim>\<open>dtoi\<close>: decimal, and below \<^verbatim>\<open>0xFFFFFF\<close>.\<close>

definition dtoi_all :: "string \<Rightarrow> nat option" where
  "dtoi_all s = (if s \<noteq> [] \<and> list_all is_digit s \<and> int (digits_val s) < 16777215 then Some (digits_val s) else None)"

text \<open>
  The network of \<^verbatim>\<open>net.ParseCIDR\<close>. A v4 block keeps four bytes, and so does a v4-mapped
  block written in v6 form when its mask has four; with a 16-byte mask the bytes stay 16.
\<close>

definition ParseCIDR :: "string \<Rightarrow> IPNet option" where
  "ParseCIDR s =
     (case cut_on (CHR ''/'') s of
        (addr, bits, found) \<Rightarrow>
          if \<not> found then None
          else case ParseAddr addr of
                 None \<Rightarrow> None
               | Some ip \<Rightarrow>
                   (case dtoi_all bits of
                      None \<Rightarrow> None
                    | Some n \<Rightarrow>
                        if n > 8 * length ip then None
                        else let m = CIDRMask n (length ip)
                             in Some \<lparr>net_IP = map2 mask_byte ip m, net_Mask = m\<rparr>))"

definition networkNumberAndMask :: "IPNet \<Rightarrow> (int list \<times> int list) option" where
  "networkNumberAndMask n =
     (let ip = (case To4 (net_IP n) of Some v4 \<Rightarrow> v4 | None \<Rightarrow> net_IP n); m = net_Mask n
      in if length ip \<noteq> 4 \<and> length ip \<noteq> 16 then None
         else if length m = length ip then Some (ip, m)
         else if length m = 16 \<and> length ip = 4 then Some (ip, drop 12 m)
         else None)"

definition IPNet_Contains :: "IPNet \<Rightarrow> int list \<Rightarrow> bool" where
  "IPNet_Contains n x =
     (case networkNumberAndMask n of
        None \<Rightarrow> x = []
      | Some (nn, m) \<Rightarrow>
          let ip = (case To4 x of Some v4 \<Rightarrow> v4 | None \<Rightarrow> x)
          in length ip = length nn \<and> map2 mask_byte nn m = map2 mask_byte ip m)"

lemma contains_examples:
  "map_option (\<lambda>n. map_option (IPNet_Contains n) (ParseIP ''10.1.2.3'')) (ParseCIDR ''10.0.0.0/8'') = Some (Some True)"
  "map_option (\<lambda>n. map_option (IPNet_Contains n) (ParseIP ''11.1.2.3'')) (ParseCIDR ''10.0.0.0/8'') = Some (Some False)"
  "map_option (\<lambda>n. map_option (IPNet_Contains n) (ParseIP ''fd7c::1:2'')) (ParseCIDR ''fd7c::/32'') = Some (Some True)"
  by code_simp+

end
