(* ===== verification/Nfs.thy ===== *)
theory Nfs
  imports Provision Retention GoNet Publisher
begin

text \<open>
  The NFS backend, \<^verbatim>\<open>internal/backend/nfs\<close>: one dataset and one export per volume. Access is
  granted by writing node addresses into the export's host list, and the list always holds one
  address nobody has, because an export with an empty list is open to everyone. The appliance's
  own address (\<^verbatim>\<open>c.Host()\<close>) is a field of the backend.
\<close>

section \<open>The export\<close>

definition DenyHost :: string where "DenyHost = ''192.0.2.1''"

record nfsShare =
  sh_ID :: int
  sh_Path :: string
  sh_Hosts :: "string list"
  sh_Networks :: "string list"
  sh_Enabled :: "bool option"

definition decode_share :: "json \<Rightarrow> nfsShare option" where
  "decode_share j =
     (case j of
        JNull \<Rightarrow> Some \<lparr>sh_ID = 0, sh_Path = [], sh_Hosts = [], sh_Networks = [], sh_Enabled = None\<rparr>
      | JObj kvs \<Rightarrow>
          (case (int_field ''id'' kvs, string_field ''path'' kvs, list_field decode_string ''hosts'' kvs,
                 list_field decode_string ''networks'' kvs,
                 case jget ''enabled'' kvs of
                   None \<Rightarrow> Some None | Some JNull \<Rightarrow> Some None | Some (JBool b) \<Rightarrow> Some (Some b) | _ \<Rightarrow> None) of
             (Some i, Some p, Some hs, Some ns, Some en) \<Rightarrow>
               Some \<lparr>sh_ID = i, sh_Path = p, sh_Hosts = hs, sh_Networks = ns, sh_Enabled = en\<rparr>
           | _ \<Rightarrow> None)
      | _ \<Rightarrow> None)"

definition serving :: "nfsShare option \<Rightarrow> bool" where
  "serving os = (case os of None \<Rightarrow> True | Some s \<Rightarrow> sh_Enabled s = None \<or> sh_Enabled s = Some True)"

definition shareByPath :: "'s transport \<Rightarrow> string \<Rightarrow> ('s, go_error, nfsShare option) op" where
  "shareByPath call path =
     tryE (CallJSON call (decode_list decode_share) ''sharing.nfs.query'' [filter_json ''path'' ''='' path, JObj []])
       (\<lambda>r. case r of
          Inl e \<Rightarrow> if IsNotFound e then retE None else failE e
        | Inr [] \<Rightarrow> retE None
        | Inr (s # _) \<Rightarrow> retE (Some s))"

text \<open>The set the Go map holds, sorted.\<close>

definition withDenyHost :: "string list \<Rightarrow> string list" where
  "withDenyHost hosts =
     sort_strings (remdups (DenyHost # filter (\<lambda>h. h \<noteq> []) (map TrimSpace hosts)))"

definition withoutHosts :: "string list \<Rightarrow> string list \<Rightarrow> string list" where
  "withoutHosts current remove = withDenyHost (filter (\<lambda>h. h \<notin> set (map TrimSpace remove)) current)"

definition strings_json :: "string list \<Rightarrow> json" where
  "strings_json xs = JArr (map JStr xs)"

definition setHosts :: "'s transport \<Rightarrow> int \<Rightarrow> string list \<Rightarrow> ('s, go_error, unit) op" where
  "setHosts call shareID hosts =
     CallUnit call ''sharing.nfs.update''
       [JInt shareID, JObj [(''hosts'', strings_json (withDenyHost hosts)), (''networks'', JArr [])]]"

definition NFSShareDelete :: "'s transport \<Rightarrow> int \<Rightarrow> ('s, go_error, unit) op" where
  "NFSShareDelete call i =
     tryE (CallUnit call ''sharing.nfs.delete'' [JInt i])
       (\<lambda>r. case r of Inr _ \<Rightarrow> retE () | Inl e \<Rightarrow> if IsNotFound e then retE () else failE e)"

fun parse_nets :: "string list \<Rightarrow> IPNet list option" where
  "parse_nets [] = Some []"
| "parse_nets (n # ns) =
     (case ParseCIDR (TrimSpace n) of
        None \<Rightarrow> None
      | Some ipnet \<Rightarrow> map_option (\<lambda>nets. ipnet # nets) (parse_nets ns))"

definition grantHosts :: "string list \<Rightarrow> string list \<Rightarrow> go_error + string list" where
  "grantHosts addrs networks =
     (if networks = [] then Inr addrs
      else case parse_nets networks of
             None \<Rightarrow> Inl (Status InvalidArgument)
           | Some nets \<Rightarrow>
               Inr (filter (\<lambda>a. case ParseIP (TrimSpace a) of
                                  None \<Rightarrow> False
                                | Some ip \<Rightarrow> list_ex (\<lambda>n. IPNet_Contains n ip) nets) addrs))"

definition splitNetworks :: "string \<Rightarrow> string list" where
  "splitNetworks v = filter (\<lambda>n. n \<noteq> []) (map TrimSpace (split_on (CHR '','') v))"

section \<open>The backend\<close>

record nfs_params =
  np_server :: string
  np_nfsVersion :: string
  np_versionExplicit :: bool
  np_networks :: "string list"
  np_maproot :: string
  np_mode :: string
  np_uid :: int
  np_gid :: int

text \<open>\<^verbatim>\<open>strconv.ParseUint(v, 8, 32)\<close>, of which only the success is looked at.\<close>

definition octal_mode :: "string \<Rightarrow> bool" where
  "octal_mode v \<longleftrightarrow> v \<noteq> [] \<and> list_all (\<lambda>c. c \<in> set ''01234567'') v
     \<and> fold (\<lambda>c n. n * 8 + int (digit_val c)) v 0 < 4294967296"

definition defaultNFSVersion :: string where "defaultNFSVersion = ''4''"
definition defaultMode :: string where "defaultMode = ''0777''"
definition defaultMaproot :: string where "defaultMaproot = ''root''"

definition parse_id :: "string \<Rightarrow> go_error + int" where
  "parse_id v =
     (if v = [] then Inr 0
      else case ParseInt64 v of
             None \<Rightarrow> Inl (Status InvalidArgument)
           | Some n \<Rightarrow> if n < 0 then Inl (Status InvalidArgument) else Inr n)"

definition parseParams :: "(string \<rightharpoonup> string) \<Rightarrow> go_error + nfs_params" where
  "parseParams p =
     (let get = (\<lambda>k. TrimSpace (param p k));
          v = get ''nfsVersion''; m = get ''mode''; r = get ''maproot''
      in if v \<noteq> [] \<and> v \<noteq> ''3'' \<and> v \<noteq> ''4'' then Inl (Status InvalidArgument)
         else if m \<noteq> [] \<and> \<not> octal_mode m then Inl (Status InvalidArgument)
         else case (parse_id (get ''uid''), parse_id (get ''gid'')) of
                (Inr u, Inr g) \<Rightarrow>
                  Inr \<lparr>np_server = get ''server'',
                       np_nfsVersion = (if v \<noteq> [] then v else defaultNFSVersion),
                       np_versionExplicit = (v \<noteq> []),
                       np_networks = splitNetworks (get ''networks''),
                       np_maproot = (if r \<noteq> [] then r else defaultMaproot),
                       np_mode = (if m \<noteq> [] then m else defaultMode),
                       np_uid = u, np_gid = g\<rparr>
              | _ \<Rightarrow> Inl (Status InvalidArgument))"

record nfs_backend =
  nb_pool :: string
  nb_parent :: string
  nb_retire :: policy
  nb_host :: string

text \<open>The caches of the process: the last server named by a class, and a version per volume.\<close>

record nfs_cache =
  nc_server :: string
  nc_versions :: "string \<rightharpoonup> string"

definition nfs_remember :: "vol_id \<Rightarrow> nfs_params \<Rightarrow> nfs_cache \<Rightarrow> nfs_cache" where
  "nfs_remember i p c =
     \<lparr>nc_server = (if np_server p \<noteq> [] then np_server p else nc_server c),
      nc_versions = (nc_versions c)(ID_String i \<mapsto> np_nfsVersion p)\<rparr>"

definition nfs_forget :: "vol_id \<Rightarrow> nfs_cache \<Rightarrow> nfs_cache" where
  "nfs_forget i c = c\<lparr>nc_versions := (nc_versions c)(ID_String i := None)\<rparr>"

definition nfs_recall :: "nfs_cache \<Rightarrow> vol_id \<Rightarrow> nfs_params" where
  "nfs_recall c i =
     \<lparr>np_server = nc_server c,
      np_nfsVersion = (case nc_versions c (ID_String i) of
                         Some v \<Rightarrow> if v \<noteq> [] then v else defaultNFSVersion
                       | None \<Rightarrow> defaultNFSVersion),
      np_versionExplicit = False, np_networks = [], np_maproot = defaultMaproot, np_mode = defaultMode,
      np_uid = 0, np_gid = 0\<rparr>"

definition mountpointOf :: "dataset option \<Rightarrow> string \<Rightarrow> string" where
  "mountpointOf ods dsPath =
     (case ods of
        Some ds \<Rightarrow> if ds_Mountpoint ds \<noteq> [] then ds_Mountpoint ds else ''/mnt/'' @ dsPath
      | None \<Rightarrow> ''/mnt/'' @ dsPath)"

definition share_payload :: "string \<Rightarrow> string list \<Rightarrow> nfs_params \<Rightarrow> json" where
  "share_payload path hosts p =
     JObj ([(''path'', JStr path), (''comment'', JStr ''truenas-csi''),
            (''hosts'', strings_json (withDenyHost hosts)), (''networks'', JArr [])]
           @ (if np_maproot p \<noteq> []
              then [(''maproot_user'', JStr (np_maproot p)), (''maproot_group'', JStr (np_maproot p))] else []))"

definition createShare ::
  "'s transport \<Rightarrow> string \<Rightarrow> string list \<Rightarrow> nfs_params \<Rightarrow> ('s, go_error, nfsShare) op" where
  "createShare call path hosts p =
     CallJSON call decode_share ''sharing.nfs.create'' [share_payload path hosts p]"

definition ensureShare :: "'s transport \<Rightarrow> string \<Rightarrow> nfs_params \<Rightarrow> ('s, go_error, unit) op" where
  "ensureShare call mountpoint p =
     tryE (shareByPath call mountpoint) (\<lambda>r.
       case r of
         Inl _ \<Rightarrow> failE (Status Internal)
       | Inr share \<Rightarrow>
           if share \<noteq> None \<and> \<not> serving share then failE (Status FailedPrecondition)
           else if share \<noteq> None then retE ()
           else tryE (createShare call mountpoint [] p) (\<lambda>r.
                  case r of Inl _ \<Rightarrow> failE (Status Internal) | Inr _ \<Rightarrow> retE ()))"

definition recordNetworkPolicy :: "'s transport \<Rightarrow> string \<Rightarrow> nfs_params \<Rightarrow> ('s, go_error, unit) op" where
  "recordNetworkPolicy call dsPath p =
     (if np_networks p = [] then retE ()
      else tryE (SetUserProperty call dsPath NetworksProperty (join_with '','' (np_networks p))) (\<lambda>r.
             case r of Inl _ \<Rightarrow> failE (Status Internal) | Inr _ \<Rightarrow> retE ()))"

definition recordMountPolicy :: "'s transport \<Rightarrow> string \<Rightarrow> nfs_params \<Rightarrow> ('s, go_error, unit) op" where
  "recordMountPolicy call dsPath p =
     bindE (recordNetworkPolicy call dsPath p) (\<lambda>_.
       if \<not> np_versionExplicit p \<or> np_nfsVersion p = [] then retE ()
       else tryE (SetUserProperty call dsPath NFSVersionProperty (np_nfsVersion p)) (\<lambda>r.
              case r of Inl _ \<Rightarrow> failE (Status Internal) | Inr _ \<Rightarrow> retE ()))"

definition nfs_volumeFor :: "vol_id \<Rightarrow> int \<Rightarrow> string \<Rightarrow> nfs_params \<Rightarrow> Volume" where
  "nfs_volumeFor i bytes mountpoint p =
     \<lparr>v_ID = i, v_CapacityBytes = bytes,
      v_Context = [(''share'', mountpoint), (''nfsVersion'', np_nfsVersion p)]
        @ (if np_server p \<noteq> [] then [(''server'', np_server p)] else [])\<rparr>"

section \<open>Creating a volume\<close>

text \<open>An error that chose its code keeps it; any other becomes \<^verbatim>\<open>Internal\<close>.\<close>

definition keep_code :: "go_error \<Rightarrow> go_error" where
  "keep_code e = (if status_Code e \<noteq> Unknown then e else Status Internal)"

text \<open>Undo on failure: the dataset is destroyed, and the cause is returned if that succeeds.\<close>

definition nfs_rollback :: "'s transport \<Rightarrow> string \<Rightarrow> go_error \<Rightarrow> ('s, go_error, 'a) op" where
  "nfs_rollback call dsPath cause =
     tryE (DatasetDelete call dsPath True True) (\<lambda>r.
       case r of Inl _ \<Rightarrow> failE (Status Internal) | Inr _ \<Rightarrow> failE cause)"

definition nfs_repairClone :: "'s transport \<Rightarrow> string \<Rightarrow> int \<Rightarrow> ('s, go_error, dataset option) op" where
  "nfs_repairClone call dsPath bytes =
     tryE (StampClone call dsPath ''nfs'') (\<lambda>r.
       case r of
         Inl _ \<Rightarrow> nfs_rollback call dsPath (Status Internal)
       | Inr _ \<Rightarrow>
           tryE (DatasetUpdate call dsPath (JObj [(''refquota'', JInt bytes)])) (\<lambda>r.
           case r of
             Inl _ \<Rightarrow> nfs_rollback call dsPath (Status Internal)
           | Inr _ \<Rightarrow>
               tryE (DatasetQuery call dsPath) (\<lambda>r.
               case r of
                 Inl _ \<Rightarrow> nfs_rollback call dsPath (Status Internal)
               | Inr ds \<Rightarrow> retE ds)))"

definition nfs_restore :: "'s transport \<Rightarrow> string \<Rightarrow> string \<Rightarrow> int \<Rightarrow> ('s, go_error, dataset option) op" where
  "nfs_restore call snap dsPath bytes =
     tryE (SnapshotClone call snap dsPath []) (\<lambda>r.
       case r of Inl _ \<Rightarrow> failE (Status Internal) | Inr _ \<Rightarrow> nfs_repairClone call dsPath bytes)"

definition nfs_spec :: "string \<Rightarrow> int \<Rightarrow> DatasetSpec" where
  "nfs_spec dsPath bytes =
     \<lparr>spec_Name = dsPath, spec_Type = ''FILESYSTEM'', spec_VolSize = 0, spec_RefQuota = bytes, spec_Sparse = False,
      spec_VolBlockSize = [], spec_ShareType = [],
      spec_UserProperties = [(OwnerProperty, OwnerValue), (OwnerIDProperty, dsPath), (ProtocolProperty, ''nfs'')]\<rparr>"

definition nfs_create :: "'s transport \<Rightarrow> string \<Rightarrow> CreateRequest \<Rightarrow> ('s, go_error, dataset option) op" where
  "nfs_create call dsPath r =
     (if r_SourceSnapshot r = [] then
        tryE (DatasetCreate call (nfs_spec dsPath (r_CapacityBytes r))) (\<lambda>res.
          case res of Inl e \<Rightarrow> failE (keep_code e) | Inr ds \<Rightarrow> retE (Some ds))
      else nfs_restore call (r_SourceSnapshot r) dsPath (r_CapacityBytes r))"

definition nfs_provision :: "'s transport \<Rightarrow> string \<Rightarrow> CreateRequest \<Rightarrow> ('s, go_error, dataset option) op" where
  "nfs_provision call dsPath r =
     bindE (nfs_create call dsPath r) (\<lambda>ds.
     bindE (RecordIdentity call dsPath (IdentityFrom (r_Params r))) (\<lambda>_. retE ds))"

text \<open>The steps after the dataset exists, each undone by destroying the dataset.\<close>

definition nfs_finish ::
  "'s transport \<Rightarrow> ('s \<Rightarrow> bool \<times> 's) \<Rightarrow> string \<Rightarrow> CreateRequest \<Rightarrow> nfs_params \<Rightarrow> dataset option
     \<Rightarrow> ('s, go_error, Volume) op" where
  "nfs_finish call tick dsPath r p ds =
     (let mountpoint = mountpointOf ds dsPath
      in tryE (SetPerm call tick mountpoint (np_mode p) (np_uid p) (np_gid p)) (\<lambda>res.
         case res of
           Inl _ \<Rightarrow> nfs_rollback call dsPath (Status Internal)
         | Inr _ \<Rightarrow>
             tryE (ensureShare call mountpoint p) (\<lambda>res.
             case res of
               Inl e \<Rightarrow> nfs_rollback call dsPath e
             | Inr _ \<Rightarrow>
                 tryE (recordMountPolicy call dsPath p) (\<lambda>res.
                 case res of
                   Inl e \<Rightarrow> nfs_rollback call dsPath e
                 | Inr _ \<Rightarrow> retE (nfs_volumeFor (r_ID r) (r_CapacityBytes r) mountpoint p)))))"

definition nfs_existing ::
  "'s transport \<Rightarrow> string \<Rightarrow> CreateRequest \<Rightarrow> nfs_params \<Rightarrow> dataset \<Rightarrow> ('s, go_error, Volume) op" where
  "nfs_existing call dsPath r p ds =
     (if ds_RefQuota ds \<noteq> r_CapacityBytes r then failE (Status AlreadyExists)
      else bindE (ensureShare call (mountpointOf (Some ds) dsPath) p) (\<lambda>_.
           bindE (recordMountPolicy call dsPath p) (\<lambda>_.
           retE (nfs_volumeFor (r_ID r) (r_CapacityBytes r) (mountpointOf (Some ds) dsPath) p))))"

definition nfs_Create ::
  "'s transport \<Rightarrow> ('s \<Rightarrow> bool \<times> 's) \<Rightarrow> nfs_backend \<Rightarrow> CreateRequest \<Rightarrow> nfs_cache
     \<Rightarrow> nfs_cache \<times> ('s, go_error, Volume) op" where
  "nfs_Create call tick b r c =
     (case Confine (r_ID r) (nb_pool b) (nb_parent b) of
        Inl _ \<Rightarrow> (c, failE (Status InvalidArgument))
      | Inr _ \<Rightarrow>
          if r_CapacityBytes r \<le> 0 then (c, failE (Status InvalidArgument))
          else case parseParams (r_Params r) of
                 Inl e \<Rightarrow> (c, failE e)
               | Inr p \<Rightarrow>
                   let dsPath = DatasetPath (r_ID r)
                   in (nfs_remember (r_ID r) p c,
                       tryE (DatasetQuery call dsPath) (\<lambda>res.
                       case res of
                         Inl _ \<Rightarrow> failE (Status Internal)
                       | Inr existing \<Rightarrow>
                           if existing \<noteq> None \<and> \<not> AbandonedCloneOf existing r
                           then nfs_existing call dsPath r p (the existing)
                           else if AbandonedCloneOf existing r then
                             bindE (nfs_repairClone call dsPath (r_CapacityBytes r)) (\<lambda>ds.
                             bindE (RecordIdentity call dsPath (IdentityFrom (r_Params r))) (\<lambda>_.
                             nfs_finish call tick dsPath r p ds))
                           else bindE (nfs_provision call dsPath r) (nfs_finish call tick dsPath r p))))"

section \<open>Deleting and expanding\<close>

text \<open>Deletes a volume and returns the caches it leaves.\<close>

definition nfs_Delete ::
  "'s transport \<Rightarrow> ('s \<Rightarrow> int \<times> 's) \<Rightarrow> (int \<Rightarrow> 's \<Rightarrow> bool \<times> 's) \<Rightarrow> nfs_backend \<Rightarrow> vol_id \<Rightarrow> nfs_cache
     \<Rightarrow> ('s, go_error, nfs_cache) op" where
  "nfs_Delete call now wait b i c =
     (case Confine i (nb_pool b) (nb_parent b) of
        Inl _ \<Rightarrow> failE (Status InvalidArgument)
      | Inr _ \<Rightarrow>
          let dsPath = DatasetPath i
          in tryE (DatasetQuery call dsPath) (\<lambda>r.
             case r of
               Inl _ \<Rightarrow> failE (Status Internal)
             | Inr None \<Rightarrow> retE c
             | Inr (Some ds) \<Rightarrow>
                 bindE (liftE (VerifyOwned (Some (asVolumeDataset ds)))) (\<lambda>_.
                 tryE (shareByPath call (mountpointOf (Some ds) dsPath)) (\<lambda>r.
                 case r of
                   Inl _ \<Rightarrow> failE (Status Internal)
                 | Inr share \<Rightarrow>
                     tryE (case share of None \<Rightarrow> retE () | Some sh \<Rightarrow> NFSShareDelete call (sh_ID sh)) (\<lambda>r.
                     case r of
                       Inl _ \<Rightarrow> failE (Status Internal)
                     | Inr _ \<Rightarrow>
                         tryE (Dispose call now wait (nb_retire b) i (DatasetDelete call dsPath True False)) (\<lambda>r.
                         case r of
                           Inl e \<Rightarrow> failE (keep_code e)
                         | Inr _ \<Rightarrow> retE (nfs_forget i c)))))))"

definition nfs_Expand :: "'s transport \<Rightarrow> nfs_backend \<Rightarrow> vol_id \<Rightarrow> int \<Rightarrow> ('s, go_error, int) op" where
  "nfs_Expand call b i bytes =
     (case Confine i (nb_pool b) (nb_parent b) of
        Inl _ \<Rightarrow> failE (Status InvalidArgument)
      | Inr _ \<Rightarrow>
          tryE (DatasetQuery call (DatasetPath i)) (\<lambda>r.
          case r of
            Inl _ \<Rightarrow> failE (Status Internal)
          | Inr None \<Rightarrow> failE (Status NotFound)
          | Inr (Some ds) \<Rightarrow>
              bindE (liftE (VerifyOwned (Some (asVolumeDataset ds)))) (\<lambda>_.
              if bytes < ds_RefQuota ds then failE (Status InvalidArgument)
              else if bytes = ds_RefQuota ds then retE (ds_RefQuota ds)
              else tryE (DatasetUpdate call (DatasetPath i) (JObj [(''refquota'', JInt bytes)])) (\<lambda>r.
                   case r of Inl _ \<Rightarrow> failE (Status Internal) | Inr _ \<Rightarrow> retE bytes))))"

section \<open>Granting and revoking access\<close>

definition nfs_PublishContext ::
  "'s transport \<Rightarrow> nfs_backend \<Rightarrow> nfs_cache \<Rightarrow> vol_id \<Rightarrow> ('s, go_error, (string \<times> string) list) op" where
  "nfs_PublishContext call b c i =
     (case Confine i (nb_pool b) (nb_parent b) of
        Inl _ \<Rightarrow> failE (Status InvalidArgument)
      | Inr _ \<Rightarrow>
          tryE (DatasetQuery call (DatasetPath i)) (\<lambda>r.
          case r of
            Inl _ \<Rightarrow> failE (Status Internal)
          | Inr None \<Rightarrow> failE (Status NotFound)
          | Inr (Some ds) \<Rightarrow>
              let cached = (case nc_versions c (ID_String i) of Some v \<Rightarrow> v | None \<Rightarrow> []);
                  v1 = (if cached = [] then LocalProperty ds NFSVersionProperty else cached);
                  version = (if v1 = [] then defaultNFSVersion else v1);
                  server = (if nc_server c = [] then nb_host b else nc_server c)
              in if server = [] then failE (Status FailedPrecondition)
                 else retE [(''server'', server), (''share'', mountpointOf (Some ds) (DatasetPath i)),
                            (''nfsVersion'', version)]))"

definition nfs_Publish ::
  "'s transport \<Rightarrow> nfs_backend \<Rightarrow> nfs_cache \<Rightarrow> vol_id \<Rightarrow> NodeRef \<Rightarrow> ('s, go_error, (string \<times> string) list) op" where
  "nfs_Publish call b c i node =
     (case Confine i (nb_pool b) (nb_parent b) of
        Inl _ \<Rightarrow> failE (Status InvalidArgument)
      | Inr _ \<Rightarrow>
          let dsPath = DatasetPath i
          in tryE (DatasetQuery call dsPath) (\<lambda>r.
             case r of
               Inl _ \<Rightarrow> failE (Status Internal)
             | Inr None \<Rightarrow> failE (Status NotFound)
             | Inr (Some ds) \<Rightarrow>
                 bindE (liftE (grantHosts (elems (nr_Addrs node)) (splitNetworks (LocalProperty ds NetworksProperty)))) (\<lambda>granted.
                 if granted = [] then failE (Status FailedPrecondition)
                 else let mountpoint = mountpointOf (Some ds) dsPath
                      in tryE (shareByPath call mountpoint) (\<lambda>r.
                         case r of
                           Inl _ \<Rightarrow> failE (Status Internal)
                         | Inr None \<Rightarrow>
                             tryE (createShare call mountpoint granted (nfs_recall c i)) (\<lambda>r.
                             case r of Inl _ \<Rightarrow> failE (Status Internal) | Inr _ \<Rightarrow> nfs_PublishContext call b c i)
                         | Inr (Some sh) \<Rightarrow>
                             if \<not> serving (Some sh) then failE (Status FailedPrecondition)
                             else tryE (setHosts call (sh_ID sh) (sh_Hosts sh @ granted)) (\<lambda>r.
                                  case r of Inl _ \<Rightarrow> failE (Status Internal) | Inr _ \<Rightarrow> nfs_PublishContext call b c i)))))"

definition nfs_Unpublish ::
  "'s transport \<Rightarrow> nfs_backend \<Rightarrow> vol_id \<Rightarrow> NodeRef \<Rightarrow> ('s, go_error, unit) op" where
  "nfs_Unpublish call b i node =
     (case Confine i (nb_pool b) (nb_parent b) of
        Inl _ \<Rightarrow> failE (Status InvalidArgument)
      | Inr _ \<Rightarrow>
          let dsPath = DatasetPath i
          in tryE (DatasetQuery call dsPath) (\<lambda>r.
             case r of
               Inl _ \<Rightarrow> failE (Status Internal)
             | Inr None \<Rightarrow> retE ()
             | Inr (Some ds) \<Rightarrow>
                 tryE (shareByPath call (mountpointOf (Some ds) dsPath)) (\<lambda>r.
                 case r of
                   Inl _ \<Rightarrow> failE (Status Internal)
                 | Inr None \<Rightarrow> retE ()
                 | Inr (Some sh) \<Rightarrow>
                     tryE (setHosts call (sh_ID sh) (withoutHosts (sh_Hosts sh) (elems (nr_Addrs node)))) (\<lambda>r.
                     case r of Inl _ \<Rightarrow> failE (Status Internal) | Inr _ \<Rightarrow> retE ()))))"

section \<open>An export is never open to everyone\<close>

definition fenced_export :: "string \<times> json list \<Rightarrow> bool" where
  "fenced_export = (\<lambda>(m, ps).
     m = ''sharing.nfs.create'' \<or> m = ''sharing.nfs.update'' \<longrightarrow>
       (\<exists>kvs hs. last ps = JObj kvs \<and> jget ''hosts'' kvs = Some (strings_json hs) \<and> DenyHost \<in> set hs
          \<and> [] \<notin> set hs \<and> jget ''networks'' kvs = Some (JArr [])))"

lemma withDenyHost_set: "set (withDenyHost hs) = insert DenyHost (TrimSpace ` set hs - {[]})"
  by (auto simp: withDenyHost_def DenyHost_def)

lemma fenced_others:
  "m \<noteq> ''sharing.nfs.create'' \<Longrightarrow> m \<noteq> ''sharing.nfs.update'' \<Longrightarrow> fenced_export (m, ps)"
  by (simp add: fenced_export_def)

lemma DenyHost_not_Nil: "DenyHost \<noteq> []" "[] \<noteq> DenyHost"
  by (simp_all add: DenyHost_def)

lemma fenced_create: "fenced_export (''sharing.nfs.create'', [share_payload path hosts p])"
  by (auto simp: fenced_export_def share_payload_def jget_def withDenyHost_set DenyHost_not_Nil
      intro!: exI [of _ "withDenyHost hosts"])

lemma calls_setHosts: "only_calls fenced_export (setHosts (recording call) i hosts)"
  unfolding setHosts_def CallUnit_def
  by (intro calls only_calls_CallJSON)
     (auto simp: fenced_export_def jget_def withDenyHost_set DenyHost_not_Nil
       intro!: exI [of _ "withDenyHost hosts"])

lemma calls_Snapshots:
  "P (''pool.snapshot.clone'', [JObj ([(''snapshot'', JStr snap), (''dataset_dst'', JStr dst)]
       @ (if props \<noteq> [] then [(''dataset_properties'', JObj props)] else []))]) \<Longrightarrow>
     only_calls P (SnapshotClone (recording call) snap dst props)"
  unfolding SnapshotClone_def CallUnit_def by (intro calls only_calls_CallJSON)

lemma calls_shareByPath: "(\<And>ps. P (''sharing.nfs.query'', ps)) \<Longrightarrow> only_calls P (shareByPath (recording call) path)"
  unfolding shareByPath_def by (intro calls only_calls_CallJSON)

lemma calls_NFSShareDelete: "(\<And>ps. P (''sharing.nfs.delete'', ps)) \<Longrightarrow> only_calls P (NFSShareDelete (recording call) i)"
  unfolding NFSShareDelete_def CallUnit_def by (intro calls only_calls_CallJSON)

text \<open>
  The calls the operations on one volume may make: queries, exports with a fenced host list, and
  writes to the volume's own dataset.
\<close>

definition allows :: "(string \<times> json list \<Rightarrow> bool) \<Rightarrow> string \<Rightarrow> bool" where
  "allows P dsPath \<longleftrightarrow>
     (\<forall>ps. P (''pool.dataset.query'', ps)) \<and> (\<forall>ps. P (''sharing.nfs.query'', ps))
     \<and> (\<forall>ps. P (''core.get_jobs'', ps)) \<and> (\<forall>ps. P (''filesystem.setperm'', ps))
     \<and> (\<forall>v. P (''pool.dataset.update'', [JStr dsPath, v]))
     \<and> (\<forall>path hosts p. P (''sharing.nfs.create'', [share_payload path hosts p]))"

lemma calls_ensureShare: "allows P d \<Longrightarrow> only_calls P (ensureShare (recording call) mp p)"
  unfolding ensureShare_def createShare_def allows_def
  by (intro calls calls_shareByPath only_calls_CallJSON) auto

lemma calls_recordMountPolicy: "allows P d \<Longrightarrow> only_calls P (recordMountPolicy (recording call) d p)"
  unfolding recordMountPolicy_def recordNetworkPolicy_def allows_def
  by (intro calls calls_SetUserProperty) auto

lemma calls_nfs_rollback:
  assumes "allows P d" "P (''pool.dataset.delete'', [JStr d, JObj [(''recursive'', JBool True), (''force'', JBool True)]])"
  shows "only_calls P (nfs_rollback (recording call) d e)"
  unfolding nfs_rollback_def using assms by (intro calls calls_DatasetDelete) (auto simp: allows_def)

lemma calls_nfs_repairClone:
  assumes "allows P d" "P (''pool.dataset.delete'', [JStr d, JObj [(''recursive'', JBool True), (''force'', JBool True)]])"
  shows "only_calls P (nfs_repairClone (recording call) d bytes)"
  unfolding nfs_repairClone_def StampClone_def
  using assms by (intro calls calls_nfs_rollback calls_stamp_all calls_DatasetUpdate calls_Query) (auto simp: allows_def)

lemma calls_nfs_finish:
  assumes "allows P d" "P (''pool.dataset.delete'', [JStr d, JObj [(''recursive'', JBool True), (''force'', JBool True)]])"
    and "only_calls P tick"
  shows "only_calls P (nfs_finish (recording call) tick d r p ds)"
  unfolding nfs_finish_def Let_def
  using assms by (intro calls calls_nfs_rollback calls_SetPerm calls_ensureShare calls_recordMountPolicy)
     (auto simp: allows_def)

lemma calls_nfs_provision:
  assumes "allows P d" "P (''pool.dataset.delete'', [JStr d, JObj [(''recursive'', JBool True), (''force'', JBool True)]])"
    and "\<And>v. P (''pool.dataset.create'', [v])" "\<And>v. P (''pool.snapshot.clone'', [v])"
  shows "only_calls P (nfs_provision (recording call) d r)"
  unfolding nfs_provision_def nfs_create_def nfs_restore_def
  using assms by (intro calls calls_DatasetCreate calls_RecordIdentity calls_Snapshots calls_nfs_repairClone)
     (auto simp: allows_def)

lemma calls_nfs_existing: "allows P d \<Longrightarrow> only_calls P (nfs_existing (recording call) d r p ds)"
  unfolding nfs_existing_def by (intro calls calls_ensureShare calls_recordMountPolicy)

lemma allows_fenced: "allows fenced_export d"
  unfolding allows_def by (auto intro: fenced_create fenced_others)

text \<open>
  C20. Whatever the appliance answers, no operation of the NFS backend ever writes an export that
  everybody may mount: each export it creates or rewrites has a host list that contains the
  unroutable address and no empty entry, and an empty network list.
\<close>

theorem nfs_never_open:
  assumes "\<And>P. only_calls P tick" "\<And>P. only_calls P now" "\<And>P d. only_calls P (wait d)"
  shows "only_calls fenced_export (snd (nfs_Create (recording call) tick b r c))
    \<and> only_calls fenced_export (nfs_Delete (recording call) now wait b i c)
    \<and> only_calls fenced_export (nfs_Expand (recording call) b i bytes)
    \<and> only_calls fenced_export (nfs_Publish (recording call) b c i node)
    \<and> only_calls fenced_export (nfs_Unpublish (recording call) b i node)"
proof (intro conjI)
  let ?P = fenced_export
  have ok: "?P (m, ps)" if "m \<noteq> ''sharing.nfs.create''" "m \<noteq> ''sharing.nfs.update''" for m ps
    using that by (rule fenced_others)
  note rules = calls calls_Query calls_DatasetUpdate calls_shareByPath calls_setHosts
  show "only_calls ?P (nfs_Expand (recording call) b i bytes)"
    unfolding nfs_Expand_def by (intro rules ok) auto
  have pc: "only_calls ?P (nfs_PublishContext (recording call) b c i)"
    unfolding nfs_PublishContext_def Let_def by (intro rules ok) auto
  show "only_calls ?P (nfs_Publish (recording call) b c i node)"
    unfolding nfs_Publish_def createShare_def Let_def
    by (intro rules pc only_calls_CallJSON fenced_create ok) auto
  show "only_calls ?P (nfs_Unpublish (recording call) b i node)"
    unfolding nfs_Unpublish_def Let_def by (intro rules ok) auto
  show "only_calls ?P (nfs_Delete (recording call) now wait b i c)"
    unfolding nfs_Delete_def Dispose_def Let_def
    by (intro rules calls_NFSShareDelete calls_DatasetDelete calls_Retire assms ok) auto
  have "only_calls ?P (nfs_finish (recording call) tick d r p ds)" for d p ds
    by (intro calls_nfs_finish allows_fenced assms ok) auto
  then show "only_calls ?P (snd (nfs_Create (recording call) tick b r c))"
    unfolding nfs_Create_def Let_def
    by (auto intro!: rules calls_nfs_existing calls_nfs_repairClone calls_nfs_provision calls_RecordIdentity
        allows_fenced ok split: sum.split)
qed

end
