(* ===== verification/Filer.thy ===== *)
theory Filer
  imports Attach Nfs Appliance
begin

text \<open>
  The NFS backend under the controller: a stand-in appliance that serves datasets and exports,
  the way the backend's own tests have it (\<^verbatim>\<open>internal/backend/nfs/nfs_test.go\<close>), and the proof
  that the controller, the backend and this appliance together keep the contract the fence
  rests on.
\<close>

section \<open>The appliance\<close>

record exports =
  ex_shares :: "(string \<times> nfsShare) list"
  ex_next :: int

definition share_json :: "string \<Rightarrow> nfsShare \<Rightarrow> json" where
  "share_json path sh = JObj [(''id'', JInt (sh_ID sh)), (''path'', JStr path),
     (''hosts'', strings_json (sh_Hosts sh)), (''networks'', strings_json (sh_Networks sh)),
     (''enabled'', JBool (sh_Enabled sh = Some True))]"

definition filter_value :: "json list \<Rightarrow> string" where
  "filter_value ps = (case ps of JArr [JArr [_, _, v]] # _ \<Rightarrow> str_or_empty v | _ \<Rightarrow> [])"

definition strList :: "json option \<Rightarrow> string list" where
  "strList j =
     (case j of Some (JArr es) \<Rightarrow> concat (map (\<lambda>e. case e of JStr s \<Rightarrow> [s] | _ \<Rightarrow> []) es) | _ \<Rightarrow> [])"

definition ex_query :: "json list \<Rightarrow> (exports, go_error, json) op" where
  "ex_query ps x =
     (case map_of (ex_shares x) (filter_value ps) of
        None \<Rightarrow> (Inr (JArr []), x)
      | Some sh \<Rightarrow> (Inr (JArr [share_json (filter_value ps) sh]), x))"

definition ex_create :: "json list \<Rightarrow> (exports, go_error, json) op" where
  "ex_create ps x =
     (let kvs = obj_members (hd ps);
          path = (case jget ''path'' kvs of Some j \<Rightarrow> str_or_empty j | None \<Rightarrow> []);
          sh = \<lparr>sh_ID = ex_next x + 1, sh_Path = path, sh_Hosts = strList (jget ''hosts'' kvs),
                sh_Networks = strList (jget ''networks'' kvs), sh_Enabled = Some True\<rparr>
      in (Inr (share_json path sh), \<lparr>ex_shares = put path sh (ex_shares x), ex_next = ex_next x + 1\<rparr>))"

definition ex_set :: "(string \<times> json) list \<Rightarrow> nfsShare \<Rightarrow> nfsShare" where
  "ex_set kvs sh = sh\<lparr>
     sh_Hosts := (if jget ''hosts'' kvs = None then sh_Hosts sh else strList (jget ''hosts'' kvs)),
     sh_Networks := (if jget ''networks'' kvs = None then sh_Networks sh else strList (jget ''networks'' kvs))\<rparr>"

definition ex_update :: "json list \<Rightarrow> (exports, go_error, json) op" where
  "ex_update ps x =
     (let i = (case ps ! 0 of JInt n \<Rightarrow> n | _ \<Rightarrow> 0); kvs = obj_members (ps ! 1)
      in if list_ex (\<lambda>(_, sh). sh_ID sh = i) (ex_shares x)
         then (Inr JNull, x\<lparr>ex_shares := map (\<lambda>(p, sh). (p, if sh_ID sh = i then ex_set kvs sh else sh)) (ex_shares x)\<rparr>)
         else (Inl (rpc_error ''sharing.nfs.update'' (- 32602) ''EINVAL'' ''[ENOENT] share''), x))"

definition ex_delete :: "json list \<Rightarrow> (exports, go_error, json) op" where
  "ex_delete ps x =
     (let i = (case ps ! 0 of JInt n \<Rightarrow> n | _ \<Rightarrow> 0)
      in (Inr (JBool True), x\<lparr>ex_shares := filter (\<lambda>(_, sh). sh_ID sh \<noteq> i) (ex_shares x)\<rparr>))"

definition on_exports :: "(exports, go_error, json) op \<Rightarrow> (nas \<times> exports, go_error, json) op" where
  "on_exports f s = (case f (snd s) of (r, x') \<Rightarrow> (r, (fst s, x')))"

definition filer_call :: "(nas \<times> exports) transport" where
  "filer_call m ps =
     (if m = ''sharing.nfs.query'' then on_exports (ex_query ps)
      else if m = ''sharing.nfs.create'' then on_exports (ex_create ps)
      else if m = ''sharing.nfs.update'' then on_exports (ex_update ps)
      else if m = ''sharing.nfs.delete'' then on_exports (ex_delete ps)
      else lift_call nas_call m ps)"

section \<open>The driver on this appliance\<close>

text \<open>
  The registry builds a new backend for every request, so its caches are empty each time.
\<close>

definition fresh_cache :: nfs_cache where
  "fresh_cache = \<lparr>nc_server = [], nc_versions = Map.empty\<rparr>"

definition nfs_publisher :: "'s transport \<Rightarrow> nfs_backend \<Rightarrow> 's publisher" where
  "nfs_publisher call b = \<lparr>pub_Publish = nfs_Publish call b fresh_cache, pub_Unpublish = nfs_Unpublish call b\<rparr>"

definition nfs_controller :: "'s transport \<Rightarrow> nfs_backend \<Rightarrow> (string \<rightharpoonup> string list) \<Rightarrow> 's controller" where
  "nfs_controller call b nodes =
     \<lparr>ctl_Client = (\<lambda>_. retE call),
      ctl_Resolve = (\<lambda>n. case nodes n of
          None \<Rightarrow> failE (Wrapped [Sentinel ErrNodeNotFound])
        | Some as \<Rightarrow> retE \<lparr>nr_ID = n, nr_Addrs = Some as, nr_IQN = [], nr_NQN = []\<rparr>),
      ctl_For = (\<lambda>_ _. retE (Some (nfs_publisher call b)))\<rparr>"

section \<open>The contract holds\<close>

definition clean_host :: "string \<Rightarrow> bool" where
  "clean_host h \<longleftrightarrow> h \<noteq> [] \<and> TrimSpace h = h"

definition exports_ok :: "exports \<Rightarrow> bool" where
  "exports_ok x \<longleftrightarrow> distinct (map fst (ex_shares x)) \<and> distinct (map (\<lambda>(_, sh). sh_ID sh) (ex_shares x))
     \<and> (\<forall>(p, sh) \<in> set (ex_shares x). sh_ID sh \<le> ex_next x \<and> sh_Path sh = p \<and> sh_Enabled sh \<noteq> None
          \<and> list_all clean_host (sh_Hosts sh))"

definition volume_present :: "vol_id \<Rightarrow> nas \<times> exports \<Rightarrow> bool" where
  "volume_present i s \<longleftrightarrow> nas_locals (fst s) (DatasetPath i) \<noteq> None"

definition filer_export :: "vol_id \<Rightarrow> nas \<times> exports \<Rightarrow> nfsShare option" where
  "filer_export i s = map_of (ex_shares (snd s)) (''/mnt/'' @ DatasetPath i)"

definition filer_admitted :: "vol_id \<Rightarrow> nas \<times> exports \<Rightarrow> string set" where
  "filer_admitted i s =
     (if volume_present i s
      then case filer_export i s of None \<Rightarrow> {} | Some sh \<Rightarrow> set (sh_Hosts sh) - {DenyHost}
      else {})"

definition filer_ledger :: "vol_id \<Rightarrow> nas \<times> exports \<Rightarrow> string \<rightharpoonup> slice" where
  "filer_ledger i s =
     (case ReadGrants filer_call i s of (Inr g, _) \<Rightarrow> map_of g | _ \<Rightarrow> Map.empty)"

definition filer_wf :: "vol_id \<Rightarrow> nas \<times> exports \<Rightarrow> bool" where
  "filer_wf i s \<longleftrightarrow> nas_wf (fst s) \<and> exports_ok (snd s) \<and> clean_ledger (filer_ledger i s)"

lemma filer_CallJSON:
  assumes "m \<notin> {''sharing.nfs.query'', ''sharing.nfs.create'', ''sharing.nfs.update'', ''sharing.nfs.delete''}"
  shows "CallJSON filer_call dec m ps = CallJSON (lift_call nas_call) dec m ps"
  using assms by (simp add: CallJSON_def filer_call_def)

lemma filer_datasets:
  "DatasetQuery filer_call i = lifted (DatasetQuery nas_call i)"
  "SetUserProperty filer_call i k v = lifted (SetUserProperty nas_call i k v)"
proof -
  have "DatasetQuery filer_call i = DatasetQuery (lift_call nas_call) i"
    unfolding DatasetQuery_def by (simp add: filer_CallJSON)
  then show "DatasetQuery filer_call i = lifted (DatasetQuery nas_call i)" by (simp add: lift_Ops)
  have "SetUserProperty filer_call i k v = SetUserProperty (lift_call nas_call) i k v"
    unfolding SetUserProperty_def DatasetUpdate_def by (simp add: filer_CallJSON)
  then show "SetUserProperty filer_call i k v = lifted (SetUserProperty nas_call i k v)"
    by (simp add: lift_SetUserProperty)
qed

lemma filer_query:
  assumes "nas_wf (fst s)"
  shows "nas_locals (fst s) p = None \<Longrightarrow> DatasetQuery filer_call p s = (Inr None, s)"
    and "nas_locals (fst s) p = Some ps \<Longrightarrow> \<exists>d. DatasetQuery filer_call p s = (Inr (Some d), s) \<and> reports p ps d"
  using nas_DatasetQuery [OF assms, of p] by (auto simp: filer_datasets lifted_def)

lemma reports_mountpoint: "reports p ps d \<Longrightarrow> mountpointOf (Some d) p = ''/mnt/'' @ p"
  by (auto simp: reports_def mountpointOf_def)

lemma decode_strings: "decode_list decode_string (strings_json xs) = Some xs"
proof -
  have "decode_all decode_string (map JStr xs) = Some xs"
    by (induction xs) (simp_all add: decode_string_def)
  then show ?thesis by (simp add: decode_list_def strings_json_def)
qed

lemma decode_share_json:
  assumes "sh_Path sh = p" "sh_Enabled sh \<noteq> None"
  shows "decode_share (share_json p sh) = (if in_int64 (sh_ID sh) then Some sh else None)"
  using assms by (cases sh) (auto simp: decode_share_def share_json_def int_field_def string_field_def list_field_def
      jget_def decode_strings)

lemma plain_not_found [simp]: "\<not> IsNotFound (Wrapped [Plain m])"
  by (simp add: IsNotFound_def errors_As_def)

lemma filer_shareByPath:
  assumes "exports_ok (snd s)" "shareByPath filer_call p s = (r, s')"
  shows "s' = s \<and> (\<forall>q. r = Inr q \<longrightarrow> q = map_of (ex_shares (snd s)) p)"
proof -
  have fv: "filter_value [filter_json ''path'' ''='' p, JObj []] = p"
    by (simp add: filter_value_def filter_json_def str_or_empty_def)
  show ?thesis
  proof (cases "map_of (ex_shares (snd s)) p")
    case None
    then show ?thesis
      using assms(2) by (auto simp: shareByPath_def CallJSON_def filer_call_def on_exports_def ex_query_def fv
          tryE_def bindE_def retE_def failE_def decode_list_def)
  next
    case (Some sh)
    then have "(p, sh) \<in> set (ex_shares (snd s))" by (rule map_of_SomeD)
    then have "sh_Path sh = p" "sh_Enabled sh \<noteq> None" using assms(1) by (auto simp: exports_ok_def)
    from decode_share_json [OF this] show ?thesis
      using assms(2) Some
      by (auto simp: shareByPath_def CallJSON_def filer_call_def on_exports_def ex_query_def fv
          tryE_def bindE_def retE_def failE_def decode_list_def split: if_splits)
  qed
qed

lemma strList_json: "strList (Some (strings_json xs)) = xs" "strList (Some (JArr [])) = []"
  by (induction xs) (simp_all add: strList_def strings_json_def)

lemma withDenyHost_clean:
  assumes "list_all clean_host hs"
  shows "set (withDenyHost hs) = insert DenyHost (set hs)" "list_all clean_host (withDenyHost hs)"
proof -
  have "TrimSpace ` set hs - {[]} = set hs"
    using assms by (force simp: list_all_iff clean_host_def image_iff)
  then show s: "set (withDenyHost hs) = insert DenyHost (set hs)" by (simp add: withDenyHost_set)
  have "clean_host DenyHost" by (simp add: clean_host_def DenyHost_def) code_simp
  with assms s show "list_all clean_host (withDenyHost hs)" by (auto simp: list_all_iff)
qed

lemma filer_setHosts:
  assumes "exports_ok (snd s)" "map_of (ex_shares (snd s)) p = Some sh" "list_all clean_host hs"
  shows "\<exists>x'. setHosts filer_call (sh_ID sh) hs s = (Inr (), (fst s, x')) \<and> exports_ok x'
    \<and> map_of (ex_shares x') p = Some (sh\<lparr>sh_Hosts := withDenyHost hs, sh_Networks := []\<rparr>)"
proof -
  let ?kvs = "[(''hosts'', strings_json (withDenyHost hs)), (''networks'', JArr [])]"
  let ?f = "\<lambda>(q, sh'). (q, if sh_ID sh' = sh_ID sh then ex_set ?kvs sh' else sh')"
  let ?x = "(snd s)\<lparr>ex_shares := map ?f (ex_shares (snd s))\<rparr>"
  have mem: "(p, sh) \<in> set (ex_shares (snd s))" by (rule map_of_SomeD [OF assms(2)])
  then have ex: "list_ex (\<lambda>(_, sh'). sh_ID sh' = sh_ID sh) (ex_shares (snd s))" by (auto simp: list_ex_iff)
  have set: "ex_set ?kvs sh' = sh'\<lparr>sh_Hosts := withDenyHost hs, sh_Networks := []\<rparr>" for sh'
    by (simp add: ex_set_def jget_def strList_json)
  have run: "setHosts filer_call (sh_ID sh) hs s = (Inr (), (fst s, ?x))"
    using ex by (simp add: setHosts_def CallUnit_def CallJSON_def filer_call_def on_exports_def ex_update_def
        bindE_def retE_def obj_members_def Let_def)
  have fst: "map fst (map ?f (ex_shares (snd s))) = map fst (ex_shares (snd s))"
    and ids: "map (\<lambda>(_, sh). sh_ID sh) (map ?f (ex_shares (snd s))) = map (\<lambda>(_, sh). sh_ID sh) (ex_shares (snd s))"
    by (auto simp: set)
  have "map_of (map ?f (ex_shares (snd s))) p = Some (ex_set ?kvs sh)"
  proof (rule map_of_is_SomeI)
    show "distinct (map fst (map ?f (ex_shares (snd s))))" unfolding fst using assms(1) by (simp add: exports_ok_def)
    show "(p, ex_set ?kvs sh) \<in> set (map ?f (ex_shares (snd s)))" using mem by force
  qed
  moreover have shares: "ex_shares ?x = map ?f (ex_shares (snd s))" by simp
  have "exports_ok ?x"
    unfolding exports_ok_def shares fst ids
    using assms(1) withDenyHost_clean(2) [OF assms(3)]
    by (auto simp: exports_ok_def set split: if_splits)
  ultimately show ?thesis using run by (auto simp: set)
qed

lemma filer_createShare:
  assumes "exports_ok (snd s)" "map_of (ex_shares (snd s)) p = None" "list_all clean_host hs"
    and "createShare filer_call p hs np s = (r, s')"
  shows "fst s' = fst s \<and> exports_ok (snd s') \<and>
    (\<exists>sh. map_of (ex_shares (snd s')) p = Some sh \<and> set (sh_Hosts sh) = insert DenyHost (set hs))"
proof -
  let ?sh = "\<lparr>sh_ID = ex_next (snd s) + 1, sh_Path = p, sh_Hosts = withDenyHost hs, sh_Networks = [], sh_Enabled = Some True\<rparr>"
  have f: "jget ''path'' (obj_members (share_payload p hs np)) = Some (JStr p)"
    "jget ''hosts'' (obj_members (share_payload p hs np)) = Some (strings_json (withDenyHost hs))"
    "jget ''networks'' (obj_members (share_payload p hs np)) = Some (JArr [])"
    by (simp_all add: share_payload_def obj_members_def jget_def)
  have s': "s' = (fst s, \<lparr>ex_shares = put p ?sh (ex_shares (snd s)), ex_next = ex_next (snd s) + 1\<rparr>)"
    using assms(4)
    by (auto simp: createShare_def CallJSON_def filer_call_def on_exports_def ex_create_def f strList_json str_or_empty_def
        bindE_def retE_def failE_def Let_def split: option.splits)
  have new: "put p ?sh xs = xs @ [(p, ?sh)]" if "map_of xs p = None" for xs
    using that by (induction xs) auto
  have "exports_ok (snd s')"
    using assms(1,2) withDenyHost_clean(2) [OF assms(3)]
    unfolding s' snd_conv new [OF assms(2)]
    by (fastforce simp: exports_ok_def map_of_eq_None_iff image_iff)
  then show ?thesis by (simp add: s' withDenyHost_clean(1) [OF assms(3)])
qed

lemma distinct_decode_entries: "decode_entries kvs g = Some g' \<Longrightarrow> distinct (map fst g) \<Longrightarrow> distinct (map fst g')"
  by (induction kvs g rule: decode_entries.induct) (auto split: option.splits)

lemma distinct_DecodeGrants: "DecodeGrants s = Inr g \<Longrightarrow> distinct (map fst g)"
  by (auto simp: DecodeGrants_def split: if_splits option.splits json.splits dest: distinct_decode_entries)

lemma DecodeGrants_no_gone: "DecodeGrants s = Inl e \<Longrightarrow> \<not> errors_Is e ErrVolumeGone"
  by (auto simp: DecodeGrants_def split: if_splits option.splits json.splits)

lemma filer_ReadGrants:
  assumes "nas_wf (fst s)" "ReadGrants filer_call i s = (r, s')"
  shows "s' = s" "r = Inr g \<Longrightarrow> map_of g = filer_ledger i s \<and> distinct (map fst g)"
    "r = Inl e \<Longrightarrow> errors_Is e ErrVolumeGone \<Longrightarrow> \<not> volume_present i s"
proof -
  have "s' = s \<and> (r = Inr g \<longrightarrow> distinct (map fst g))
      \<and> (r = Inl e \<longrightarrow> errors_Is e ErrVolumeGone \<longrightarrow> \<not> volume_present i s)"
  proof (cases "nas_locals (fst s) (DatasetPath i)")
    case None
    then show ?thesis
      using filer_query(1) [OF assms(1) None] assms(2)
      by (auto simp: ReadGrants_def tryE_def failE_def volume_present_def)
  next
    case (Some ps)
    from filer_query(2) [OF assms(1) Some] obtain d where "DatasetQuery filer_call (DatasetPath i) s = (Inr (Some d), s)"
      by blast
    then show ?thesis
      using assms(2) distinct_DecodeGrants DecodeGrants_no_gone by (auto simp: ReadGrants_def tryE_def liftE_def)
  qed
  then show "s' = s" "r = Inr g \<Longrightarrow> map_of g = filer_ledger i s \<and> distinct (map fst g)"
    "r = Inl e \<Longrightarrow> errors_Is e ErrVolumeGone \<Longrightarrow> \<not> volume_present i s"
    using assms(2) by (auto simp: filer_ledger_def)
qed

text \<open>The ledger and the presence of the volume depend on the datasets alone.\<close>

lemma filer_ledger_fst:
  assumes "fst s' = fst s"
  shows "filer_ledger i s' = filer_ledger i s" "volume_present i s' = volume_present i s"
proof -
  have "fst (ReadGrants filer_call i s') = fst (ReadGrants filer_call i s)"
    using assms by (auto simp: ReadGrants_def filer_datasets lifted_def tryE_def retE_def failE_def liftE_def
        split: prod.splits sum.splits option.splits)
  then show "filer_ledger i s' = filer_ledger i s"
    by (cases "ReadGrants filer_call i s'"; cases "ReadGrants filer_call i s") (auto simp: filer_ledger_def split: sum.splits)
  show "volume_present i s' = volume_present i s" by (simp add: volume_present_def assms)
qed

lemma filer_wf_fst: "filer_wf i s \<Longrightarrow> fst s' = fst s \<Longrightarrow> exports_ok (snd s') \<Longrightarrow> filer_wf i s'"
  using filer_ledger_fst(1) [of s' s i] by (simp add: filer_wf_def)

lemma filer_set_ledger:
  assumes "nas_wf (fst s)" "SetUserProperty filer_call (DatasetPath i) PublishedProperty v s = (r, s')"
  shows "snd s' = snd s \<and> nas_wf (fst s') \<and> volume_present i s' = volume_present i s
    \<and> (isl r \<longrightarrow> s' = s) \<and> (\<not> isl r \<longrightarrow> ReadGrants filer_call i s' = (DecodeGrants v, s'))"
proof (cases "nas_locals (fst s) (DatasetPath i)")
  case None
  have "map_of (datasets (fst s)) (DatasetPath i) = None" using None by (simp add: nas_locals_def)
  then have "SetUserProperty nas_call (DatasetPath i) PublishedProperty v (fst s) =
      (Inl (nas_notFound ''pool.dataset.update'' (DatasetPath i)), fst s)"
    by (simp add: SetUserProperty_def DatasetUpdate_def CallJSON_def nas_call_def nas_update_def str_or_empty_def
        bindE_def Let_def)
  then have "r = Inl (nas_notFound ''pool.dataset.update'' (DatasetPath i))" "s' = s"
    using assms(2) by (auto simp: filer_datasets lifted_def)
  then show ?thesis using assms(1) by simp
next
  case (Some ps)
  from nas_SetUserProperty [OF assms(1) Some, of PublishedProperty v] obtain n' where n':
    "SetUserProperty nas_call (DatasetPath i) PublishedProperty v (fst s) = (Inr (), n')" "nas_wf n'"
    "nas_locals n' = (nas_locals (fst s))(DatasetPath i \<mapsto> ps(PublishedProperty \<mapsto> v))" by blast
  then have s': "r = Inr ()" "s' = (n', snd s)" using assms(2) by (auto simp: filer_datasets lifted_def)
  have loc: "nas_locals (fst s') (DatasetPath i) = Some (ps(PublishedProperty \<mapsto> v))" by (simp add: s' n'(3))
  have "nas_wf (fst s')" by (simp add: s' n'(2))
  from filer_query(2) [OF this loc] obtain d where d: "DatasetQuery filer_call (DatasetPath i) s' = (Inr (Some d), s')"
    "reports (DatasetPath i) (ps(PublishedProperty \<mapsto> v)) d" by blast
  have "LocalProperty d PublishedProperty = v" by (rule reports_LocalProperty [OF d(2)]) simp
  with d(1) have "ReadGrants filer_call i s' = (DecodeGrants v, s')" by (simp add: ReadGrants_def tryE_def liftE_def)
  then show ?thesis using s' n' Some by (simp add: volume_present_def)
qed

lemma filer_save:
  assumes "filer_wf i s" "distinct (map fst g)" "clean_ledger (map_of g)" "SaveGrants filer_call i g s = (r, s')"
  shows "filer_wf i s' \<and> filer_admitted i s' = filer_admitted i s
    \<and> (r = Inr () \<longrightarrow> filer_ledger i s' = map_of g) \<and> filer_ledger i s' \<in> {filer_ledger i s, map_of g}"
proof (cases "Encode g")
  case (Inl e)
  with assms(1,4) show ?thesis by (auto simp: SaveGrants_def failE_def)
next
  case (Inr v)
  have "ascii_grants g"
    unfolding ascii_grants_def list_all_iff
  proof clarify
    fix k w assume "(k, w) \<in> set g"
    then have "map_of g k = Some w" using assms(2) by simp
    then show "ascii k \<and> (\<forall>x \<in> set (elems w). ascii x)"
      using assms(3) by (auto simp: clean_ledger_def clean_slice_def list_all_iff)
  qed
  from Encode_decode [OF assms(2) this Inr] obtain g' where g': "DecodeGrants v = Inr g'" "map_of g' = map_of g" by blast
  obtain q s1 where q: "SetUserProperty filer_call (DatasetPath i) PublishedProperty v s = (q, s1)" by (meson surj_pair)
  then have rs: "s' = s1" "r = Inr () \<longleftrightarrow> \<not> isl q"
    using assms(4) Inr by (auto simp: SaveGrants_def tryE_def retE_def failE_def split: sum.splits)
  have nas: "nas_wf (fst s)" and ex: "exports_ok (snd s)" using assms(1) by (simp_all add: filer_wf_def)
  note w = filer_set_ledger [OF nas q]
  have led: "filer_ledger i s1 = map_of g" if "\<not> isl q"
    using w that g' by (simp add: filer_ledger_def)
  have adm: "filer_admitted i s1 = filer_admitted i s"
    using w by (simp add: filer_admitted_def filer_export_def)
  show ?thesis
  proof (cases "isl q")
    case True
    then show ?thesis using w assms(1) rs by simp
  next
    case False
    then show ?thesis using led [OF False] adm w ex assms(3) rs by (simp add: filer_wf_def)
  qed
qed

lemma wp_filer_query:
  assumes "nas_wf (fst s)"
  shows "wp (DatasetQuery filer_call (DatasetPath i)) s (\<lambda>r s'. s' = s
    \<and> (r = Inr None \<and> \<not> volume_present i s
       \<or> (\<exists>d. r = Inr (Some d) \<and> mountpointOf (Some d) (DatasetPath i) = ''/mnt/'' @ DatasetPath i \<and> volume_present i s)))"
proof (cases "nas_locals (fst s) (DatasetPath i)")
  case None
  then show ?thesis using filer_query(1) [OF assms None] by (simp add: wp_def volume_present_def)
next
  case (Some ps)
  from filer_query(2) [OF assms Some] obtain d where "DatasetQuery filer_call (DatasetPath i) s = (Inr (Some d), s)"
    "reports (DatasetPath i) ps d" by blast
  then show ?thesis using reports_mountpoint Some by (simp add: wp_def volume_present_def)
qed

lemma wp_filer_share:
  "exports_ok (snd s) \<Longrightarrow>
     wp (shareByPath filer_call p) s (\<lambda>r s'. s' = s \<and> (\<forall>q. r = Inr q \<longrightarrow> q = map_of (ex_shares (snd s)) p))"
  by (rule wpI) (rule filer_shareByPath)

lemma filer_PublishContext:
  assumes "nas_wf (fst s)"
  shows "wp (nfs_PublishContext filer_call b c i) s (\<lambda>r s'. s' = s)"
proof -
  have "wp (tryE (DatasetQuery filer_call (DatasetPath i)) k) s (\<lambda>r s'. s' = s)"
    if "\<And>r. wp (k r) s (\<lambda>r s'. s' = s)" for k :: "_ \<Rightarrow> (nas \<times> exports, go_error, (string \<times> string) list) op"
    by (rule wp_try_step [OF wp_filer_query [OF assms]]) (use that in auto)
  then show ?thesis
    unfolding nfs_PublishContext_def Let_def
    by (auto simp: wp_rules split: sum.split option.split)
qed

lemma clean_grant:
  assumes "clean_slice v" "grantHosts (elems v) ns = Inr hs"
  shows "list_all clean_host hs" "set hs \<subseteq> addresses v"
  using assms by (auto simp: grantHosts_def addresses_def clean_slice_def clean_host_def list_all_iff
      split: if_splits option.splits)

lemma filer_hosts: "exports_ok x \<Longrightarrow> map_of (ex_shares x) p = Some sh \<Longrightarrow> list_all clean_host (sh_Hosts sh)"
  by (auto simp: exports_ok_def dest!: map_of_SomeD)

definition filer_granted :: "vol_id \<Rightarrow> slice \<Rightarrow> nas \<times> exports \<Rightarrow> nas \<times> exports \<Rightarrow> bool" where
  "filer_granted i v s s' \<longleftrightarrow> fst s' = fst s \<and> exports_ok (snd s') \<and> filer_admitted i s' \<subseteq> filer_admitted i s \<union> addresses v"

lemma filer_setHosts_granted:
  assumes "exports_ok (snd s)" "filer_export i s = Some sh" "list_all clean_host hs" "set hs \<subseteq> addresses v" "volume_present i s"
  shows "wp (setHosts filer_call (sh_ID sh) (sh_Hosts sh @ hs)) s (\<lambda>r s'. filer_granted i v s s')"
proof -
  have clean: "list_all clean_host (sh_Hosts sh @ hs)"
    using assms(3) filer_hosts [OF assms(1) assms(2) [unfolded filer_export_def]] by simp
  from filer_setHosts [OF assms(1) assms(2) [unfolded filer_export_def] clean] obtain x' where x':
    "setHosts filer_call (sh_ID sh) (sh_Hosts sh @ hs) s = (Inr (), (fst s, x'))" "exports_ok x'"
    "map_of (ex_shares x') (''/mnt/'' @ DatasetPath i) =
       Some (sh\<lparr>sh_Hosts := withDenyHost (sh_Hosts sh @ hs), sh_Networks := []\<rparr>)" by blast
  have "filer_admitted i (fst s, x') \<subseteq> filer_admitted i s \<union> addresses v"
    using assms(2,4,5) withDenyHost_clean(1) [OF clean] filer_ledger_fst(2) [of "(fst s, x')" s i] x'(3)
    by (auto simp: filer_admitted_def filer_export_def)
  with x' show ?thesis by (simp add: wp_def filer_granted_def)
qed

lemma filer_createShare_granted:
  assumes "exports_ok (snd s)" "filer_export i s = None" "list_all clean_host hs" "set hs \<subseteq> addresses v" "volume_present i s"
  shows "wp (createShare filer_call (''/mnt/'' @ DatasetPath i) hs np) s (\<lambda>r s'. filer_granted i v s s')"
proof (rule wpI)
  fix r s' assume "createShare filer_call (''/mnt/'' @ DatasetPath i) hs np s = (r, s')"
  from filer_createShare [OF assms(1) assms(2) [unfolded filer_export_def] assms(3) this] assms(4)
  show "filer_granted i v s s'"
    by (auto simp: filer_granted_def filer_admitted_def filer_export_def)
qed

lemma filer_granted_context:
  assumes "filer_granted i v s s'" "filer_wf i s"
  shows "wp (nfs_PublishContext filer_call b c i) s' (\<lambda>r s'. filer_granted i v s s')"
proof -
  have "nas_wf (fst s')" using assms by (simp add: filer_granted_def filer_wf_def)
  from filer_PublishContext [OF this] show ?thesis by (rule wp_mono) (use assms(1) in simp)
qed

lemma filer_publish:
  assumes "filer_wf i s" "clean_slice (nr_Addrs nd)"
  shows "wp (nfs_Publish filer_call b c i nd) s (\<lambda>r s'. filer_granted i (nr_Addrs nd) s s')"
proof -
  let ?Q = "\<lambda>(r :: go_error + (string \<times> string) list) s'. filer_granted i (nr_Addrs nd) s s'"
  have ok: "nas_wf (fst s)" "exports_ok (snd s)" using assms(1) by (simp_all add: filer_wf_def)
  then have same: "?Q r s" for r by (simp add: filer_granted_def)
  have finish: "wp (case r of Inl _ \<Rightarrow> failE (Status Internal) | Inr _ \<Rightarrow> nfs_PublishContext filer_call b c i) s' ?Q"
    if "filer_granted i (nr_Addrs nd) s s'" for r :: "go_error + 'x" and s'
    using that filer_granted_context [OF that assms(1)] by (cases r) (simp_all add: wp_rules)
  have add: "wp (tryE (shareByPath filer_call (''/mnt/'' @ DatasetPath i)) (\<lambda>r. case r of
        Inl _ \<Rightarrow> failE (Status Internal)
      | Inr None \<Rightarrow> tryE (createShare filer_call (''/mnt/'' @ DatasetPath i) hs (nfs_recall c i)) (\<lambda>r.
          case r of Inl _ \<Rightarrow> failE (Status Internal) | Inr _ \<Rightarrow> nfs_PublishContext filer_call b c i)
      | Inr (Some sh) \<Rightarrow> if \<not> serving (Some sh) then failE (Status FailedPrecondition)
          else tryE (setHosts filer_call (sh_ID sh) (sh_Hosts sh @ hs)) (\<lambda>r.
            case r of Inl _ \<Rightarrow> failE (Status Internal) | Inr _ \<Rightarrow> nfs_PublishContext filer_call b c i))) s ?Q"
    if hs: "list_all clean_host hs" "set hs \<subseteq> addresses (nr_Addrs nd)" and v: "volume_present i s" for hs
  proof (rule wp_try_step [OF wp_filer_share [OF ok(2)]], goal_cases)
    case (1 r s')
    have "wp (tryE (createShare filer_call (''/mnt/'' @ DatasetPath i) hs (nfs_recall c i)) (\<lambda>r.
          case r of Inl _ \<Rightarrow> failE (Status Internal) | Inr _ \<Rightarrow> nfs_PublishContext filer_call b c i)) s ?Q"
      if "filer_export i s = None"
      by (rule wp_try_step [OF filer_createShare_granted [OF ok(2) that hs v] finish])
    moreover have "wp (tryE (setHosts filer_call (sh_ID sh) (sh_Hosts sh @ hs)) (\<lambda>r.
            case r of Inl _ \<Rightarrow> failE (Status Internal) | Inr _ \<Rightarrow> nfs_PublishContext filer_call b c i)) s ?Q"
      if "filer_export i s = Some sh" for sh
      by (rule wp_try_step [OF filer_setHosts_granted [OF ok(2) that hs v] finish])
    ultimately show ?case
      using 1 same by (cases r) (auto simp: wp_basic wp_if filer_export_def split: option.split)
  qed
  have query: "wp (tryE (DatasetQuery filer_call (DatasetPath i)) k) s ?Q"
    if "\<And>e. wp (k (Inl e)) s ?Q" "wp (k (Inr None)) s ?Q"
      "\<And>d. mountpointOf (Some d) (DatasetPath i) = ''/mnt/'' @ DatasetPath i \<Longrightarrow> volume_present i s \<Longrightarrow> wp (k (Inr (Some d))) s ?Q" for k
    by (rule wp_try_step [OF wp_filer_query [OF ok(1)]]) (use that in auto)
  show ?thesis
  proof (cases "Confine i (nb_pool b) (nb_parent b)")
    case (Inr u)
    have "wp (liftE (grantHosts (elems (nr_Addrs nd)) ns)) s
        (\<lambda>r s'. s' = s \<and> (\<forall>hs. r = Inr hs \<longrightarrow> list_all clean_host hs \<and> set hs \<subseteq> addresses (nr_Addrs nd)))" for ns
      using clean_grant [OF assms(2)] by (simp add: wp_basic)
    note grant = wp_bind_step [OF this]
    show ?thesis
      unfolding nfs_Publish_def Let_def Inr sum.case
    proof (rule query, goal_cases)
      case (3 d)
      show ?case
        unfolding sum.case option.case 3(1)
      proof (rule grant, goal_cases)
        case (2 hs s')
        then show ?case using same add [of hs] 3(2) by (simp add: wp_basic)
      qed (use same in simp)
    qed (use same in \<open>simp_all add: wp_basic\<close>)
  qed (use same in \<open>simp add: nfs_Publish_def wp_basic\<close>)
qed

lemma filer_setHosts_revoked:
  assumes "exports_ok (snd s)" "filer_export i s = Some sh" "clean_slice v" "volume_present i s"
  shows "wp (setHosts filer_call (sh_ID sh) (withoutHosts (sh_Hosts sh) (elems v))) s
    (\<lambda>r s'. fst s' = fst s \<and> exports_ok (snd s') \<and> filer_admitted i s' = filer_admitted i s - addresses v)"
proof -
  let ?hs = "filter (\<lambda>h. h \<notin> set (map TrimSpace (elems v))) (sh_Hosts sh)"
  have trim: "set (map TrimSpace (elems v)) = addresses v"
    using assms(3) by (force simp: clean_slice_def addresses_def list_all_iff image_iff)
  have clean: "list_all clean_host ?hs"
    using filer_hosts [OF assms(1) assms(2) [unfolded filer_export_def]] by (auto simp: list_all_iff)
  note d1 = withDenyHost_clean [OF clean] note d2 = withDenyHost_clean [OF d1(2)]
  from filer_setHosts [OF assms(1) assms(2) [unfolded filer_export_def] d1(2)] obtain x' where x':
    "setHosts filer_call (sh_ID sh) (withDenyHost ?hs) s = (Inr (), (fst s, x'))" "exports_ok x'"
    "map_of (ex_shares x') (''/mnt/'' @ DatasetPath i) =
       Some (sh\<lparr>sh_Hosts := withDenyHost (withDenyHost ?hs), sh_Networks := []\<rparr>)" by blast
  have "set (withDenyHost (withDenyHost ?hs)) - {DenyHost} = set (sh_Hosts sh) - {DenyHost} - addresses v"
    unfolding d2(1) d1(1) unfolding set_filter trim by auto
  then have "filer_admitted i (fst s, x') = filer_admitted i s - addresses v"
    using assms(2,4) filer_ledger_fst(2) [of "(fst s, x')" s i] x'(3)
    by (simp add: filer_admitted_def filer_export_def)
  with x' show ?thesis by (simp add: wp_def withoutHosts_def)
qed

lemma filer_unpublish:
  assumes "filer_wf i s" "clean_slice (nr_Addrs nd)"
  shows "wp (nfs_Unpublish filer_call b i nd) s (\<lambda>r s'. fst s' = fst s \<and> exports_ok (snd s')
    \<and> filer_admitted i s' \<subseteq> filer_admitted i s
    \<and> (r = Inr () \<longrightarrow> filer_admitted i s' = filer_admitted i s - addresses (nr_Addrs nd)))" (is "wp _ s ?Q")
proof -
  have ok: "nas_wf (fst s)" "exports_ok (snd s)" using assms(1) by (simp_all add: filer_wf_def)
  then have same: "?Q (Inl e) s" for e by simp
  have none: "?Q (Inr ()) s" if "\<not> volume_present i s \<or> filer_export i s = None"
    using ok that by (auto simp: filer_admitted_def)
  have rev: "wp (tryE (shareByPath filer_call (''/mnt/'' @ DatasetPath i)) (\<lambda>r. case r of
        Inl _ \<Rightarrow> failE (Status Internal)
      | Inr None \<Rightarrow> retE ()
      | Inr (Some sh) \<Rightarrow> tryE (setHosts filer_call (sh_ID sh) (withoutHosts (sh_Hosts sh) (elems (nr_Addrs nd)))) (\<lambda>r.
            case r of Inl _ \<Rightarrow> failE (Status Internal) | Inr _ \<Rightarrow> retE ()))) s ?Q" if v: "volume_present i s"
  proof (rule wp_try_step [OF wp_filer_share [OF ok(2)]], goal_cases)
    case (1 r s')
    have "wp (tryE (setHosts filer_call (sh_ID sh) (withoutHosts (sh_Hosts sh) (elems (nr_Addrs nd)))) (\<lambda>r.
            case r of Inl _ \<Rightarrow> failE (Status Internal) | Inr _ \<Rightarrow> retE ())) s ?Q" if "filer_export i s = Some sh" for sh
      by (rule wp_try_step [OF filer_setHosts_revoked [OF ok(2) that assms(2) v]])
        (auto simp: wp_rules split: sum.split)
    with 1 same none show ?case
      by (cases r) (auto simp only: wp_basic filer_export_def sum.case sum.inject sum.distinct option.case simp_thms
          all_simps HOL.disj_not1 split: option.split)
  qed
  have query: "wp (tryE (DatasetQuery filer_call (DatasetPath i)) k) s ?Q"
    if "\<And>e. wp (k (Inl e)) s ?Q" "\<not> volume_present i s \<Longrightarrow> wp (k (Inr None)) s ?Q"
      "\<And>d. mountpointOf (Some d) (DatasetPath i) = ''/mnt/'' @ DatasetPath i \<Longrightarrow> volume_present i s \<Longrightarrow> wp (k (Inr (Some d))) s ?Q" for k
    by (rule wp_try_step [OF wp_filer_query [OF ok(1)]]) (use that in auto)
  show ?thesis
  proof (cases "Confine i (nb_pool b) (nb_parent b)")
    case (Inr u)
    show ?thesis
      unfolding nfs_Unpublish_def Let_def Inr sum.case
      by (rule query) (use same none rev in \<open>simp_all add: wp_basic\<close>)
  qed (use same in \<open>simp add: nfs_Unpublish_def wp_basic\<close>)
qed

definition clean_nodes :: "(string \<rightharpoonup> string list) \<Rightarrow> bool" where
  "clean_nodes nodes \<longleftrightarrow> (\<forall>n as. nodes n = Some as \<longrightarrow> ascii n \<and> clean_slice (Some as))"

theorem filer_attach_world:
  assumes "clean_nodes nodes"
  shows "attach_world (nfs_controller filer_call b nodes) filer_call (nfs_publisher filer_call b) i
    (filer_wf i) (filer_admitted i) (filer_ledger i)"
proof (unfold_locales, goal_cases)
  case (2 s n r2 s')
  with assms show ?case
    by (auto simp: nfs_controller_def clean_nodes_def retE_def failE_def split: option.splits)
next
  case (4 s r4 s')
  with wpD [OF wp_filer_query, of s i] show ?case by (auto simp: filer_wf_def)
next
  case (5 s r5 s')
  then show ?case using filer_ReadGrants(1,2) [of s i r5 s'] by (simp add: filer_wf_def)
next
  case (6 s e s')
  then have "\<not> volume_present i s" using filer_ReadGrants(3) [of s i "Inl e" s' e] by (simp add: filer_wf_def)
  then show ?case by (simp add: filer_admitted_def)
next
  case (8 s g r7 s')
  then show ?case by (rule filer_save)
next
  case (9 s nd r8 s')
  then have "filer_granted i (nr_Addrs nd) s s'"
    using wpD [OF filer_publish [OF 9(1,2)], of b fresh_cache r8 s'] by (simp add: nfs_publisher_def)
  then show ?case
    using filer_wf_fst [OF 9(1), of s'] filer_ledger_fst(1) [of s' s i] by (simp add: filer_granted_def)
next
  case (10 s nd r9 s')
  then show ?case
    using wpD [OF filer_unpublish [OF 10(1,2)], of b r9 s'] filer_wf_fst [OF 10(1), of s'] filer_ledger_fst(1) [of s' s i]
    by (simp add: nfs_publisher_def)
qed (auto simp: nfs_controller_def retE_def filer_wf_def)

text \<open>A cluster of two nodes, one of them with two addresses.\<close>

definition cluster :: "string \<rightharpoonup> string list" where
  "cluster = [''node-a'' \<mapsto> [''10.0.0.11'', ''fd00::11''], ''node-b'' \<mapsto> [''10.0.0.12'']]"

lemma clean_cluster: "clean_nodes cluster"
proof -
  have "ascii ''node-a''" "ascii ''node-b''"
    "clean_slice (Some [''10.0.0.11'', ''fd00::11''])" "clean_slice (Some [''10.0.0.12''])"
    by code_simp+
  then show ?thesis by (simp add: clean_nodes_def cluster_def)
qed

interpretation filer: attach_world "nfs_controller filer_call b cluster" filer_call "nfs_publisher filer_call b" i
  "filer_wf i" "filer_admitted i" "filer_ledger i"
  by (rule filer_attach_world [OF clean_cluster])

section \<open>A run\<close>

definition sample_backend :: nfs_backend where
  "sample_backend = \<lparr>nb_pool = ''tank'', nb_parent = ''k8s'', nb_retire = sample_policy, nb_host = ''nas.example''\<rparr>"

definition sample_filer :: "nas \<times> exports" where
  "sample_filer = (sample_nas, \<lparr>ex_shares = [], ex_next = 0\<rparr>)"

definition sample_controller :: "(nas \<times> exports) controller" where
  "sample_controller = nfs_controller filer_call sample_backend cluster"

definition published_filer :: "nas \<times> exports" where
  "published_filer = snd (publish_body sample_controller sample_id ''node-a'' SINGLE_NODE_WRITER sample_filer)"

lemma published_filer_runs:
  "publish_body sample_controller sample_id ''node-a'' SINGLE_NODE_WRITER sample_filer =
     (Inr [(''server'', ''nas.example''), (''share'', ''/mnt/tank/k8s/pvc-1''), (''nfsVersion'', defaultNFSVersion)], published_filer)"
proof -
  have "fst (publish_body sample_controller sample_id ''node-a'' SINGLE_NODE_WRITER sample_filer) =
     Inr [(''server'', ''nas.example''), (''share'', ''/mnt/tank/k8s/pvc-1''), (''nfsVersion'', defaultNFSVersion)]"
    by code_simp
  then show ?thesis by (metis published_filer_def prod.collapse)
qed

lemma sample_filer_wf: "filer_wf sample_id sample_filer"
proof -
  have "ReadGrants filer_call sample_id sample_filer = (Inr [], sample_filer)"
  proof -
    have "fst (ReadGrants filer_call sample_id sample_filer) = Inr []" by code_simp
    moreover have "nas_wf (fst sample_filer)" by (simp add: sample_filer_def sample_nas_def nas_wf_def)
    ultimately show ?thesis using filer_ReadGrants(1) by (metis prod.collapse)
  qed
  then have "filer_ledger sample_id sample_filer = Map.empty" by (simp add: filer_ledger_def)
  then show ?thesis
    by (simp add: filer_wf_def sample_filer_def sample_nas_def nas_wf_def exports_ok_def clean_ledger_def)
qed

lemma sample_filer_fresh:
  "filer_ledger sample_id sample_filer = Map.empty" "filer_admitted sample_id sample_filer = {}"
proof -
  have "fst (ReadGrants filer_call sample_id sample_filer) = Inr []" by code_simp
  then show "filer_ledger sample_id sample_filer = Map.empty"
    by (cases "ReadGrants filer_call sample_id sample_filer") (simp add: filer_ledger_def)
  show "filer_admitted sample_id sample_filer = {}"
    by (simp add: filer_admitted_def filer_export_def sample_filer_def)
qed

lemma sample_world:
  "attach_world sample_controller filer_call (nfs_publisher filer_call sample_backend) sample_id
     (filer_wf sample_id) (filer_admitted sample_id) (filer_ledger sample_id)"
  unfolding sample_controller_def by (rule filer_attach_world [OF clean_cluster])

lemma published_filer_wf: "filer_wf sample_id published_filer"
  using wpD [OF attach_world.publish_outcome [OF sample_world sample_filer_wf] published_filer_runs]
  by (simp add: attach_world.published_def [OF sample_world])

lemma published_filer_facts:
  "filer_admitted sample_id published_filer = {''10.0.0.11'', ''fd00::11''}"
  "filer_ledger sample_id published_filer = [''node-a'' \<mapsto> Some [''10.0.0.11'', ''fd00::11'']]"
proof -
  have "(case published_filer of s \<Rightarrow> (map_of (datasets (fst s)) (DatasetPath sample_id) \<noteq> None,
        map_option sh_Hosts (filer_export sample_id s), fst (ReadGrants filer_call sample_id s))) =
      (True, Some [''10.0.0.11'', ''192.0.2.1'', ''fd00::11''],
       Inr [(''node-a'', Some [''10.0.0.11'', ''fd00::11''])])"
    by code_simp
  note state = this
  then show "filer_admitted sample_id published_filer = {''10.0.0.11'', ''fd00::11''}"
    by (auto simp: filer_admitted_def volume_present_def nas_locals_def DenyHost_def)
  from state show "filer_ledger sample_id published_filer = [''node-a'' \<mapsto> Some [''10.0.0.11'', ''fd00::11'']]"
    by (cases "ReadGrants filer_call sample_id published_filer") (simp add: filer_ledger_def)
qed


definition sample_handle :: string where
  "sample_handle = ID_String sample_id"

definition fenced_filer :: "nas \<times> exports" where
  "fenced_filer = fst (snd (ControllerUnpublishVolume sample_controller sample_handle [] (published_filer, {})))"


theorem nfs_never_open_witness:
  "only_calls fenced_export (nfs_Publish (recording filer_call) sample_backend fresh_cache sample_id
     \<lparr>nr_ID = ''node-a'', nr_Addrs = Some [''10.0.0.11''], nr_IQN = [], nr_NQN = []\<rparr>)"
proof -
  let ?node = "\<lparr>nr_ID = ''node-a'', nr_Addrs = Some [''10.0.0.11''], nr_IQN = [], nr_NQN = []\<rparr>"
  have "only_calls P (Pair x)" for P x by (auto simp: only_calls_def)
  then show ?thesis
    using nfs_never_open [where tick = "Pair False" and now = "Pair 0" and wait = "\<lambda>_. Pair False"
        and call = filer_call and b = sample_backend and c = fresh_cache and i = sample_id and node = ?node]
    by (simp add: only_calls_def)
qed

definition moved_controller :: "(nas \<times> exports) controller" where
  "moved_controller = nfs_controller filer_call sample_backend (cluster(''node-a'' \<mapsto> [''10.0.0.99'']))"

definition refused :: "'e + 'a \<Rightarrow> bool" where
  "refused r = (case r of Inl _ \<Rightarrow> True | Inr _ \<Rightarrow> False)"

definition moved_run :: "(bool \<times> bool \<times> bool) \<times> (nas \<times> exports)" where
  "moved_run =
     (case publish_body moved_controller sample_id ''node-a'' SINGLE_NODE_WRITER published_filer of (r1, s1) \<Rightarrow>
      case unpublish_body moved_controller sample_id [] s1 of (r2, s2) \<Rightarrow>
      case publish_body moved_controller sample_id ''node-b'' SINGLE_NODE_WRITER s2 of (r3, s3) \<Rightarrow>
        ((refused r1, refused r2, refused r3), s3))"


end
