(* ===== verification/Runs.thy ===== *)
theory Runs
  imports GroupController Filer
begin

text \<open>
  Runs of the handlers on the appliance of \<open>Filer\<close>, with the NFS backend behind them: the instances
  that show the hypotheses of the handlers' properties can hold.
\<close>

type_synonym world = "(nas \<times> exports) \<times> record_of_calls"

definition jobs_call :: "(nas \<times> exports) transport" where
  "jobs_call m ps =
     (if m = ''filesystem.setperm'' then retE (JInt 1)
      else if m = ''core.get_jobs'' then retE (JArr [JObj [(''id'', JInt 1), (''state'', JStr ''SUCCESS'')]])
      else filer_call m ps)"

definition nfs_service_backend :: "'s transport \<Rightarrow> nfs_backend \<Rightarrow> 's backend" where
  "nfs_service_backend call b =
     \<lparr>be_Create = (\<lambda>r. snd (nfs_Create call (Pair True) b r fresh_cache)),
      be_Delete = (\<lambda>i. bindE (nfs_Delete call (Pair 0) (\<lambda>_. Pair True) b i fresh_cache) (\<lambda>_. retE ())),
      be_Expand = nfs_Expand call b,
      be_PublishContext = nfs_PublishContext call b fresh_cache,
      be_AcceptedParameters = [''server'', ''nfsVersion'', ''networks'', ''maproot'', ''mode'', ''uid'', ''gid''],
      be_MinimumCapacityBytes = MinRefQuotaBytes\<rparr>"

definition nfs_service :: "'s transport \<Rightarrow> 's service" where
  "nfs_service call =
     \<lparr>sv_Config = sample_config (sample_cfg\<lparr>cb_ReservedPercent := 0\<rparr>),
      sv_Controller = nfs_controller call sample_backend cluster,
      sv_For = (\<lambda>_ _. retE (nfs_service_backend call sample_backend)),
      sv_Now = Pair 1700000000000000000, sv_Lower = id, sv_Upper = id\<rparr>"

definition world_service :: "world service" where
  "world_service = nfs_service (recording jobs_call)"

lemma world_dials: "dials world_service (recording jobs_call)"
  by (simp add: dials_def sv_Client_def world_service_def nfs_service_def nfs_controller_def)

definition world_request :: create_volume_request where
  "world_request =
     \<lparr>cq_Name = ''pvc-9'', cq_Capabilities = [\<lparr>cap_Type = Mount [], cap_Mode = MULTI_NODE_MULTI_WRITER\<rparr>],
      cq_Parameters = [(''protocol'', ''nfs'')], cq_Mutable = [], cq_RequiredBytes = 0, cq_LimitBytes = 0,
      cq_Topology = Some \<lparr>tr_Requisite = [[(TopologyKey ''nfs'', ''true'')]], tr_Preferred = []\<rparr>, cq_Source = None\<rparr>"

lemma run_result:
  assumes "isl (fst (m s)) = False"
  obtains x s' where "m s = (Inr x, s')"
  using assms by (cases "m s"; cases "fst (m s)") auto

theorem created_volume_witness:
  "\<exists>v s'. CreateVolume world_service world_request ((sample_filer, []), {}) = (Inr v, s') \<and> clean_context (vr_Context v)"
proof -
  have "isl (fst (CreateVolume world_service world_request ((sample_filer, []), {}))) = False" by code_simp
  then obtain v s' where run: "CreateVolume world_service world_request ((sample_filer, []), {}) = (Inr v, s')"
    by (rule run_result)
  then show ?thesis using created_volume [of world_service world_request "(sample_filer, [])" "{}" v "fst s'" "snd s'"] by auto
qed

definition world_class :: params where
  "world_class = [(''sync'', ''disabled'')]"

theorem modify_only_allowed_witness:
  "\<exists>r w new h. ControllerModifyVolume world_service ''nas/nfs/tank/k8s/pvc-1'' world_class ((sample_filer, []), {})
       = (r, ((w, new), h))
     \<and> map fst new = [''pool.dataset.query'', ''pool.dataset.update''] \<and> list_all (modify_call sample_id) new"
proof -
  let ?run = "ControllerModifyVolume world_service ''nas/nfs/tank/k8s/pvc-1'' world_class ((sample_filer, []), {})"
  obtain r w new h where run: "?run = (r, ((w, new), h))" by (metis surj_pair)
  have "map fst (snd (fst (snd ?run))) = [''pool.dataset.query'', ''pool.dataset.update'']" by code_simp
  then have new: "map fst new = [''pool.dataset.query'', ''pool.dataset.update'']" using run by simp
  have "ParseID ''nas/nfs/tank/k8s/pvc-1'' = Inr sample_id" by code_simp
  with modify_only_allowed [OF world_dials run] new have "list_all (modify_call sample_id) new" by auto
  with run new show ?thesis by (intro exI conjI)
qed

definition clone_request :: create_volume_request where
  "clone_request = world_request\<lparr>cq_Source := Some (SourceVolume ''nas/iscsi/tank/k8s/pvc-1'')\<rparr>"



theorem poolReserve_bounds_witness:
  "poolReserve 900 100 50 10 \<ge> 50 \<and> usableCapacity 900 (poolReserve 900 100 50 10) + poolReserve 900 100 50 10 = 900"
  using poolReserve_bounds [of 900 100 50 10] by code_simp

definition unreachable_request :: create_volume_request where
  "unreachable_request = world_request\<lparr>
     cq_Parameters := [(''protocol'', ''nfs''), (''csi.storage.k8s.io/pvc/namespace'', ''team-b'')],
     cq_Topology := Some \<lparr>tr_Requisite = [[(TopologyKey ''nfs'', ''false'')]], tr_Preferred = []\<rparr>\<rparr>"


end
