(* ===== verification/SnapStore.thy ===== *)
theory SnapStore
  imports Snapshots Appliance
begin

text \<open>
  A stand-in appliance with snapshots beside its datasets, which meets the contract group snapshots
  rest on, and runs of the driver against it. A held snapshot cannot be deleted.
\<close>

record snapstore =
  zs_snaps :: "(string \<times> string) list"
  zs_held :: "(string \<times> string) list"

definition snap_json :: "string \<times> string \<Rightarrow> json" where
  "snap_json = (\<lambda>(d, n). JObj [(''id'', JStr (d @ ''@'' @ n)), (''name'', JStr n), (''dataset'', JStr d),
     (''createtxg'', JStr [])])"

definition filter_of :: "json list \<Rightarrow> string \<times> string" where
  "filter_of ps = (case ps of JArr [JArr [f, _, v]] # _ \<Rightarrow> (str_or_empty f, str_or_empty v) | _ \<Rightarrow> ([], []))"

definition zs_query :: "json list \<Rightarrow> (nas \<times> snapstore, go_error, json) op" where
  "zs_query ps s =
     (let (f, v) = filter_of ps
      in (Inr (JArr (map snap_json (filter (\<lambda>(d, n).
             if f = ''id'' then d @ ''@'' @ n = v else has_prefix v d) (zs_snaps (snd s))))), s))"

definition str_member :: "string \<Rightarrow> (string \<times> json) list \<Rightarrow> string" where
  "str_member k kvs = (case jget k kvs of Some j \<Rightarrow> str_or_empty j | None \<Rightarrow> [])"

definition zs_create :: "json list \<Rightarrow> (nas \<times> snapstore, go_error, json) op" where
  "zs_create ps s =
     (let kvs = obj_members (hd ps); d = str_member ''dataset'' kvs; n = str_member ''name'' kvs;
          targets = filter (\<lambda>e. if jget ''recursive'' kvs = Some (JBool True) then beneath d e else e = d)
                      (map fst (datasets (fst s)))
      in if targets = [] \<or> list_ex (\<lambda>(e, m). m = n \<and> (e \<in> set targets \<or> beneath d e)) (zs_snaps (snd s))
         then (Inl (Plain ''dataset already exists''), s)
         else (Inr (snap_json (d, n)), (fst s, (snd s)\<lparr>zs_snaps := zs_snaps (snd s) @ map (\<lambda>e. (e, n)) targets\<rparr>)))"

definition zs_delete :: "json list \<Rightarrow> (nas \<times> snapstore, go_error, json) op" where
  "zs_delete ps s =
     (let i = str_or_empty (hd ps); hit = (\<lambda>(d, n). d @ ''@'' @ n = i)
      in if list_ex hit (zs_held (snd s)) then (Inl (Plain ''snapshot is held''), s)
         else (Inr JNull, (fst s, (snd s)\<lparr>zs_snaps := filter (\<lambda>x. \<not> hit x) (zs_snaps (snd s))\<rparr>)))"

definition snap_call :: "(nas \<times> snapstore) transport" where
  "snap_call m ps =
     (if m = ''pool.snapshot.query'' then zs_query ps
      else if m = ''pool.snapshot.create'' then zs_create ps
      else if m = ''pool.snapshot.delete'' then zs_delete ps
      else lift_call nas_call m ps)"

definition zs_now :: "nas \<times> snapstore \<Rightarrow> int \<times> (nas \<times> snapstore)" where
  "zs_now s = (1700000000000000000, s)"

section \<open>The contract holds\<close>

definition at_free :: "string \<Rightarrow> bool" where
  "at_free d \<longleftrightarrow> d \<noteq> [] \<and> CHR ''@'' \<notin> set d"

definition zs_wf :: "nas \<times> snapstore \<Rightarrow> bool" where
  "zs_wf s \<longleftrightarrow> nas_wf (fst s) \<and> list_all at_free (map fst (datasets (fst s)))
     \<and> list_all (\<lambda>(d, n). at_free d \<and> CHR ''@'' \<notin> set n) (zs_snaps (snd s))"

definition zs_set :: "nas \<times> snapstore \<Rightarrow> (string \<times> string) set" where
  "zs_set s = set (zs_snaps (snd s))"

definition zs_datasets :: "nas \<times> snapstore \<Rightarrow> string set" where
  "zs_datasets s = fst ` set (datasets (fst s))"

definition plain_snap :: "string \<times> string \<Rightarrow> snapshot" where
  "plain_snap = (\<lambda>(d, n). \<lparr>sn_ID = d @ ''@'' @ n, sn_Name = n, sn_Dataset = d, sn_CreateTXG = [], sn_Used = 0,
     sn_Creation = 0, sn_VolSize = 0\<rparr>)"

lemma decode_snap_json: "decode_snapshot (snap_json x) = Some (plain_snap x)"
  by (cases x) (simp add: decode_snapshot_def snap_json_def plain_snap_def string_field_def jget_def snapProps_def field_or_def)

lemma decode_snaps: "decode_list decode_snapshot (JArr (map snap_json xs)) = Some (map plain_snap xs)"
proof -
  have "decode_all decode_snapshot (map snap_json xs) = Some (map plain_snap xs)"
    by (induction xs) (simp_all add: decode_snap_json)
  then show ?thesis by (simp add: decode_list_def)
qed

lemma zs_DatasetQuery: "DatasetQuery snap_call i = lifted (DatasetQuery nas_call i)"
proof -
  have "DatasetQuery snap_call i = DatasetQuery (lift_call nas_call) i"
    unfolding DatasetQuery_def CallJSON_def by (simp add: snap_call_def)
  then show ?thesis by (simp add: lift_Ops)
qed

lemma zs_SnapshotQuery:
  "SnapshotQuery snap_call i s =
     (Inr (case filter (\<lambda>(d, n). d @ ''@'' @ n = i) (zs_snaps (snd s)) of [] \<Rightarrow> None | x # _ \<Rightarrow> Some (plain_snap x)), s)"
  by (simp add: SnapshotQuery_def CallJSON_def snap_call_def zs_query_def filter_of_def filter_json_def str_or_empty_def
      tryE_def bindE_def retE_def decode_snaps split: list.split)

lemma zs_SnapshotList:
  "SnapshotList snap_call p s = (Inr (map plain_snap (filter (\<lambda>(d, n). has_prefix p d) (zs_snaps (snd s)))), s)"
  by (simp add: SnapshotList_def CallJSON_def snap_call_def zs_query_def filter_of_def filter_json_def str_or_empty_def
      tryE_def bindE_def retE_def decode_snaps)

lemma snap_pair_inj:
  assumes "CHR ''@'' \<notin> set n" "CHR ''@'' \<notin> set n'"
  shows "d @ ''@'' @ n = d' @ ''@'' @ n' \<longleftrightarrow> d = d' \<and> n = n'"
proof
  assume "d @ ''@'' @ n = d' @ ''@'' @ n'"
  then have "cut_last (CHR ''@'') (d @ CHR ''@'' # n) = cut_last (CHR ''@'') (d' @ CHR ''@'' # n')" by simp
  with assms show "d = d' \<and> n = n'" by simp
qed simp

lemma zs_delete_run:
  "SnapshotDelete snap_call (snap_id d n) s =
     (if list_ex (\<lambda>(e, m). e @ ''@'' @ m = snap_id d n) (zs_held (snd s)) then (Inl (Plain ''snapshot is held''), s)
      else (Inr (), (fst s, (snd s)\<lparr>zs_snaps := filter (\<lambda>(e, m). e @ ''@'' @ m \<noteq> snap_id d n) (zs_snaps (snd s))\<rparr>)))"
  by (simp add: SnapshotDelete_def CallUnit_def CallJSON_def snap_call_def zs_delete_def str_or_empty_def
      tryE_def bindE_def retE_def failE_def IsNotFound_def errors_As_def case_prod_beta')

lemma zs_create_run:
  "SnapshotCreateRecursive snap_call p n s =
     (let targets = filter (beneath p) (map fst (datasets (fst s)))
      in if targets = [] \<or> list_ex (\<lambda>(e, m). m = n \<and> beneath p e) (zs_snaps (snd s))
         then (Inl (Plain ''dataset already exists''), s)
         else (Inr (plain_snap (p, n)), (fst s, (snd s)\<lparr>zs_snaps := zs_snaps (snd s) @ map (\<lambda>e. (e, n)) targets\<rparr>)))"
proof -
  have "list_ex (\<lambda>(e, m). m = n \<and> (e \<in> set (filter (beneath p) xs) \<or> beneath p e)) zs
      = list_ex (\<lambda>(e, m). m = n \<and> beneath p e) zs" for xs zs
    by (auto simp: list_ex_iff)
  then show ?thesis
    by (simp add: SnapshotCreateRecursive_def CallJSON_def snap_call_def zs_create_def Let_def obj_members_def str_member_def
        jget_def str_or_empty_def bindE_def retE_def decode_snap_json del: set_filter)
qed

interpretation zs: snapshot_store snap_call zs_now zs_wf zs_set zs_datasets
proof (unfold_locales, goal_cases)
  case (1 s d n)
  then show ?case by (auto simp: zs_wf_def zs_set_def list_all_iff at_free_def)
next
  case (2 s d)
  then show ?case by (auto simp: zs_wf_def zs_datasets_def list_all_iff at_free_def)
next
  case (4 s d r1 s')
  then have "snd (DatasetQuery nas_call d (fst s)) = fst s"
    using nas_DatasetQuery [of "fst s" d] by (cases "nas_locals (fst s) d") (auto simp: zs_wf_def)
  with 4 show ?case by (auto simp: zs_DatasetQuery lifted_def split: prod.splits)
next
  case (5 s n d r2 s')
  have "filter (\<lambda>(e, m). e @ ''@'' @ m = snap_id d n) (zs_snaps (snd s)) = [] \<longleftrightarrow> (d, n) \<notin> zs_set s"
    using 5(1,2) snap_pair_inj by (fastforce simp: filter_empty_conv zs_set_def snap_id_def zs_wf_def list_all_iff)
  with 5(3) show ?case by (auto simp: zs_SnapshotQuery split: list.splits)
next
  case (6 s p r3 s')
  then show ?case by (force simp: zs_SnapshotList plain_snap_def zs_set_def snap_id_def image_iff)
next
  case (7 s n p r4 s')
  let ?ts = "filter (beneath p) (map fst (datasets (fst s)))"
  let ?t = "(fst s, (snd s)\<lparr>zs_snaps := zs_snaps (snd s) @ map (\<lambda>e. (e, n)) ?ts\<rparr>)"
  have ts: "set (map (\<lambda>e. (e, n)) ?ts) = recursive_set p n (zs_datasets s)"
    by (auto simp: recursive_set_def zs_datasets_def)
  have wf: "zs_wf ?t" using 7(1,2) by (auto simp: zs_wf_def list_all_iff)
  have t: "zs_set ?t = zs_set s \<union> recursive_set p n (zs_datasets s)" "zs_datasets ?t = zs_datasets s"
    unfolding zs_set_def zs_datasets_def using ts [unfolded zs_datasets_def] by simp_all
  have free: "zs_set s \<inter> {(d, n) |d. beneath p d} = {}" if "\<not> list_ex (\<lambda>(e, m). m = n \<and> beneath p e) (zs_snaps (snd s))"
    using that by (auto simp: list_ex_iff zs_set_def)
  show ?case
  proof (cases "?ts = [] \<or> list_ex (\<lambda>(e, m). m = n \<and> beneath p e) (zs_snaps (snd s))")
    case True
    then have "s' = s" "isl r4" using 7(3) by (auto simp: zs_create_run Let_def)
    with 7(1) show ?thesis by simp
  next
    case False
    then have "s' = ?t" using 7(3) by (simp add: zs_create_run Let_def)
    with wf t free False show ?thesis by blast
  qed
next
  case (8 s n d r5 s')
  have "set (filter (\<lambda>(e, m). e @ ''@'' @ m \<noteq> snap_id d n) (zs_snaps (snd s))) = zs_set s - {(d, n)}"
    using 8(1,2) snap_pair_inj by (fastforce simp: zs_set_def snap_id_def zs_wf_def list_all_iff)
  with 8 show ?case
    by (auto simp: zs_delete_run zs_wf_def zs_set_def zs_datasets_def list_all_iff split: if_splits)
qed (auto simp: zs_now_def)

section \<open>Runs\<close>

definition group_registry :: "(nas \<times> snapstore) registry" where
  "group_registry = \<lparr>reg_Config = sample_config sample_cfg, reg_Client = (\<lambda>_. retE snap_call)\<rparr>"

definition group_nas :: nas where
  "group_nas = \<lparr>datasets = map (\<lambda>d. (d, [])) [''tank'', ''tank/home'', ''tank/k8s'', ''tank/k8s/pvc-1'', ''tank/k8s/pvc-2'',
     ''tank/k8s/other''], clonedFrom = [], renameFail = None, forces = []\<rparr>"

definition group_sources :: "vol_id list" where
  "group_sources = [sample_id, sample_id\<lparr>id_Name := ''pvc-2''\<rparr>]"

definition group_state :: "(string \<times> string) list \<Rightarrow> (string \<times> string) list \<Rightarrow> nas \<times> snapstore" where
  "group_state snaps held = (group_nas, \<lparr>zs_snaps = snaps, zs_held = held\<rparr>)"

theorem group_snapshot_exact_witness:
  "\<exists>g s'. reg_CreateGroupSnapshot group_registry zs_now group_sources ''g'' (group_state [] []) = (Inr g, s')
     \<and> zs_set s' = {(''tank/k8s'', ''g''), (''tank/k8s/pvc-1'', ''g''), (''tank/k8s/pvc-2'', ''g'')}"
proof -
  let ?run = "reg_CreateGroupSnapshot group_registry zs_now group_sources ''g'' (group_state [] [])"
  have "isl (fst ?run) = False" by code_simp
  then obtain g s' where run: "?run = (Inr g, s')" by (cases ?run; cases "fst ?run") auto
  have wf: "zs_wf (group_state [] [])" by (simp add: zs_wf_def group_state_def group_nas_def nas_wf_def at_free_def)
  have parent: "groupParent group_registry group_sources = Inr ''tank/k8s''" by code_simp
  have client: "reg_Client group_registry b t = (q, t') \<Longrightarrow> t' = t \<and> (\<forall>c. q = Inr c \<longrightarrow> c = snap_call)"
    for b t q t' by (auto simp: group_registry_def retE_def)
  have free: "(''tank/k8s'', ''g'') \<notin> zs_set (group_state [] [])" by (simp add: zs_set_def group_state_def)
  have valid: "list_all valid_id group_sources"
    by (simp add: group_sources_def sample_id_def valid_id_def valid_comp_def)
  have held: "insert ''tank/k8s'' (DatasetPath ` set group_sources) \<subseteq> zs_datasets (group_state [] [])"
    by (simp add: zs_datasets_def group_state_def group_nas_def group_sources_def sample_id_def DatasetPath_def)
  have "zs_set s' = zs_set (group_state [] []) \<union> {(''tank/k8s'', ''g'')} \<union> (\<lambda>i. (DatasetPath i, ''g'')) ` set group_sources"
    using group_snapshot_exact [OF zs.snapshot_store_axioms wf _ run parent free _ valid held] client by force
  also have "\<dots> = {(''tank/k8s'', ''g''), (''tank/k8s/pvc-1'', ''g''), (''tank/k8s/pvc-2'', ''g'')}"
    by (auto simp: zs_set_def group_state_def group_sources_def sample_id_def DatasetPath_def)
  finally show ?thesis using run by blast
qed

definition group_retry :: "(bool \<times> bool) \<times> (string \<times> string) list" where
  "group_retry =
     (case reg_CreateGroupSnapshot group_registry zs_now group_sources ''g'' (group_state [] [(''tank/k8s/other'', ''g'')]) of (r1, s1) \<Rightarrow>
      case reg_CreateGroupSnapshot group_registry zs_now group_sources ''g'' s1 of (r2, s2) \<Rightarrow>
        ((isl r1, isl r2), zs_snaps (snd s2)))"


definition foreign_delete :: "bool \<times> (string \<times> string) list" where
  "foreign_delete =
     (case reg_DeleteGroupSnapshot group_registry ''nas/tank@daily'' []
             (group_state [(''tank'', ''daily''), (''tank/home'', ''daily''), (''tank/k8s/pvc-1'', ''weekly'')] []) of
        (r, s) \<Rightarrow> (isl r, zs_snaps (snd s)))"


end
