(* ===== verification/Spec2Isabelle.thy ===== *)
theory Spec2Isabelle
  imports Runs SnapStore
begin

text \<open>
  A verification library for truenas-csi, a Container Storage Interface driver for TrueNAS.
\<close>

end
